(* ===== verification/Prelude.thy ===== *)
theory Prelude
  imports Main "HOL-Library.Multiset"
begin

text \<open>
  Shared material of the development: the collections of rewrite rules, Go's fixed-width
  signed integers as \<open>int\<close> with the wrap-around written out, the sum type of Go's
  \<open>(value, error)\<close> results, and generic facts on lists and maps that several
  components use.
\<close>

section \<open>Collections\<close>

named_theorems go_arith "arithmetic of fixed-width integers inside their range"
named_theorems go_float "evaluation rules of binary64 operations"

section \<open>Fixed-width signed integers\<close>

text \<open>
  A Go \<open>int64\<close> (and \<open>int\<close> on the 64-bit targets the images are built for) is an
  \<open>int\<close> kept in range by \<open>wrap64\<close> after every operation that can leave it; \<open>int32\<close>
  likewise with \<open>wrap32\<close>. \<open>signed_take_bit 63\<close> is two's complement truncation.
\<close>

type_synonym int64 = int
type_synonym int32 = int

definition wrap64 :: "int \<Rightarrow> int64" where
  "wrap64 x = signed_take_bit 63 x"

definition wrap32 :: "int \<Rightarrow> int32" where
  "wrap32 x = signed_take_bit 31 x"

definition in64 :: "int \<Rightarrow> bool" where
  "in64 x \<longleftrightarrow> - (2 ^ 63) \<le> x \<and> x < 2 ^ 63"

definition in32 :: "int \<Rightarrow> bool" where
  "in32 x \<longleftrightarrow> - (2 ^ 31) \<le> x \<and> x < 2 ^ 31"

lemma wrap64_id [go_arith]: "in64 x \<Longrightarrow> wrap64 x = x"
  unfolding wrap64_def in64_def by (rule signed_take_bit_int_eq_self) auto

lemma wrap32_id [go_arith]: "in32 x \<Longrightarrow> wrap32 x = x"
  unfolding wrap32_def in32_def by (rule signed_take_bit_int_eq_self) auto

lemma wrap64_in64 [simp]: "in64 (wrap64 x)"
  unfolding wrap64_def in64_def
  using signed_take_bit_int_greater_eq_minus_exp [of 63 x] signed_take_bit_int_less_exp [of 63 x]
  by simp

lemma wrap32_in32 [simp]: "in32 (wrap32 x)"
  unfolding wrap32_def in32_def
  using signed_take_bit_int_greater_eq_minus_exp [of 31 x] signed_take_bit_int_less_exp [of 31 x]
  by simp

lemma in64_between: "in64 a \<Longrightarrow> in64 b \<Longrightarrow> a \<le> x \<Longrightarrow> x \<le> b \<Longrightarrow> in64 x"
  by (simp add: in64_def)

lemma in32_in64: "in32 x \<Longrightarrow> in64 x"
  by (simp add: in32_def in64_def)

lemma in64_0 [simp]: "in64 0" and in64_1 [simp]: "in64 1"
  by (simp_all add: in64_def)

lemma wrap64_0 [simp]: "wrap64 0 = 0"
  by (simp add: wrap64_def)

lemma wrap64_wrap_add [simp]:
  "wrap64 (wrap64 x + y) = wrap64 (x + y)" "wrap64 (x + wrap64 y) = wrap64 (x + y)"
  unfolding wrap64_def
  by (metis signed_take_bit_add signed_take_bit_signed_take_bit min.idem)+

lemma wrap32_wrap_add [simp]:
  "wrap32 (wrap32 x + y) = wrap32 (x + y)" "wrap32 (x + wrap32 y) = wrap32 (x + y)"
  unfolding wrap32_def
  by (metis signed_take_bit_add signed_take_bit_signed_take_bit min.idem)+

text \<open>Go's integer division truncates towards zero; \<open>%\<close> takes the dividend's sign.\<close>

definition go_div :: "int \<Rightarrow> int \<Rightarrow> int" where
  "go_div a b = sgn a * sgn b * (\<bar>a\<bar> div \<bar>b\<bar>)"

definition go_mod :: "int \<Rightarrow> int \<Rightarrow> int" where
  "go_mod a b = a - b * go_div a b"

lemma go_div_nonneg [simp]: "0 \<le> a \<Longrightarrow> 0 < b \<Longrightarrow> go_div a b = a div b"
  by (cases "a = 0") (auto simp: go_div_def)

lemma go_mod_nonneg [simp]: "0 \<le> a \<Longrightarrow> 0 < b \<Longrightarrow> go_mod a b = a mod b"
  by (simp add: go_mod_def minus_mult_div_eq_mod)

section \<open>Results\<close>

text \<open>Go's \<open>(value, error)\<close>: \<open>Inl\<close> the error, \<open>Inr\<close> the value.\<close>

type_synonym ('e, 'a) result = "'e + 'a"

section \<open>Lists and maps\<close>

definition keep_last :: "nat \<Rightarrow> 'a list \<Rightarrow> 'a list" where
  "keep_last n xs = drop (length xs - n) xs"

lemma length_keep_last [simp]: "length (keep_last n xs) = min n (length xs)"
  by (simp add: keep_last_def)

lemma keep_last_snoc_last: "0 < n \<Longrightarrow> last (keep_last n (xs @ [x])) = x"
  by (simp add: keep_last_def)

lemma set_keep_last: "set (keep_last n xs) \<subseteq> set xs"
  by (simp add: keep_last_def set_drop_subset)

lemma sorted_wrt_append_iff:
  "sorted_wrt R (xs @ ys) \<longleftrightarrow>
     sorted_wrt R xs \<and> sorted_wrt R ys \<and> (\<forall>x \<in> set xs. \<forall>y \<in> set ys. R x y)"
  by (simp add: sorted_wrt_append)

lemma sorted_wrt_list_update_same:
  assumes "sorted_wrt R xs" and "\<And>a b. R a b \<Longrightarrow> R' a b"
  shows "sorted_wrt R' xs"
  using assms by (rule sorted_wrt_mono_rel [rotated]) auto

text \<open>The elements before the first one that satisfies a predicate.\<close>

lemma takeWhile_not_split:
  "\<exists>x \<in> set xs. P x \<Longrightarrow>
     \<exists>x zs. xs = takeWhile (\<lambda>y. \<not> P y) xs @ x # zs \<and> P x"
proof (induction xs)
  case Nil
  then show ?case by simp
next
  case (Cons a xs)
  then show ?case by (cases "P a") auto
qed

end
