(* ===== verification/Ordering.thy ===== *)
theory Ordering
  imports Prelude
begin

text \<open>
  The contract of the comparison functions the code sorts by, and of \<open>sort.Slice\<close>.
  A comparison has to be a strict weak order on the elements at hand; \<open>sort.Slice\<close> then
  returns some sorted permutation (it is not stable, so which one is left open: the models
  of the code take the sorting function as an argument with the contract \<open>sort_slice\<close>).
  \<open>insertion_sort\<close> is the algorithm \<open>sort.Slice\<close> uses up to twelve elements and provides
  the contract; its inner loop \<open>bubble\<close> is also the loop the validator writes by hand.
\<close>

section \<open>Strict weak orders\<close>

definition strict_weak_on :: "'a set \<Rightarrow> ('a \<Rightarrow> 'a \<Rightarrow> bool) \<Rightarrow> bool" where
  "strict_weak_on A lt \<longleftrightarrow>
     (\<forall>x\<in>A. \<not> lt x x) \<and>
     (\<forall>x\<in>A. \<forall>y\<in>A. \<forall>z\<in>A. lt x y \<longrightarrow> lt y z \<longrightarrow> lt x z) \<and>
     (\<forall>x\<in>A. \<forall>y\<in>A. \<forall>z\<in>A. \<not> lt x y \<longrightarrow> \<not> lt y z \<longrightarrow> \<not> lt x z)"

lemma strict_weak_on_subset: "strict_weak_on A lt \<Longrightarrow> B \<subseteq> A \<Longrightarrow> strict_weak_on B lt"
  unfolding strict_weak_on_def by blast

text \<open>No element is followed by one that has to come before it.\<close>

abbreviation in_order :: "('a \<Rightarrow> 'a \<Rightarrow> bool) \<Rightarrow> 'a list \<Rightarrow> bool" where
  "in_order lt xs \<equiv> sorted_wrt (\<lambda>x y. \<not> lt y x) xs"

locale weak_order =
  fixes ok :: "'a \<Rightarrow> bool" and lt :: "'a \<Rightarrow> 'a \<Rightarrow> bool"
  assumes irrefl: "ok x \<Longrightarrow> \<not> lt x x"
    and trans: "ok x \<Longrightarrow> ok y \<Longrightarrow> ok z \<Longrightarrow> lt x y \<Longrightarrow> lt y z \<Longrightarrow> lt x z"
    and neg_trans: "ok x \<Longrightarrow> ok y \<Longrightarrow> ok z \<Longrightarrow> \<not> lt x y \<Longrightarrow> \<not> lt y z \<Longrightarrow> \<not> lt x z"
begin

lemma asym: "ok x \<Longrightarrow> ok y \<Longrightarrow> lt x y \<Longrightarrow> \<not> lt y x"
  using irrefl trans by blast

lemma strict_weak: "\<forall>x\<in>A. ok x \<Longrightarrow> strict_weak_on A lt"
  unfolding strict_weak_on_def
  by (intro conjI ballI impI; meson irrefl trans neg_trans)

lemma in_order_head: "in_order lt (x # xs) \<Longrightarrow> y \<in> set xs \<Longrightarrow> \<not> lt y x"
  by simp

end

section \<open>The insertion loop\<close>

text \<open>
  \<open>for i := n; i > 0; i-- { if lt(xs[i], xs[i-1]) { swap } else { break } }\<close>
\<close>

fun bubble :: "('a \<Rightarrow> 'a \<Rightarrow> bool) \<Rightarrow> nat \<Rightarrow> 'a list \<Rightarrow> 'a list" where
  "bubble lt 0 xs = xs"
| "bubble lt (Suc i) xs =
     (let a = xs ! i; b = xs ! Suc i
      in if lt b a then bubble lt i (xs[i := b, Suc i := a]) else xs)"

text \<open>The same insertion by recursion on the reversed list.\<close>

fun insert_back :: "('a \<Rightarrow> 'a \<Rightarrow> bool) \<Rightarrow> 'a \<Rightarrow> 'a list \<Rightarrow> 'a list" where
  "insert_back lt y [] = [y]"
| "insert_back lt y (a # as) =
     (if lt y a then a # insert_back lt y as else y # a # as)"

lemma mset_insert_back [simp]: "mset (insert_back lt y as) = add_mset y (mset as)"
  by (induction as) auto

lemma set_insert_back [simp]: "set (insert_back lt y as) = insert y (set as)"
  by (induction as) auto

lemma bubble_insert_back:
  "bubble lt (length xs) (xs @ y # zs) = rev (insert_back lt y (rev xs)) @ zs"
proof (induction xs arbitrary: zs rule: rev_induct)
  case Nil
  then show ?case by simp
next
  case (snoc a xs)
  have "(xs @ a # y # zs)[length xs := y, Suc (length xs) := a] = xs @ y # a # zs"
    by (simp add: list_update_append)
  then show ?case using snoc.IH [of "a # zs"] by (simp add: nth_append Let_def)
qed

lemma mset_bubble: "mset (bubble lt (length xs) (xs @ y # zs)) = mset (xs @ y # zs)"
  by (simp add: bubble_insert_back)

context weak_order
begin

lemma insert_back_sorted:
  assumes "sorted_wrt (\<lambda>x y. \<not> lt x y) as" and "ok y" and "\<forall>a \<in> set as. ok a"
  shows "sorted_wrt (\<lambda>x y. \<not> lt x y) (insert_back lt y as)"
  using assms
proof (induction as)
  case Nil
  then show ?case by simp
next
  case (Cons a as)
  show ?case
  proof (cases "lt y a")
    case True
    with Cons show ?thesis by (auto dest: asym)
  next
    case False
    have "\<not> lt y b" if "b \<in> set as" for b
      using Cons.prems False that neg_trans [of y a b] by auto
    with Cons.prems False show ?thesis by auto
  qed
qed

lemma bubble_sorted:
  assumes "in_order lt xs" and "ok y" and "\<forall>x \<in> set xs. ok x"
  shows "in_order lt (bubble lt (length xs) (xs @ [y]))"
  using insert_back_sorted [of "rev xs" y] assms
  by (simp add: bubble_insert_back sorted_wrt_rev)

end

section \<open>The contract of sort.Slice\<close>

locale sort_slice =
  fixes srt :: "('a \<Rightarrow> 'a \<Rightarrow> bool) \<Rightarrow> 'a list \<Rightarrow> 'a list"
  assumes srt_mset: "mset (srt lt xs) = mset xs"
    and srt_sorted: "strict_weak_on (set xs) lt \<Longrightarrow> in_order lt (srt lt xs)"
begin

lemma srt_set [simp]: "set (srt lt xs) = set xs"
  using srt_mset [of lt xs] by (metis set_mset_mset)

lemma srt_length [simp]: "length (srt lt xs) = length xs"
  using srt_mset [of lt xs] by (metis size_mset)

end

text \<open>Insertion sort: the loop above for the positions \<open>1, 2, \<dots>\<close>.\<close>

definition insertion_sort :: "('a \<Rightarrow> 'a \<Rightarrow> bool) \<Rightarrow> 'a list \<Rightarrow> 'a list" where
  "insertion_sort lt xs = foldl (\<lambda>ys i. bubble lt i ys) xs [1..<length xs]"

lemma insertion_sort_fold:
  "insertion_sort lt xs =
     foldl (\<lambda>ys y. rev (insert_back lt y (rev ys))) [] xs"
proof -
  let ?ins = "\<lambda>ys y. rev (insert_back lt y (rev ys))"
  have len: "length (foldl ?ins [] xs) = length xs" for xs
    by (induction xs rule: rev_induct) (simp_all flip: size_mset)
  have *: "foldl (\<lambda>ys i. bubble lt i ys) xs [1..<n] = foldl ?ins [] (take n xs) @ drop n xs"
    if "1 \<le> n" "n \<le> length xs" for n
    using that
  proof (induction n rule: dec_induct)
    case base
    then show ?case by (cases xs) auto
  next
    case (step n)
    let ?p = "foldl ?ins [] (take n xs)"
    have d: "drop n xs = xs ! n # drop (Suc n) xs"
      using step.prems by (simp add: Cons_nth_drop_Suc)
    have n: "length ?p = n" using step.prems len [of "take n xs"] by simp
    have "foldl (\<lambda>ys i. bubble lt i ys) xs [1..<Suc n] = bubble lt n (?p @ drop n xs)"
      using step by simp
    also have "\<dots> = ?ins ?p (xs ! n) @ drop (Suc n) xs"
      using bubble_insert_back [of lt ?p "xs ! n" "drop (Suc n) xs"] n d by simp
    also have "?ins ?p (xs ! n) = foldl ?ins [] (take (Suc n) xs)"
      using step.prems by (simp add: take_Suc_conv_app_nth)
    finally show ?case .
  qed
  show ?thesis
  proof (cases xs)
    case Nil
    then show ?thesis by (simp add: insertion_sort_def)
  next
    case (Cons a as)
    then show ?thesis using * [of "length xs"] by (simp add: insertion_sort_def)
  qed
qed

lemma mset_insertion_sort: "mset (insertion_sort lt xs) = mset xs"
  unfolding insertion_sort_fold by (induction xs rule: rev_induct) auto

lemma insertion_sort_sorted:
  assumes "strict_weak_on (set xs) lt"
  shows "in_order lt (insertion_sort lt xs)"
proof -
  have w: "weak_order (\<lambda>x. x \<in> set xs) lt"
    using assms unfolding strict_weak_on_def by unfold_locales blast+
  have "in_order lt (foldl (\<lambda>ys y. rev (insert_back lt y (rev ys))) [] ys)"
    if "set ys \<subseteq> set xs" for ys
    using that
  proof (induction ys rule: rev_induct)
    case Nil
    then show ?case by simp
  next
    case (snoc y ys)
    let ?p = "foldl (\<lambda>ys y. rev (insert_back lt y (rev ys))) [] ys"
    have "set ?p = set ys"
      by (induction ys rule: rev_induct) auto
    with snoc show ?case
      using weak_order.insert_back_sorted [OF w, of "rev ?p" y] by (auto simp: sorted_wrt_rev)
  qed
  then show ?thesis by (simp add: insertion_sort_fold)
qed

interpretation insertion: sort_slice insertion_sort
  by unfold_locales (simp_all add: mset_insertion_sort insertion_sort_sorted)

end
