(* ===== verification/Float64.thy ===== *)
theory Float64
  imports Prelude Complex_Main "HOL-Library.Log_Nat"
begin

text \<open>
  Go's \<open>float64\<close>: IEEE 754 binary64 with signed zeros, infinities and NaN, every
  operation rounded to nearest, ties to even, as the language prescribes for amd64 (no
  fused multiply-add). Finite values carry their exact rational magnitude, so every
  operation is an exact rational operation followed by \<open>fround\<close>. The theory ends with
  the monotonicity of rounding, from which the bounds of the scores follow.
\<close>

section \<open>Values\<close>

datatype float64 =
    NaN
  | Infty bool          \<comment> \<open>\<open>True\<close> is the negative sign\<close>
  | Num bool rat      \<comment> \<open>sign and magnitude\<close>

fun fval :: "float64 \<Rightarrow> rat" where
  "fval (Num s m) = (if s then - m else m)"
| "fval _ = 0"

fun is_fin :: "float64 \<Rightarrow> bool" where
  "is_fin (Num s m) = True"
| "is_fin _ = False"

section \<open>Rounding\<close>

definition ilog2 :: "rat \<Rightarrow> int" where
  "ilog2 m = (let (n, d) = quotient_of m; k = bitlen n - bitlen d
              in if 2 powi k \<le> m then k else k - 1)"

definition round_half_even :: "rat \<Rightarrow> int" where
  "round_half_even x =
     (let f = \<lfloor>x\<rfloor>; r = x - of_int f
      in if r < 1/2 then f else if 1/2 < r then f + 1 else if even f then f else f + 1)"

text \<open>The gap between neighbouring binary64 numbers around a magnitude: \<open>2\<close> to the
  exponent less 52, the exponent at least \<open>-1022\<close> (subnormals).\<close>

definition fulp :: "rat \<Rightarrow> rat" where
  "fulp m = 2 powi (max (ilog2 m) (- 1022) - 52)"

definition round_mag :: "rat \<Rightarrow> rat" where
  "round_mag m = (if m = 0 then 0 else of_int (round_half_even (m / fulp m)) * fulp m)"

definition fround :: "bool \<Rightarrow> rat \<Rightarrow> float64" where
  "fround s m = (let r = round_mag m in if 2 ^ 1024 \<le> r then Infty s else Num s r)"

definition rnd :: "rat \<Rightarrow> float64" where
  "rnd v = fround (v < 0) \<bar>v\<bar>"

section \<open>Operations\<close>

fun fneg :: "float64 \<Rightarrow> float64" where
  "fneg NaN = NaN"
| "fneg (Infty s) = Infty (\<not> s)"
| "fneg (Num s m) = Num (\<not> s) m"

fun fadd :: "float64 \<Rightarrow> float64 \<Rightarrow> float64" where
  "fadd NaN y = NaN"
| "fadd x NaN = NaN"
| "fadd (Infty a) (Infty b) = (if a = b then Infty a else NaN)"
| "fadd (Infty a) (Num s m) = Infty a"
| "fadd (Num s m) (Infty b) = Infty b"
| "fadd (Num a x) (Num b y) =
     (let v = fval (Num a x) + fval (Num b y) in if v = 0 then Num (a \<and> b) 0 else rnd v)"

definition fsub :: "float64 \<Rightarrow> float64 \<Rightarrow> float64" where
  "fsub x y = fadd x (fneg y)"

fun fmul :: "float64 \<Rightarrow> float64 \<Rightarrow> float64" where
  "fmul NaN y = NaN"
| "fmul x NaN = NaN"
| "fmul (Infty a) (Infty b) = Infty (a \<noteq> b)"
| "fmul (Infty a) (Num s m) = (if m = 0 then NaN else Infty (a \<noteq> s))"
| "fmul (Num s m) (Infty b) = (if m = 0 then NaN else Infty (s \<noteq> b))"
| "fmul (Num a x) (Num b y) =
     (let v = fval (Num a x) * fval (Num b y) in if v = 0 then Num (a \<noteq> b) 0 else rnd v)"

fun fdiv :: "float64 \<Rightarrow> float64 \<Rightarrow> float64" where
  "fdiv NaN y = NaN"
| "fdiv x NaN = NaN"
| "fdiv (Infty a) (Infty b) = NaN"
| "fdiv (Infty a) (Num s m) = Infty (a \<noteq> s)"
| "fdiv (Num s m) (Infty b) = Num (s \<noteq> b) 0"
| "fdiv (Num a x) (Num b y) =
     (if y = 0 then (if x = 0 then NaN else Infty (a \<noteq> b))
      else let v = fval (Num a x) / fval (Num b y) in if v = 0 then Num (a \<noteq> b) 0 else rnd v)"

fun flt :: "float64 \<Rightarrow> float64 \<Rightarrow> bool" where
  "flt NaN y = False"
| "flt x NaN = False"
| "flt (Infty a) (Infty b) = (a \<and> \<not> b)"
| "flt (Infty a) (Num s m) = a"
| "flt (Num s m) (Infty b) = (\<not> b)"
| "flt (Num a x) (Num b y) = (fval (Num a x) < fval (Num b y))"

fun fle :: "float64 \<Rightarrow> float64 \<Rightarrow> bool" where
  "fle NaN y = False"
| "fle x NaN = False"
| "fle (Infty a) (Infty b) = (a \<or> \<not> b)"
| "fle (Infty a) (Num s m) = a"
| "fle (Num s m) (Infty b) = (\<not> b)"
| "fle (Num a x) (Num b y) = (fval (Num a x) \<le> fval (Num b y))"

fun feq :: "float64 \<Rightarrow> float64 \<Rightarrow> bool" where
  "feq NaN y = False"
| "feq x NaN = False"
| "feq (Infty a) (Infty b) = (a = b)"
| "feq (Num a x) (Num b y) = (fval (Num a x) = fval (Num b y))"
| "feq _ _ = False"

text \<open>\<open>math.Max\<close> and \<open>math.Min\<close>, in the order of their special cases.\<close>

fun signbit :: "float64 \<Rightarrow> bool" where
  "signbit NaN = False"
| "signbit (Infty s) = s"
| "signbit (Num s m) = s"

definition fmax :: "float64 \<Rightarrow> float64 \<Rightarrow> float64" where
  "fmax x y =
     (if x = Infty False \<or> y = Infty False then Infty False
      else if x = NaN \<or> y = NaN then NaN
      else if feq x (Num False 0) \<and> feq x y then (if signbit x then y else x)
      else if flt y x then x else y)"

definition fmin :: "float64 \<Rightarrow> float64 \<Rightarrow> float64" where
  "fmin x y =
     (if x = Infty True \<or> y = Infty True then Infty True
      else if x = NaN \<or> y = NaN then NaN
      else if feq x (Num False 0) \<and> feq x y then (if signbit x then x else y)
      else if flt x y then x else y)"

text \<open>Conversions: \<open>float64(i)\<close> rounds to nearest even; \<open>int64(x)\<close> truncates, and is
  the smallest \<open>int64\<close> outside the range (the amd64 instruction's result).\<close>

definition f_of_int :: "int \<Rightarrow> float64" where
  "f_of_int i = rnd (of_int i)"

definition f_to_int64 :: "float64 \<Rightarrow> int64" where
  "f_to_int64 x =
     (if is_fin x then
        let t = (if fval x < 0 then \<lceil>fval x\<rceil> else \<lfloor>fval x\<rfloor>)
        in if in64 t then t else - (2 ^ 63)
      else - (2 ^ 63))"

text \<open>\<open>math.Round\<close>: half away from zero, keeping the sign.\<close>

fun fround_int :: "float64 \<Rightarrow> float64" where
  "fround_int (Num s m) = Num s (of_int \<lfloor>m + 1/2\<rfloor>)"
| "fround_int x = x"

text \<open>A Go constant converted to \<open>float64\<close>.\<close>

definition fconst :: "rat \<Rightarrow> float64" where
  "fconst q = rnd q"


section \<open>Facts about rounding\<close>

lemma two_powi_pos [simp]: "0 < (2::rat) powi k"
  by (simp add: power_int_def)

lemma two_powi_less_iff: "(2::rat) powi a < 2 powi b \<longleftrightarrow> a < b"
  using power_int_strict_increasing [of a b "2::rat"] power_int_increasing [of b a "2::rat"]
  by (cases "a < b") auto

lemma two_powi_le_iff: "(2::rat) powi a \<le> 2 powi b \<longleftrightarrow> a \<le> b"
  by (meson linorder_not_le two_powi_less_iff)

lemma two_powi_nat: "0 \<le> k \<Longrightarrow> (2::rat) powi k = of_int (2 ^ nat k)"
  by (simp add: power_int_def)

lemma bitlen_bounds_rat:
  assumes "0 < n"
  shows "2 powi (bitlen n - 1) \<le> (of_int n :: rat)" and "(of_int n :: rat) < 2 powi (bitlen n)"
proof -
  have b: "2 ^ nat (bitlen n - 1) \<le> n" "n < 2 ^ nat (bitlen n)"
    using bitlen_bounds [OF assms] by auto
  have "0 < bitlen n" using assms by (simp add: bitlen_alt_def floorlog_def)
  then have "0 \<le> bitlen n - 1" "0 \<le> bitlen n" by auto
  then have "(2::rat) powi (bitlen n - 1) = of_int (2 ^ nat (bitlen n - 1))"
    and "(2::rat) powi (bitlen n) = of_int (2 ^ nat (bitlen n))"
    by (simp_all only: two_powi_nat)
  then show "2 powi (bitlen n - 1) \<le> (of_int n :: rat)" "(of_int n :: rat) < 2 powi (bitlen n)"
    using b by (simp_all only: of_int_le_iff of_int_less_iff)
qed

lemma ilog2_bounds:
  assumes "0 < m"
  shows "2 powi (ilog2 m) \<le> m" and "m < 2 powi (ilog2 m + 1)"
proof -
  obtain n d where q: "quotient_of m = (n, d)" by force
  have d: "0 < d" using q by (rule quotient_of_denom_pos)
  have m: "m = of_int n / of_int d" using q by (rule quotient_of_div)
  with assms d have n: "0 < n" by (simp add: zero_less_divide_iff)
  let ?k = "bitlen n - bitlen d"
  have dpos: "(0::rat) < of_int d" using d by simp
  have up: "m < 2 powi (?k + 1)"
  proof -
    have "(of_int n :: rat) < 2 powi (bitlen n)" by (rule bitlen_bounds_rat [OF n])
    also have "\<dots> = 2 powi (?k + 1) * 2 powi (bitlen d - 1)"
      by (simp flip: power_int_add)
    also have "\<dots> \<le> 2 powi (?k + 1) * of_int d"
      by (intro mult_left_mono bitlen_bounds_rat d) simp
    finally show ?thesis using dpos by (simp add: m divide_less_eq)
  qed
  have lo: "2 powi (?k - 1) \<le> m"
  proof -
    have "(2::rat) powi (?k - 1) * of_int d \<le> 2 powi (?k - 1) * 2 powi (bitlen d)"
      by (intro mult_left_mono less_imp_le [OF bitlen_bounds_rat(2)] d) simp
    also have "\<dots> = 2 powi (bitlen n - 1)" by (simp flip: power_int_add)
    also have "\<dots> \<le> of_int n" by (rule bitlen_bounds_rat [OF n])
    finally show ?thesis using dpos by (simp add: m le_divide_eq)
  qed
  have i: "ilog2 m = (if 2 powi ?k \<le> m then ?k else ?k - 1)"
    by (simp add: ilog2_def q Let_def)
  show "2 powi (ilog2 m) \<le> m" "m < 2 powi (ilog2 m + 1)"
    using up lo by (auto simp: i)
qed

lemma ilog2_eqI:
  assumes "2 powi e \<le> m" and "m < 2 powi (e + 1)"
  shows "ilog2 m = e"
proof -
  have "0 < m" using assms(1) two_powi_pos [of e] by linarith
  note b = ilog2_bounds [OF this]
  from assms(1) b(2) have "e < ilog2 m + 1"
    using two_powi_less_iff by (meson order_le_less_trans)
  moreover from b(1) assms(2) have "ilog2 m < e + 1"
    using two_powi_less_iff by (meson order_le_less_trans)
  ultimately show ?thesis by linarith
qed

lemma ilog2_mono: "0 < x \<Longrightarrow> x \<le> y \<Longrightarrow> ilog2 x \<le> ilog2 y"
  using ilog2_bounds [of x] ilog2_bounds [of y] two_powi_less_iff [of "ilog2 x" "ilog2 y + 1"]
  by linarith

text \<open>Two rules by which the simplifier computes the exponent of a numeral.\<close>

lemma ilog2_ge1 [go_float]: "1 \<le> m \<Longrightarrow> ilog2 m = (if m < 2 then 0 else 1 + ilog2 (m / 2))"
proof -
  assume m: "1 \<le> m"
  show ?thesis
  proof (cases "m < 2")
    case True
    with m show ?thesis by (auto intro: ilog2_eqI)
  next
    case False
    with m have "0 < m / 2" by simp
    note b = ilog2_bounds [OF this]
    have "(2::rat) powi (1 + ilog2 (m / 2)) = 2 * 2 powi (ilog2 (m / 2))"
      and "(2::rat) powi (1 + ilog2 (m / 2) + 1) = 2 * 2 powi (ilog2 (m / 2) + 1)"
      by (simp_all add: power_int_add)
    with b have "ilog2 m = 1 + ilog2 (m / 2)"
      by (intro ilog2_eqI) linarith+
    with False show ?thesis by simp
  qed
qed

lemma ilog2_lt1 [go_float]: "0 < m \<Longrightarrow> m < 1 \<Longrightarrow> ilog2 m = ilog2 (2 * m) - 1"
proof -
  assume "0 < m" "m < 1"
  then have "0 < 2 * m" by simp
  note b = ilog2_bounds [OF this]
  have "2 * (2::rat) powi (ilog2 (2 * m) - 1) = 2 powi (ilog2 (2 * m))"
    and "2 * (2::rat) powi (ilog2 (2 * m) - 1 + 1) = 2 powi (ilog2 (2 * m) + 1)"
    by (simp_all add: power_int_diff power_int_add)
  with b show ?thesis
    by (intro ilog2_eqI) linarith+
qed

lemma fulp_pos [simp]: "0 < fulp m"
  by (simp add: fulp_def)

lemma fulp_mono: "0 < x \<Longrightarrow> x \<le> y \<Longrightarrow> fulp x \<le> fulp y"
  using ilog2_mono [of x y] by (simp add: fulp_def two_powi_le_iff max.coboundedI1)

lemma round_half_even_bounds:
  "\<lfloor>x\<rfloor> \<le> round_half_even x" "round_half_even x \<le> \<lfloor>x\<rfloor> + 1"
  by (simp_all add: round_half_even_def Let_def)

lemma round_half_even_of_int [simp]: "round_half_even (of_int n) = n"
  by (simp add: round_half_even_def)

lemma round_half_even_mono:
  assumes "x \<le> y" shows "round_half_even x \<le> round_half_even y"
proof (cases "\<lfloor>x\<rfloor> = \<lfloor>y\<rfloor>")
  case True
  with assms show ?thesis by (auto simp: round_half_even_def Let_def)
next
  case False
  then have "\<lfloor>x\<rfloor> + 1 \<le> \<lfloor>y\<rfloor>" using floor_mono [OF assms] by linarith
  then show ?thesis using round_half_even_bounds(2) [of x] round_half_even_bounds(1) [of y]
    by linarith
qed

lemma round_half_even_nonneg: "0 \<le> x \<Longrightarrow> 0 \<le> round_half_even x"
  using round_half_even_mono [of 0 x] by (simp add: round_half_even_def)

lemma round_mag_0 [simp]: "round_mag 0 = 0"
  by (simp add: round_mag_def)

lemma round_mag_nonneg [simp]: "0 \<le> m \<Longrightarrow> 0 \<le> round_mag m"
  using less_imp_le [OF fulp_pos [of m]] by (auto simp: round_mag_def round_half_even_nonneg)

text \<open>A multiple of the gap is a binary64 number already: rounding keeps it.\<close>

lemma round_mag_exact: "0 < m \<Longrightarrow> m = of_int k * fulp m \<Longrightarrow> round_mag m = m"
proof -
  assume "0 < m" and m: "m = of_int k * fulp m"
  have "fulp m \<noteq> 0" using fulp_pos [of m] by linarith
  then have "m / fulp m = of_int k" using m by (metis nonzero_mult_div_cancel_right)
  then show ?thesis using \<open>0 < m\<close> m by (simp add: round_mag_def)
qed


lemma floor_numeral_fraction [go_float]:
  "\<lfloor>numeral a / numeral b :: rat\<rfloor> = numeral a div numeral b"
  "\<lfloor>1 / numeral b :: rat\<rfloor> = 1 div numeral b"
  using floor_divide_of_int_eq [where ?'a = rat, of "numeral a" "numeral b"]
    floor_divide_of_int_eq [where ?'a = rat, of 1 "numeral b"]
  by simp_all

text \<open>The rules that evaluate an operation on numerals.\<close>

lemmas float_eval =
  fconst_def rnd_def fround_def round_mag_def fulp_def round_half_even_def Let_def
  f_of_int_def fsub_def fmax_def fmin_def go_float

abbreviation fexp :: "rat \<Rightarrow> int" where
  "fexp m \<equiv> max (ilog2 m) (- 1022)"

lemma round_mag_le_powi:
  assumes "0 < m" shows "round_mag m \<le> 2 powi (fexp m + 1)"
proof -
  have "m < 2 powi (ilog2 m + 1)" by (rule ilog2_bounds [OF assms])
  also have "\<dots> \<le> 2 powi (fexp m + 1)" by (simp add: two_powi_le_iff)
  also have "\<dots> = of_int (2 ^ 53) * fulp m" by (simp add: fulp_def power_int_add power_int_diff)
  finally have "m / fulp m \<le> of_int (2 ^ 53)" by (simp add: divide_le_eq)
  then have "round_half_even (m / fulp m) \<le> 2 ^ 53"
    using round_half_even_mono round_half_even_of_int by metis
  then have "of_int (round_half_even (m / fulp m)) * fulp m \<le> of_int (2 ^ 53) * fulp m"
    by (intro mult_right_mono) (simp_all only: of_int_le_iff less_imp_le [OF fulp_pos])
  also have "\<dots> = 2 powi (fexp m + 1)" by (simp add: fulp_def power_int_add power_int_diff)
  finally show ?thesis using assms by (simp add: round_mag_def)
qed

lemma round_mag_ge_powi:
  assumes "0 < m" and "- 1022 \<le> ilog2 m" shows "2 powi (ilog2 m) \<le> round_mag m"
proof -
  have f: "of_int (2 ^ 52) * fulp m = 2 powi (ilog2 m)"
    using assms(2) by (simp add: fulp_def power_int_diff)
  also have "\<dots> \<le> m" by (rule ilog2_bounds [OF assms(1)])
  finally have "of_int (2 ^ 52) \<le> m / fulp m" by (simp add: le_divide_eq)
  then have "2 ^ 52 \<le> round_half_even (m / fulp m)"
    using round_half_even_mono round_half_even_of_int by metis
  then have "of_int (2 ^ 52) * fulp m \<le> of_int (round_half_even (m / fulp m)) * fulp m"
    by (intro mult_right_mono) (simp_all only: of_int_le_iff less_imp_le [OF fulp_pos])
  with f have "2 powi (ilog2 m) \<le> of_int (round_half_even (m / fulp m)) * fulp m" by (rule subst)
  then show ?thesis using assms(1) by (simp add: round_mag_def)
qed

theorem round_mag_mono:
  assumes "0 \<le> x" and "x \<le> y" shows "round_mag x \<le> round_mag y"
proof (cases "x = 0")
  case True
  with assms show ?thesis by simp
next
  case False
  with assms have x: "0 < x" and y: "0 < y" by simp_all
  show ?thesis
  proof (cases "fexp x = fexp y")
    case True
    then have "fulp x = fulp y" by (simp add: fulp_def)
    moreover from this have "x / fulp x \<le> y / fulp y"
      using assms(2) less_imp_le [OF fulp_pos] by (simp add: divide_right_mono)
    ultimately show ?thesis using x y
      by (auto simp: round_mag_def intro!: mult_right_mono round_half_even_mono
               intro: less_imp_le)
  next
    case False
    with ilog2_mono [OF x assms(2)] have lt: "fexp x + 1 \<le> ilog2 y" "- 1022 \<le> ilog2 y"
      by (auto simp: max_def split: if_splits)
    have "round_mag x \<le> 2 powi (fexp x + 1)" by (rule round_mag_le_powi [OF x])
    also have "\<dots> \<le> 2 powi (ilog2 y)" using lt(1) by (simp only: two_powi_le_iff)
    also have "\<dots> \<le> round_mag y" by (rule round_mag_ge_powi [OF y lt(2)])
    finally show ?thesis .
  qed
qed

lemma round_mag_int:
  assumes "0 \<le> n" and "n \<le> 2 ^ 53" shows "round_mag (of_int n) = of_int n"
proof (cases "n = 0")
  case False
  with assms(1) have pos: "(0::rat) < of_int n" by simp
  note b = ilog2_bounds [OF pos]
  have lo: "0 \<le> ilog2 (of_int n)"
  proof -
    have "(2::rat) powi 0 < 2 powi (ilog2 (of_int n) + 1)"
      using b(2) pos assms(1) False by (intro order_le_less_trans [OF _ b(2)]) simp
    then show ?thesis by (simp only: two_powi_less_iff)
  qed
  have hi: "ilog2 (of_int n) \<le> 53"
  proof -
    have "(2::rat) powi (ilog2 (of_int n)) \<le> of_int n" by (rule b)
    also have "\<dots> \<le> of_int (2 ^ 53)" using assms(2) by (simp only: of_int_le_iff)
    also have "\<dots> = 2 powi 53" by simp
    finally show ?thesis by (simp only: two_powi_le_iff)
  qed
  let ?e = "ilog2 (of_int n)"
  have u: "fulp (of_int n) = 2 powi (?e - 52)" using lo by (simp add: fulp_def)
  show ?thesis
  proof (cases "?e \<le> 52")
    case True
    then have "(2::rat) powi (52 - ?e) * 2 powi (?e - 52) = 1"
      by (simp flip: power_int_add)
    moreover have "(2::rat) powi (52 - ?e) = of_int (2 ^ nat (52 - ?e))"
      using True by (intro two_powi_nat) simp
    ultimately have "of_int n = of_int (n * 2 ^ nat (52 - ?e)) * fulp (of_int n)"
      by (simp add: u mult.assoc)
    then show ?thesis by (rule round_mag_exact [OF pos])
  next
    case False
    with hi have e: "?e = 53" by simp
    with b(1) assms(2) have "n = 2 ^ 53"
      by (metis of_int_le_iff of_int_numeral of_int_power order_antisym power_int_numeral)
    moreover have "fulp (of_int n) = 2" by (simp add: u e)
    ultimately have "of_int n = of_int (2 ^ 52) * fulp (of_int n)" by simp
    then show ?thesis by (rule round_mag_exact [OF pos])
  qed
qed simp

theorem round_mag_idem: "0 \<le> m \<Longrightarrow> round_mag (round_mag m) = round_mag m"
proof (cases "m = 0 \<or> round_mag m = 0")
  case False
  assume "0 \<le> m"
  with False have m: "0 < m" and r: "0 < round_mag m"
    using round_mag_nonneg [of m] by (auto simp: less_le)
  let ?r = "round_mag m" and ?n = "round_half_even (m / fulp m)"
  have rn: "?r = of_int ?n * fulp m" using m by (simp add: round_mag_def)
  show ?thesis
  proof (cases "?r = 2 powi (fexp m + 1)")
    case True
    then have "ilog2 ?r = fexp m + 1"
      by (intro ilog2_eqI) (simp_all add: two_powi_less_iff)
    then have "?r = of_int (2 ^ 52) * fulp ?r"
      using True by (simp add: fulp_def power_int_diff power_int_add)
    then show ?thesis by (rule round_mag_exact [OF r])
  next
    case False
    with round_mag_le_powi [OF m] have lt: "?r < 2 powi (fexp m + 1)" by simp
    have "fexp ?r = fexp m"
    proof (cases "- 1022 \<le> ilog2 m")
      case True
      then have "ilog2 ?r = ilog2 m"
        using round_mag_ge_powi [OF m True] lt by (intro ilog2_eqI) (simp_all add: max_def)
      then show ?thesis by simp
    next
      case False
      have "2 powi (ilog2 ?r) < (2::rat) powi (fexp m + 1)"
        using ilog2_bounds(1) [OF r] lt by (rule order_le_less_trans)
      then have "ilog2 ?r < fexp m + 1" by (simp only: two_powi_less_iff)
      with False show ?thesis by simp
    qed
    then have "?r = of_int ?n * fulp ?r" using rn by (simp add: fulp_def)
    then show ?thesis by (rule round_mag_exact [OF r])
  qed
qed auto


section \<open>Order and bounds\<close>

lemma fle_NaN [simp]: "\<not> fle x NaN" and fle_NaN' [simp]: "\<not> fle NaN x"
  by (cases x; simp)+

lemma fle_trans: "fle x y \<Longrightarrow> fle y z \<Longrightarrow> fle x z"
  by (cases x; cases y; cases z) (auto split: if_splits)

lemma fle_refl: "x \<noteq> NaN \<Longrightarrow> fle x x"
  by (cases x) auto

lemma flt_fle: "flt x y \<longleftrightarrow> fle x y \<and> \<not> fle y x"
  by (cases x; cases y) auto

lemma feq_fle: "feq x y \<longleftrightarrow> fle x y \<and> fle y x"
  by (cases x; cases y) auto

lemma fle_total: "x \<noteq> NaN \<Longrightarrow> y \<noteq> NaN \<Longrightarrow> fle x y \<or> fle y x"
  by (cases x; cases y) auto

lemma not_flt: "x \<noteq> NaN \<Longrightarrow> y \<noteq> NaN \<Longrightarrow> \<not> flt x y \<longleftrightarrow> fle y x"
  using fle_total by (auto simp: flt_fle)

lemma fround_mono: "0 \<le> x \<Longrightarrow> x \<le> y \<Longrightarrow> fle (fround False x) (fround False y)"
  using round_mag_mono [of x y] by (auto simp: fround_def Let_def)

lemma fround_neg_mono: "0 \<le> x \<Longrightarrow> x \<le> y \<Longrightarrow> fle (fround True y) (fround True x)"
  using round_mag_mono [of x y] by (auto simp: fround_def Let_def)

lemma fround_sign: "0 \<le> x \<Longrightarrow> fle (Num s 0) (fround False x)"
  "0 \<le> x \<Longrightarrow> fle (fround True x) (Num s 0)"
  by (auto simp: fround_def Let_def)

theorem rnd_mono: "v \<le> w \<Longrightarrow> fle (rnd v) (rnd w)"
proof (cases "0 \<le> v \<or> w < 0")
  case True
  assume "v \<le> w"
  with True show ?thesis
    using fround_mono [of v w] fround_neg_mono [of "- w" "- v"] by (auto simp: rnd_def)
next
  case False
  assume "v \<le> w"
  with False have "rnd v = fround True (- v)" "rnd w = fround False w" "0 \<le> - v" "0 \<le> w"
    by (auto simp: rnd_def)
  then show ?thesis using fle_trans fround_sign by metis
qed

lemma rnd_not_NaN [simp]: "rnd v \<noteq> NaN" "fround s v \<noteq> NaN"
  by (simp_all add: rnd_def fround_def Let_def)

lemma rnd_int: "\<bar>n\<bar> \<le> 2 ^ 53 \<Longrightarrow> rnd (of_int n) = Num (n < 0) (of_int \<bar>n\<bar>)"
  using round_mag_int [of "\<bar>n\<bar>"] by (auto simp: rnd_def fround_def Let_def)

text \<open>
  \<open>fbetween lo hi x\<close>: a finite number between two rationals. Bounds of compound
  expressions follow from bounds of their parts by monotonicity of the exact operation
  and of rounding; the bound of the result is the rounded bound.
\<close>

definition fbetween :: "rat \<Rightarrow> rat \<Rightarrow> float64 \<Rightarrow> bool" where
  "fbetween lo hi x \<longleftrightarrow> is_fin x \<and> lo \<le> fval x \<and> fval x \<le> hi"

lemma fbetween_not_NaN: "fbetween lo hi x \<Longrightarrow> x \<noteq> NaN"
  by (auto simp: fbetween_def)

lemma fbetween_weaken: "fbetween a b x \<Longrightarrow> c \<le> a \<Longrightarrow> b \<le> d \<Longrightarrow> fbetween c d x"
  by (auto simp: fbetween_def)

lemma rnd_between:
  assumes "lo \<le> v" "v \<le> hi" "is_fin (rnd lo)" "is_fin (rnd hi)"
  shows "fbetween (fval (rnd lo)) (fval (rnd hi)) (rnd v)"
  using rnd_mono [OF assms(1)] rnd_mono [OF assms(2)] assms(3,4)
  by (cases "rnd v"; cases "rnd lo"; cases "rnd hi") (auto simp: fbetween_def)

lemma fadd_fval: "is_fin x \<Longrightarrow> is_fin y \<Longrightarrow> fval x + fval y \<noteq> 0 \<Longrightarrow>
    fadd x y = rnd (fval x + fval y)"
  by (cases x; cases y) auto

lemma rnd_0 [simp]: "rnd 0 = Num False 0"
  by (simp add: rnd_def fround_def)

lemma fadd_between:
  assumes x: "fbetween a b x" and y: "fbetween c d y"
    and n: "is_fin (rnd (a + c))" "is_fin (rnd (b + d))"
  shows "fbetween (fval (rnd (a + c))) (fval (rnd (b + d))) (fadd x y)"
proof -
  let ?v = "fval x + fval y"
  have v: "a + c \<le> ?v" "?v \<le> b + d" using x y by (auto simp: fbetween_def)
  have xy: "is_fin x" "is_fin y" using x y by (auto simp: fbetween_def)
  note r = rnd_between [OF v n]
  have "is_fin (fadd x y) \<and> fval (fadd x y) = fval (rnd ?v)"
  proof (cases "?v = 0")
    case True
    with xy show ?thesis by (cases x; cases y) (auto simp: Let_def)
  next
    case False
    with xy r show ?thesis by (auto simp: fadd_fval fbetween_def)
  qed
  with r show ?thesis by (simp add: fbetween_def)
qed

text \<open>Products and quotients of numbers whose exact result is bounded.\<close>

lemma fmul_num:
  "is_fin x \<Longrightarrow> is_fin y \<Longrightarrow> is_fin (rnd (fval x * fval y)) \<Longrightarrow>
     is_fin (fmul x y) \<and> fval (fmul x y) = fval (rnd (fval x * fval y))"
  by (cases x; cases y) (auto simp: Let_def)

lemma fdiv_num:
  "is_fin x \<Longrightarrow> is_fin y \<Longrightarrow> fval y \<noteq> 0 \<Longrightarrow> is_fin (rnd (fval x / fval y)) \<Longrightarrow>
     is_fin (fdiv x y) \<and> fval (fdiv x y) = fval (rnd (fval x / fval y))"
  by (cases x; cases y) (auto simp: Let_def split: if_splits)

lemma fmul_between_exact:
  assumes "is_fin x" "is_fin y" and v: "lo \<le> fval x * fval y" "fval x * fval y \<le> hi"
    and n: "is_fin (rnd lo)" "is_fin (rnd hi)"
  shows "fbetween (fval (rnd lo)) (fval (rnd hi)) (fmul x y)"
  using rnd_between [OF v n] fmul_num [OF assms(1,2)] by (auto simp: fbetween_def)

lemma fdiv_between_exact:
  assumes "is_fin x" "is_fin y" "fval y \<noteq> 0"
    and v: "lo \<le> fval x / fval y" "fval x / fval y \<le> hi"
    and n: "is_fin (rnd lo)" "is_fin (rnd hi)"
  shows "fbetween (fval (rnd lo)) (fval (rnd hi)) (fdiv x y)"
  using rnd_between [OF v n] fdiv_num [OF assms(1-3)] by (auto simp: fbetween_def)

lemma fmul_between:
  assumes x: "fbetween a b x" and y: "fbetween c d y" and nn: "0 \<le> a" "0 \<le> c"
    and n: "is_fin (rnd (a * c))" "is_fin (rnd (b * d))"
  shows "fbetween (fval (rnd (a * c))) (fval (rnd (b * d))) (fmul x y)"
  by (rule fmul_between_exact [OF _ _ _ _ n])
    (use x y nn in \<open>auto simp: fbetween_def intro!: mult_mono\<close>)

lemma fval_fneg [simp]: "fval (fneg x) = - fval x" "is_fin (fneg x) = is_fin x"
  by (cases x; simp)+

lemma fsub_between:
  assumes x: "fbetween a b x" and y: "fbetween c d y"
    and n: "is_fin (rnd (a - d))" "is_fin (rnd (b - c))"
  shows "fbetween (fval (rnd (a - d))) (fval (rnd (b - c))) (fsub x y)"
proof -
  have "fbetween (- d) (- c) (fneg y)" using y by (auto simp: fbetween_def)
  from fadd_between [OF x this] n show ?thesis by (simp add: fsub_def)
qed

lemma fadd_le_iff:
  assumes "is_fin x" "is_fin y"
  shows "fle (fadd x y) a \<longleftrightarrow> fle (rnd (fval x + fval y)) a" "fle a (fadd x y) \<longleftrightarrow> fle a (rnd (fval x + fval y))"
  using assms by (cases x; cases y; cases a; auto simp: Let_def)+

section \<open>Minimum, maximum, clamping\<close>

lemma fmax_between: "fbetween a b x \<Longrightarrow> fbetween c d y \<Longrightarrow> fbetween (max a c) (max b d) (fmax x y)"
  by (cases x; cases y) (auto simp: fbetween_def fmax_def max_def split: if_splits)

lemma fmin_between: "fbetween a b x \<Longrightarrow> fbetween c d y \<Longrightarrow> fbetween (min a c) (min b d) (fmin x y)"
  by (cases x; cases y) (auto simp: fbetween_def fmin_def min_def split: if_splits)

text \<open>\<open>math.Min(hi, math.Max(0, x))\<close> is in the range for every \<open>x\<close> but NaN.\<close>

lemma fclamp_between:
  assumes "x \<noteq> NaN" "0 \<le> hi"
  shows "fbetween 0 hi (fmin (Num False hi) (fmax (Num False 0) x))"
  using assms by (cases x) (auto simp: fbetween_def fmin_def fmax_def)

lemma fmin_le: "x \<noteq> NaN \<Longrightarrow> y \<noteq> NaN \<Longrightarrow> fle (fmin x y) x \<and> fle (fmin x y) y"
  by (cases x; cases y) (auto simp: fmin_def)

lemma fmax_ge: "x \<noteq> NaN \<Longrightarrow> y \<noteq> NaN \<Longrightarrow> fle x (fmax x y) \<and> fle y (fmax x y)"
  by (cases x; cases y) (auto simp: fmax_def)

text \<open>Conversion of counters.\<close>

lemma f_of_int_num:
  "\<bar>n\<bar> \<le> 2 ^ 53 \<Longrightarrow> is_fin (f_of_int n) \<and> fval (f_of_int n) = of_int n"
  using rnd_int [of n] by (simp add: f_of_int_def)

lemma rnd_num_bounded: "\<bar>v\<bar> \<le> 2 ^ 64 \<Longrightarrow> is_fin (rnd v)"
proof -
  assume "\<bar>v\<bar> \<le> 2 ^ 64"
  then have "round_mag \<bar>v\<bar> \<le> round_mag (2 ^ 64)" by (intro round_mag_mono) simp_all
  also have "round_mag (2 ^ 64) = 2 ^ 64" by (simp add: float_eval)
  also have "(2::rat) ^ 64 < 2 ^ 1024" by (rule power_strict_increasing) simp_all
  finally show ?thesis by (auto simp: rnd_def fround_def Let_def)
qed

lemma f_of_int_is_num: "in64 n \<Longrightarrow> is_fin (f_of_int n)"
proof -
  assume "in64 n"
  then have "\<bar>n\<bar> \<le> 2 ^ 64" by (auto simp: in64_def)
  then have "(of_int \<bar>n\<bar> :: rat) \<le> of_int (2 ^ 64)" by (simp only: of_int_le_iff)
  then show ?thesis unfolding f_of_int_def by (intro rnd_num_bounded) simp
qed

lemma f_of_int_mono: "m \<le> n \<Longrightarrow> fle (f_of_int m) (f_of_int n)"
  unfolding f_of_int_def by (rule rnd_mono) simp

end
