(* ===== verification/Validator.thy ===== *)
theory Validator
  imports Ordering Float64
begin

text \<open>
  \<open>telemetry/internal/scorer/validator.go\<close>: the price-time priority validator. The two
  slices of order pointers are lists of records; a pointer is stored in one slice, once,
  so writing \<open>o.filled\<close> through it is an update of the list element that \<open>findOrder\<close>
  returned. The mutex makes every operation atomic.
\<close>

section \<open>State\<close>

datatype vside = bidSide | askSide

record pendingOrder =
  po_id :: string
  po_price :: float64
  po_side :: vside
  po_seq :: int64
  po_filled :: bool

record validator =
  v_bids :: "pendingOrder list"
  v_asks :: "pendingOrder list"
  v_seq :: int64
  v_violations :: int64
  v_total :: int64
  v_correct :: int64

definition NewValidator :: validator where
  "NewValidator =
     \<lparr>v_bids = [], v_asks = [], v_seq = 0, v_violations = 0, v_total = 0, v_correct = 0\<rparr>"

section \<open>Operations\<close>

definition bid_before :: "pendingOrder \<Rightarrow> pendingOrder \<Rightarrow> bool" where
  "bid_before b a \<longleftrightarrow>
     flt (po_price a) (po_price b) \<or> (feq (po_price b) (po_price a) \<and> po_seq b < po_seq a)"

definition ask_before :: "pendingOrder \<Rightarrow> pendingOrder \<Rightarrow> bool" where
  "ask_before b a \<longleftrightarrow>
     flt (po_price b) (po_price a) \<or> (feq (po_price b) (po_price a) \<and> po_seq b < po_seq a)"

definition insertBid :: "pendingOrder list \<Rightarrow> pendingOrder \<Rightarrow> pendingOrder list" where
  "insertBid bids o1 = bubble bid_before (length bids) (bids @ [o1])"

definition insertAsk :: "pendingOrder list \<Rightarrow> pendingOrder \<Rightarrow> pendingOrder list" where
  "insertAsk asks o1 = bubble ask_before (length asks) (asks @ [o1])"

definition RecordOrder :: "string \<Rightarrow> float64 \<Rightarrow> bool \<Rightarrow> validator \<Rightarrow> validator" where
  "RecordOrder oid price isBuy v =
     (let sq = wrap64 (v_seq v + 1);
          o1 = \<lparr>po_id = oid, po_price = price, po_side = bidSide, po_seq = sq, po_filled = False\<rparr>
      in if isBuy
         then v\<lparr>v_seq := sq, v_bids := insertBid (v_bids v) (o1\<lparr>po_side := bidSide\<rparr>)\<rparr>
         else v\<lparr>v_seq := sq, v_asks := insertAsk (v_asks v) (o1\<lparr>po_side := askSide\<rparr>)\<rparr>)"

fun find_id :: "string \<Rightarrow> pendingOrder list \<Rightarrow> pendingOrder option" where
  "find_id oid [] = None"
| "find_id oid (x # xs) = (if po_id x = oid then Some x else find_id oid xs)"

definition findOrder :: "string \<Rightarrow> validator \<Rightarrow> pendingOrder option" where
  "findOrder oid v =
     (case find_id oid (v_bids v) of Some x \<Rightarrow> Some x | None \<Rightarrow> find_id oid (v_asks v))"

text \<open>\<open>o.filled = true\<close> through the pointer \<open>findOrder\<close> returned.\<close>

fun mark_id :: "string \<Rightarrow> pendingOrder list \<Rightarrow> pendingOrder list" where
  "mark_id oid [] = []"
| "mark_id oid (x # xs) =
     (if po_id x = oid then x\<lparr>po_filled := True\<rparr> # xs else x # mark_id oid xs)"

definition mark_filled :: "string \<Rightarrow> validator \<Rightarrow> validator" where
  "mark_filled oid v =
     (case find_id oid (v_bids v) of
        Some x \<Rightarrow> v\<lparr>v_bids := mark_id oid (v_bids v)\<rparr>
      | None \<Rightarrow> v\<lparr>v_asks := mark_id oid (v_asks v)\<rparr>)"

text \<open>The two loops of \<open>RecordFill\<close>: is an unfilled order with better priority met before
  the filled one?\<close>

fun overtaken :: "(pendingOrder \<Rightarrow> pendingOrder \<Rightarrow> bool) \<Rightarrow> string \<Rightarrow> pendingOrder
    \<Rightarrow> pendingOrder list \<Rightarrow> bool" where
  "overtaken before oid o1 [] = False"
| "overtaken before oid o1 (b # bs) =
     (if po_id b = oid then False
      else if \<not> po_filled b \<and> before b o1 then True
      else overtaken before oid o1 bs)"

definition RecordFill :: "string \<Rightarrow> float64 \<Rightarrow> int64 \<Rightarrow> validator \<Rightarrow> bool \<times> validator" where
  "RecordFill oid fillPrice fillQty v0 =
     (let v = v0\<lparr>v_total := wrap64 (v_total v0 + 1)\<rparr> in
      case findOrder oid v of
        None \<Rightarrow> (False, v\<lparr>v_violations := wrap64 (v_violations v + 1)\<rparr>)
      | Some o1 \<Rightarrow>
          if (if po_side o1 = bidSide then overtaken bid_before oid o1 (v_bids v)
              else overtaken ask_before oid o1 (v_asks v))
          then (False, mark_filled oid (v\<lparr>v_violations := wrap64 (v_violations v + 1)\<rparr>))
          else (True, (mark_filled oid v)\<lparr>v_correct := wrap64 (v_correct v + 1)\<rparr>))"

definition Stats :: "validator \<Rightarrow> int64 \<times> int64 \<times> int64" where
  "Stats v = (v_total v, v_correct v, v_violations v)"

section \<open>The comparisons are strict weak orders on prices that are not NaN\<close>

definition priced :: "pendingOrder \<Rightarrow> bool" where
  "priced x \<longleftrightarrow> po_price x \<noteq> NaN"

lemma flt_trans: "flt x y \<Longrightarrow> flt y z \<Longrightarrow> flt x z"
  by (meson flt_fle fle_trans)

interpretation vbids: weak_order priced bid_before
proof
  fix x y z :: pendingOrder
  assume ok: "priced x" "priced y" "priced z"
  note f = bid_before_def priced_def flt_fle feq_fle
  show "\<not> bid_before x x" by (simp add: f)
  show "bid_before x y \<Longrightarrow> bid_before y z \<Longrightarrow> bid_before x z"
    unfolding f using fle_trans by (metis order_less_trans)
  show "\<not> bid_before x y \<Longrightarrow> \<not> bid_before y z \<Longrightarrow> \<not> bid_before x z"
    using ok unfolding f by (meson fle_total fle_trans linorder_not_less order_trans)
qed

interpretation vasks: weak_order priced ask_before
proof
  fix x y z :: pendingOrder
  assume ok: "priced x" "priced y" "priced z"
  note f = ask_before_def priced_def flt_fle feq_fle
  show "\<not> ask_before x x" by (simp add: f)
  show "ask_before x y \<Longrightarrow> ask_before y z \<Longrightarrow> ask_before x z"
    unfolding f using fle_trans by (metis order_less_trans)
  show "\<not> ask_before x y \<Longrightarrow> \<not> ask_before y z \<Longrightarrow> \<not> ask_before x z"
    using ok unfolding f by (meson fle_total fle_trans linorder_not_less order_trans)
qed


section \<open>Invariant\<close>

text \<open>
  A book is well formed when it is in priority order and every order on it has a price,
  sits on its own side and has a positive sequence number not above the counter. The
  validator is when both books are and no two orders share a sequence number.
\<close>

definition book_ok ::
  "(pendingOrder \<Rightarrow> pendingOrder \<Rightarrow> bool) \<Rightarrow> vside \<Rightarrow> int64 \<Rightarrow> pendingOrder list \<Rightarrow> bool" where
  "book_ok before sd n xs \<longleftrightarrow>
     in_order before xs \<and>
     (\<forall>x \<in> set xs. priced x \<and> po_side x = sd \<and> 0 < po_seq x \<and> po_seq x \<le> n)"

definition wf_validator :: "validator \<Rightarrow> bool" where
  "wf_validator v \<longleftrightarrow>
     book_ok bid_before bidSide (v_seq v) (v_bids v) \<and>
     book_ok ask_before askSide (v_seq v) (v_asks v) \<and>
     distinct (map po_seq (v_bids v @ v_asks v)) \<and> 0 \<le> v_seq v"

lemma wf_NewValidator: "wf_validator NewValidator"
  by (simp add: wf_validator_def NewValidator_def book_ok_def)

text \<open>Marking an order as filled keeps everything the priority depends on.\<close>

abbreviation standing :: "pendingOrder \<Rightarrow> float64 \<times> vside \<times> int64" where
  "standing x \<equiv> (po_price x, po_side x, po_seq x)"

lemma mark_id_standing: "map standing (mark_id oid xs) = map standing xs"
  by (induction xs) auto

lemma mark_id_seqs [simp]: "map po_seq (mark_id oid xs) = map po_seq xs"
  by (induction xs) auto

lemma mark_id_seq_set [simp]: "po_seq ` set (mark_id oid xs) = po_seq ` set xs"
  by (metis mark_id_seqs set_map)

lemma findOrder_counters [simp]:
  "findOrder oid (v\<lparr>v_total := n\<rparr>) = findOrder oid v"
  "findOrder oid (v\<lparr>v_correct := n\<rparr>) = findOrder oid v"
  by (simp_all add: findOrder_def split: option.split)

lemma in_order_bids_standing:
  "in_order bid_before xs =
     sorted_wrt (\<lambda>(p, _, s) (p', _, s'). \<not> (flt p p' \<or> (feq p' p \<and> s' < s))) (map standing xs)"
  by (simp add: sorted_wrt_map bid_before_def)

lemma in_order_asks_standing:
  "in_order ask_before xs =
     sorted_wrt (\<lambda>(p, _, s) (p', _, s'). \<not> (flt p' p \<or> (feq p' p \<and> s' < s))) (map standing xs)"
  by (simp add: sorted_wrt_map ask_before_def)

lemma ball_standing:
  "(\<forall>x \<in> set xs. priced x \<and> po_side x = sd \<and> 0 < po_seq x \<and> po_seq x \<le> n) =
     (\<forall>(p, d, s) \<in> set (map standing xs). p \<noteq> NaN \<and> d = sd \<and> 0 < s \<and> s \<le> n)"
  by (auto simp: priced_def)

lemma book_ok_mark [simp]:
  "book_ok bid_before sd n (mark_id oid xs) = book_ok bid_before sd n xs"
  "book_ok ask_before sd n (mark_id oid xs) = book_ok ask_before sd n xs"
  unfolding book_ok_def in_order_bids_standing in_order_asks_standing ball_standing
    mark_id_standing by simp_all

lemma wf_mark_filled: "wf_validator v \<Longrightarrow> wf_validator (mark_filled oid v)"
  by (simp add: mark_filled_def wf_validator_def split: option.split)

lemma mset_insertBid [simp]: "mset (insertBid xs y) = add_mset y (mset xs)"
  using mset_bubble [of _ xs y "[]"] by (simp add: insertBid_def)

lemma mset_insertAsk [simp]: "mset (insertAsk xs y) = add_mset y (mset xs)"
  using mset_bubble [of _ xs y "[]"] by (simp add: insertAsk_def)

lemma set_insert_book [simp]:
  "set (insertBid xs y) = insert y (set xs)" "set (insertAsk xs y) = insert y (set xs)"
  by (metis mset_insertBid set_mset_add_mset_insert set_mset_mset)
     (metis mset_insertAsk set_mset_add_mset_insert set_mset_mset)

lemma mset_distinct_map: "mset xs = mset ys \<Longrightarrow> distinct (map f xs) = distinct (map f ys)"
  by (metis mset_map mset_eq_imp_distinct_iff)

lemma distinct_map_insert [simp]:
  "distinct (map f (insertBid xs y)) = distinct (map f (y # xs))"
  "distinct (map f (insertAsk xs y)) = distinct (map f (y # xs))"
  by (rule mset_distinct_map; simp)+

lemma book_ok_insertBid:
  "book_ok bid_before bidSide n xs \<Longrightarrow> n \<le> m \<Longrightarrow>
   priced y \<Longrightarrow> po_side y = bidSide \<Longrightarrow> 0 < po_seq y \<Longrightarrow> po_seq y \<le> m \<Longrightarrow>
     book_ok bid_before bidSide m (insertBid xs y)"
  using vbids.bubble_sorted [of xs y] by (fastforce simp: book_ok_def insertBid_def [symmetric])

lemma book_ok_insertAsk:
  "book_ok ask_before askSide n xs \<Longrightarrow> n \<le> m \<Longrightarrow>
   priced y \<Longrightarrow> po_side y = askSide \<Longrightarrow> 0 < po_seq y \<Longrightarrow> po_seq y \<le> m \<Longrightarrow>
     book_ok ask_before askSide m (insertAsk xs y)"
  using vasks.bubble_sorted [of xs y] by (fastforce simp: book_ok_def insertAsk_def [symmetric])

lemma book_ok_mono: "book_ok before sd n xs \<Longrightarrow> n \<le> m \<Longrightarrow> book_ok before sd m xs"
  by (fastforce simp: book_ok_def)

lemma wf_RecordOrder:
  assumes wf: "wf_validator v" and p: "price \<noteq> NaN" and n: "v_seq v < 2 ^ 63 - 1"
  shows "wf_validator (RecordOrder oid price isBuy v)"
proof -
  have sq: "wrap64 (v_seq v + 1) = v_seq v + 1"
    using wf n by (intro wrap64_id) (auto simp: wf_validator_def in64_def)
  have nn: "0 \<le> v_seq v" using wf by (simp add: wf_validator_def)
  have fresh: "v_seq v + 1 \<noteq> po_seq x" if "x \<in> set (v_bids v) \<union> set (v_asks v)" for x
    using wf that by (fastforce simp: wf_validator_def book_ok_def)
  have d: "distinct (map po_seq (v_bids v @ v_asks v))"
    and b: "book_ok bid_before bidSide (v_seq v) (v_bids v)"
    and a: "book_ok ask_before askSide (v_seq v) (v_asks v)"
    using wf by (simp_all add: wf_validator_def)
  show ?thesis
  proof (cases isBuy)
    case True
    with d b a nn fresh p show ?thesis
      by (auto simp: RecordOrder_def Let_def sq wf_validator_def priced_def
          intro: book_ok_insertBid [OF b] book_ok_mono [OF a])
  next
    case False
    with d b a nn fresh p show ?thesis
      by (auto simp: RecordOrder_def Let_def sq wf_validator_def priced_def
          intro: book_ok_insertAsk [OF a] book_ok_mono [OF b])
  qed
qed

lemma wf_counters [simp]:
  "wf_validator (v\<lparr>v_total := n\<rparr>) = wf_validator v"
  "wf_validator (v\<lparr>v_violations := n\<rparr>) = wf_validator v"
  "wf_validator (v\<lparr>v_correct := n\<rparr>) = wf_validator v"
  by (simp_all add: wf_validator_def)

lemma wf_RecordFill: "wf_validator v \<Longrightarrow> wf_validator (snd (RecordFill oid fp fq v))"
  by (auto simp: RecordFill_def Let_def wf_mark_filled split: option.split)

lemma mark_filled_frame [simp]:
  "v_seq (mark_filled oid v) = v_seq v" "v_total (mark_filled oid v) = v_total v"
  "v_correct (mark_filled oid v) = v_correct v"
  "v_violations (mark_filled oid v) = v_violations v"
  by (auto simp: mark_filled_def split: option.split)

lemma v_seq_RecordFill [simp]: "v_seq (snd (RecordFill oid fp fq v)) = v_seq v"
  by (auto simp: RecordFill_def Let_def split: option.split)

section \<open>What a fill is checked against\<close>

definition same_side :: "validator \<Rightarrow> pendingOrder \<Rightarrow> pendingOrder list" where
  "same_side v o1 = (if po_side o1 = bidSide then v_bids v else v_asks v)"

definition outranks :: "pendingOrder \<Rightarrow> pendingOrder \<Rightarrow> bool" where
  "outranks b o1 \<longleftrightarrow> (if po_side o1 = bidSide then bid_before b o1 else ask_before b o1)"

text \<open>Price-time priority as a rule on sets: no resting order of the same side that is
  still unfilled has a better price, or the same price and an earlier arrival.\<close>

definition next_to_fill :: "validator \<Rightarrow> pendingOrder \<Rightarrow> bool" where
  "next_to_fill v o1 \<longleftrightarrow> \<not> (\<exists>b \<in> set (same_side v o1). \<not> po_filled b \<and> outranks b o1)"

lemma overtaken_iff:
  "overtaken before oid o1 xs \<longleftrightarrow>
     (\<exists>b \<in> set (takeWhile (\<lambda>x. po_id x \<noteq> oid) xs). \<not> po_filled b \<and> before b o1)"
  by (induction xs) auto

lemma find_id_Some:
  "find_id oid xs = Some o1 \<Longrightarrow>
     \<exists>zs. xs = takeWhile (\<lambda>x. po_id x \<noteq> oid) xs @ o1 # zs \<and> po_id o1 = oid"
  by (induction xs) (auto split: if_splits)

lemma find_id_None: "find_id oid xs = None \<longleftrightarrow> oid \<notin> po_id ` set xs"
  by (induction xs) auto

text \<open>In an ordered book the loop may stop at the filled order: nothing behind it
  outranks it.\<close>

lemma overtaken_in_order:
  assumes f: "find_id oid xs = Some o1" and "in_order before xs" and "\<not> before o1 o1"
  shows "overtaken before oid o1 xs \<longleftrightarrow> (\<exists>b \<in> set xs. \<not> po_filled b \<and> before b o1)"
proof -
  obtain zs where xs: "xs = takeWhile (\<lambda>x. po_id x \<noteq> oid) xs @ o1 # zs"
    using find_id_Some [OF f] by blast
  have "in_order before (takeWhile (\<lambda>x. po_id x \<noteq> oid) xs @ o1 # zs)"
    using assms(2) xs by simp
  then have "\<forall>b \<in> set zs. \<not> before b o1" by (simp add: sorted_wrt_append)
  moreover have "set xs = set (takeWhile (\<lambda>x. po_id x \<noteq> oid) xs) \<union> insert o1 (set zs)"
    by (subst xs) simp
  ultimately show ?thesis using assms(3) by (auto simp: overtaken_iff)
qed

lemma findOrder_side:
  assumes wf: "wf_validator v" and f: "findOrder oid v = Some o1"
  shows "find_id oid (same_side v o1) = Some o1 \<and> priced o1 \<and> o1 \<in> set (same_side v o1)"
proof -
  have "find_id oid xs = Some x \<Longrightarrow> x \<in> set xs" for xs x
    by (induction xs) (auto split: if_splits)
  with f wf show ?thesis
    by (auto simp: findOrder_def same_side_def wf_validator_def book_ok_def split: option.splits)
qed

lemma RecordFill_accepts:
  assumes "wf_validator v"
  shows "fst (RecordFill oid fp fq v) \<longleftrightarrow> (\<exists>o1. findOrder oid v = Some o1 \<and> next_to_fill v o1)"
proof (cases "findOrder oid v")
  case None
  then show ?thesis by (simp add: RecordFill_def Let_def)
next
  case (Some o1)
  note s = findOrder_side [OF assms Some]
  have i: "in_order bid_before (v_bids v)" "in_order ask_before (v_asks v)"
    using assms by (simp_all add: wf_validator_def book_ok_def)
  have "fst (RecordFill oid fp fq v) \<longleftrightarrow>
      \<not> (if po_side o1 = bidSide then overtaken bid_before oid o1 (v_bids v)
         else overtaken ask_before oid o1 (v_asks v))"
    using Some by (auto simp: RecordFill_def Let_def)
  also have "\<dots> \<longleftrightarrow> next_to_fill v o1"
    using s i overtaken_in_order [of oid _ o1] vbids.irrefl [of o1] vasks.irrefl [of o1]
    by (auto simp: next_to_fill_def same_side_def outranks_def)
  finally show ?thesis using Some by simp
qed


section \<open>Runs\<close>

datatype vevent =
    Submitted string float64 bool
  | Executed string float64 int64

fun vstep :: "vevent \<Rightarrow> validator \<Rightarrow> validator" where
  "vstep (Submitted oid price isBuy) v = RecordOrder oid price isBuy v"
| "vstep (Executed oid fp fq) v = snd (RecordFill oid fp fq v)"

definition vrun :: "vevent list \<Rightarrow> validator" where
  "vrun es = fold vstep es NewValidator"

fun priced_event :: "vevent \<Rightarrow> bool" where
  "priced_event (Submitted oid price isBuy) = (price \<noteq> NaN)"
| "priced_event (Executed oid fp fq) = True"

lemma vrun_snoc: "vrun (es @ [e]) = vstep e (vrun es)"
  by (simp add: vrun_def)

lemma vrun_wf:
  assumes "\<forall>e \<in> set es. priced_event e" and "length es < 2 ^ 62"
  shows "wf_validator (vrun es) \<and> v_seq (vrun es) \<le> int (length es)"
  using assms
proof (induction es rule: rev_induct)
  case Nil
  then show ?case using wf_NewValidator by (simp add: vrun_def) (simp add: NewValidator_def)
next
  case (snoc e es)
  then have wf: "wf_validator (vrun es)" and n: "v_seq (vrun es) \<le> int (length es)" by auto
  have l: "int (length es) < 2 ^ 62" using snoc.prems(2) by simp
  show ?case
  proof (cases e)
    case (Submitted oid price isBuy)
    have "wf_validator (RecordOrder oid price isBuy (vrun es))"
      using snoc.prems(1) Submitted n l by (intro wf_RecordOrder [OF wf]) auto
    moreover have "wrap64 (v_seq (vrun es) + 1) = v_seq (vrun es) + 1"
      using wf n l by (intro wrap64_id) (auto simp: wf_validator_def in64_def)
    then have "v_seq (RecordOrder oid price isBuy (vrun es)) = v_seq (vrun es) + 1"
      by (simp add: RecordOrder_def Let_def)
    ultimately show ?thesis using n by (simp add: vrun_snoc Submitted)
  next
    case (Executed oid fp fq)
    with wf n show ?thesis by (simp add: vrun_snoc wf_RecordFill)
  qed
qed

section \<open>Properties\<close>

text \<open>
  C3. After any sequence of orders and fills (fewer than \<open>2 ^ 62\<close> events, no order priced
  NaN), \<open>RecordFill\<close> returns true exactly when the filled id is known and no unfilled
  order on its side has a better price, or the same price and an earlier arrival: the
  early stop of the loop over the sorted book implements price-time priority.
\<close>

theorem RecordFill_iff_price_time_priority:
  assumes "\<forall>e \<in> set es. priced_event e" and "length es < 2 ^ 62"
  shows "fst (RecordFill oid fp fq (vrun es)) \<longleftrightarrow>
    (\<exists>o1. findOrder oid (vrun es) = Some o1 \<and> next_to_fill (vrun es) o1)"
  using vrun_wf [OF assms] by (simp add: RecordFill_accepts)


theorem RecordFill_iff_price_time_priority_witness:
  "let es = [Submitted ''a'' (Num False 100) True, Submitted ''b'' (Num False 101) True]
   in fst (RecordFill ''b'' (Num False 101) 1 (vrun es)) \<and>
      (\<exists>o1. findOrder ''b'' (vrun es) = Some o1 \<and> next_to_fill (vrun es) o1) \<and>
      \<not> fst (RecordFill ''a'' (Num False 100) 1 (vrun es))"
proof -
  let ?es = "[Submitted ''a'' (Num False 100) True, Submitted ''b'' (Num False 101) True]"
  have b: "fst (RecordFill ''b'' (Num False 101) 1 (vrun ?es))" by code_simp
  moreover have "\<not> fst (RecordFill ''a'' (Num False 100) 1 (vrun ?es))" by code_simp
  moreover have "\<exists>o1. findOrder ''b'' (vrun ?es) = Some o1 \<and> next_to_fill (vrun ?es) o1"
    using b by (subst RecordFill_iff_price_time_priority [symmetric]) simp_all
  ultimately show ?thesis by (simp only: Let_def simp_thms)
qed

lemma vstep_counts:
  "v_total v = wrap64 (v_correct v + v_violations v) \<Longrightarrow>
     v_total (vstep e v) = wrap64 (v_correct (vstep e v) + v_violations (vstep e v))"
  by (cases e) (auto simp: RecordOrder_def RecordFill_def Let_def algebra_simps split: option.split)

text \<open>
  In every reachable state of the validator the number of fills seen is the number
  accepted plus the number of violations (modulo \<open>2 ^ 64\<close>): no fill is counted twice or
  lost, whatever the ids and prices.
\<close>

theorem validator_counts_every_fill:
  "case Stats (vrun es) of (all, good, bad) \<Rightarrow> all = wrap64 (good + bad)"
proof -
  have "v_total (vrun es) = wrap64 (v_correct (vrun es) + v_violations (vrun es))"
  proof (induction es rule: rev_induct)
    case Nil
    show ?case by (simp add: vrun_def NewValidator_def)
  next
    case (snoc e es)
    then show ?case by (simp add: vrun_snoc vstep_counts)
  qed
  then show ?thesis by (simp add: Stats_def)
qed

text \<open>Filling an order again.\<close>

lemma find_id_mark [simp]:
  "find_id oid (mark_id oid xs) = map_option (\<lambda>x. x\<lparr>po_filled := True\<rparr>) (find_id oid xs)"
  by (induction xs) auto

lemma overtaken_mark:
  "(\<And>b. before b o2 = before b o1) \<Longrightarrow>
     overtaken before oid o2 (mark_id oid xs) = overtaken before oid o1 xs"
  by (induction xs) auto

lemma overtaken_same_rank:
  "(\<And>b. before b o2 = before b o1) \<Longrightarrow> overtaken before oid o2 xs = overtaken before oid o1 xs"
  by (induction xs) auto

lemma before_filled [simp]:
  "bid_before b (x\<lparr>po_filled := f\<rparr>) = bid_before b x"
  "ask_before b (x\<lparr>po_filled := f\<rparr>) = ask_before b x"
  by (simp_all add: bid_before_def ask_before_def)

lemma RecordFill_True:
  "fst (RecordFill oid fp fq v) \<longleftrightarrow>
     (\<exists>o1. findOrder oid v = Some o1 \<and>
        \<not> (if po_side o1 = bidSide then overtaken bid_before oid o1 (v_bids v)
           else overtaken ask_before oid o1 (v_asks v)))"
  by (auto simp: RecordFill_def Let_def split: option.split)

lemma RecordFill_again:
  assumes "fst (RecordFill oid fp fq v)"
  shows "fst (RecordFill oid fp' fq' (snd (RecordFill oid fp fq v)))"
proof -
  obtain o1 where f: "findOrder oid v = Some o1"
    and ok: "\<not> (if po_side o1 = bidSide then overtaken bid_before oid o1 (v_bids v)
                 else overtaken ask_before oid o1 (v_asks v))"
    using assms by (auto simp: RecordFill_True)
  have s: "snd (RecordFill oid fp fq v) =
      (mark_filled oid (v\<lparr>v_total := wrap64 (v_total v + 1)\<rparr>))\<lparr>v_correct := wrap64 (v_correct v + 1)\<rparr>"
    using f ok by (auto simp: RecordFill_def Let_def)
  show ?thesis
  proof (cases "find_id oid (v_bids v)")
    case None
    with f have "find_id oid (v_asks v) = Some o1" by (simp add: findOrder_def)
    with None ok show ?thesis
      unfolding s
      by (auto simp: RecordFill_True mark_filled_def findOrder_def
          overtaken_mark [of ask_before "o1\<lparr>po_filled := True\<rparr>" o1]
          overtaken_same_rank [of bid_before "o1\<lparr>po_filled := True\<rparr>" o1] split: if_splits)
  next
    case (Some b)
    with f have "b = o1" by (simp add: findOrder_def)
    with Some ok show ?thesis
      unfolding s
      by (auto simp: RecordFill_True mark_filled_def findOrder_def
          overtaken_mark [of bid_before "o1\<lparr>po_filled := True\<rparr>" o1]
          overtaken_same_rank [of ask_before "o1\<lparr>po_filled := True\<rparr>" o1] split: if_splits)
  qed
qed

text \<open>
  A fill that was accepted is accepted again, at any price and quantity: a filled order
  stays on the book, and neither the loop nor the final step looks at its own \<open>filled\<close>
  flag, at \<open>fillPrice\<close> or at \<open>fillQty\<close>. The validator does not detect duplicate fills.
\<close>

theorem RecordFill_accepts_duplicates:
  "fst (RecordFill oid fp fq v) \<longrightarrow>
     fst (RecordFill oid fp' fq' (snd (RecordFill oid fp fq v))) \<and>
     v_violations (snd (RecordFill oid fp' fq' (snd (RecordFill oid fp fq v)))) = v_violations v"
proof
  assume ok: "fst (RecordFill oid fp fq v)"
  have viol: "fst (RecordFill oid a b w) \<Longrightarrow> v_violations (snd (RecordFill oid a b w)) = v_violations w"
    for a b w
    by (auto simp: RecordFill_def Let_def split: option.splits if_splits)
  show "fst (RecordFill oid fp' fq' (snd (RecordFill oid fp fq v))) \<and>
     v_violations (snd (RecordFill oid fp' fq' (snd (RecordFill oid fp fq v)))) = v_violations v"
    using ok RecordFill_again [OF ok] viol by simp
qed

theorem RecordFill_accepts_duplicates_witness:
  "let v = RecordOrder ''a'' (Num False 100) True NewValidator;
       v' = snd (RecordFill ''a'' (Num False 100) 5 v)
   in v_correct (snd (RecordFill ''a'' (Num False 7) 9 v')) = 2 \<and>
      fst (RecordFill ''a'' (Num False 7) 9 v')"
proof -
  let ?v = "RecordOrder ''a'' (Num False 100) True NewValidator"
  have ok: "fst (RecordFill ''a'' (Num False 100) 5 ?v)" by code_simp
  have "fst (RecordFill ''a'' (Num False 7) 9 (snd (RecordFill ''a'' (Num False 100) 5 ?v)))"
    using RecordFill_accepts_duplicates [of "''a''" "Num False 100" 5 ?v] ok by blast
  moreover have "v_correct (snd (RecordFill ''a'' (Num False 7) 9
      (snd (RecordFill ''a'' (Num False 100) 5 ?v)))) = 2" by code_simp
  ultimately show ?thesis by (simp only: Let_def simp_thms)
qed

end
