(* ===== verification/OrderBook.thy ===== *)
theory OrderBook
  imports Ordering Float64 "HOL-Library.Sublist"
begin

text \<open>
  \<open>dummy-engine/main.go\<close>, the REST side: the order book per symbol, \<open>match\<close>, and the
  handlers of \<open>/v1/order\<close> and \<open>/stats\<close>. An order is allocated by its own request and
  reachable from one slice only, so writes through the pointers \<open>o\<close> and \<open>best\<close> are
  updates of the list heads. The book's mutex makes \<open>match\<close> atomic. The sorting function
  is an argument with the contract \<open>sort_slice\<close>; \<open>time.Now\<close> is the argument
  \<open>now\<close>.
\<close>

section \<open>State\<close>

datatype http_method = GET | POST | OtherMethod string

record OrderRequest =
  req_OrderID :: string
  req_Symbol :: string
  req_Side :: string
  req_Type :: string
  req_Price :: float64
  req_Quantity :: int64

record OrderResponse =
  resp_OrderID :: string
  resp_FillPrice :: float64
  resp_FillQty :: int64
  resp_Status :: string

record order =
  o_id :: string
  o_price :: float64
  o_qty :: int64
  o_side :: string
  o_arrivedAt :: int

record OrderBook =
  ob_bids :: "order list"
  ob_asks :: "order list"

definition Buy :: string where "Buy = ''BUY''"
definition Sell :: string where "Sell = ''SELL''"

definition emptyBook :: OrderBook where
  "emptyBook = \<lparr>ob_bids = [], ob_asks = []\<rparr>"

section \<open>Sorting\<close>

type_synonym sorter = "(order \<Rightarrow> order \<Rightarrow> bool) \<Rightarrow> order list \<Rightarrow> order list"

definition bid_less :: "order \<Rightarrow> order \<Rightarrow> bool" where
  "bid_less x y =
     (if \<not> feq (o_price x) (o_price y) then flt (o_price y) (o_price x)
      else o_arrivedAt x < o_arrivedAt y)"

definition ask_less :: "order \<Rightarrow> order \<Rightarrow> bool" where
  "ask_less x y =
     (if \<not> feq (o_price x) (o_price y) then flt (o_price x) (o_price y)
      else o_arrivedAt x < o_arrivedAt y)"

definition sortBids :: "sorter \<Rightarrow> order list \<Rightarrow> order list" where
  "sortBids srt bids = srt bid_less bids"

definition sortAsks :: "sorter \<Rightarrow> order list \<Rightarrow> order list" where
  "sortAsks srt asks = srt ask_less asks"

definition min64 :: "int64 \<Rightarrow> int64 \<Rightarrow> int64" where
  "min64 a b = (if a < b then a else b)"

section \<open>Matching\<close>

text \<open>
  The loop over the other side of the book. \<open>stop\<close> is the break condition on the best
  price; the state is the remaining side, \<open>o.qty\<close>, \<open>fillPrice\<close> and \<open>fillQty\<close>. Each
  round empties the best order or the incoming one, so the loop ends.
\<close>

function matchLoop ::
  "(float64 \<Rightarrow> bool) \<Rightarrow> order list \<Rightarrow> int64 \<Rightarrow> float64 \<Rightarrow> int64
     \<Rightarrow> order list \<times> int64 \<times> float64 \<times> int64" where
  "matchLoop stop [] q fp fq = ([], q, fp, fq)"
| "matchLoop stop (best # rest) q fp fq =
     (if \<not> 0 < q then (best # rest, q, fp, fq)
      else if stop (o_price best) then (best # rest, q, fp, fq)
      else
        let fill = min64 q (o_qty best);
            q' = wrap64 (q - fill);
            bq = wrap64 (o_qty best - fill);
            fq' = wrap64 (fq + fill)
        in if bq = 0 then matchLoop stop rest q' (o_price best) fq'
           else matchLoop stop (best\<lparr>o_qty := bq\<rparr> # rest) q' (o_price best) fq')"
  by pat_completeness auto
termination
  by (relation "measure (\<lambda>(stop, xs, q, fp, fq). length xs + (if 0 < q then 1 else 0))")
    (auto simp: min64_def split: if_splits)

definition match :: "sorter \<Rightarrow> OrderBook \<Rightarrow> order \<Rightarrow> float64 \<times> int64 \<times> OrderBook" where
  "match srt ob o1 =
     (let p = o_price o1 in
      if o_side o1 = Buy then
        (case matchLoop (\<lambda>bp. flt p bp \<and> flt (Num False 0) p)
                (ob_asks ob) (o_qty o1) (Num False 0) 0 of
           (asks', q, fp, fq) \<Rightarrow>
             let ob' = ob\<lparr>ob_asks := asks'\<rparr> in
             (fp, fq,
              if 0 < q then ob'\<lparr>ob_bids := sortBids srt (ob_bids ob' @ [o1\<lparr>o_qty := q\<rparr>])\<rparr> else ob'))
      else
        (case matchLoop (\<lambda>bp. flt bp p \<and> flt (Num False 0) p)
                (ob_bids ob) (o_qty o1) (Num False 0) 0 of
           (bids', q, fp, fq) \<Rightarrow>
             let ob' = ob\<lparr>ob_bids := bids'\<rparr> in
             (fp, fq,
              if 0 < q then ob'\<lparr>ob_asks := sortAsks srt (ob_asks ob' @ [o1\<lparr>o_qty := q\<rparr>])\<rparr> else ob')))"

section \<open>The books and the REST handlers\<close>

type_synonym books = "string \<Rightarrow> OrderBook option"

definition getBook :: "string \<Rightarrow> books \<Rightarrow> OrderBook \<times> books" where
  "getBook symbol bs =
     (case bs symbol of
        Some ob \<Rightarrow> (ob, bs)
      | None \<Rightarrow> (emptyBook, bs(symbol \<mapsto> emptyBook)))"

datatype http_response =
    HttpError nat string
  | HttpOrder OrderResponse
  | HttpStats "string \<Rightarrow> (nat \<times> nat) option"
  | HttpHealth string

text \<open>\<open>body\<close> is the decoded request, \<open>None\<close> where the JSON decoder fails.\<close>

definition handleOrder ::
  "sorter \<Rightarrow> http_method \<Rightarrow> OrderRequest option \<Rightarrow> int \<Rightarrow> books \<Rightarrow> http_response \<times> books" where
  "handleOrder srt meth body now bs =
     (if meth \<noteq> POST then (HttpError 405 ''method not allowed'', bs)
      else case body of
        None \<Rightarrow> (HttpError 400 ''bad request'', bs)
      | Some req \<Rightarrow>
          let o1 = \<lparr>o_id = req_OrderID req, o_price = req_Price req, o_qty = req_Quantity req,
                    o_side = req_Side req, o_arrivedAt = now\<rparr>;
              (book, bs1) = getBook (req_Symbol req) bs;
              (fillPrice, fillQty, book') = match srt book o1;
              resp = \<lparr>resp_OrderID = req_OrderID req, resp_FillPrice = fillPrice,
                      resp_FillQty = fillQty, resp_Status = ''PENDING''\<rparr>;
              resp' = (if 0 < fillQty then resp\<lparr>resp_Status := ''FILLED''\<rparr> else resp)
          in (HttpOrder resp', bs1(req_Symbol req \<mapsto> book')))"

definition handleHealth :: http_response where
  "handleHealth =
     HttpHealth ''{\"status\":\"ok\",\"engine\":\"dummy-matching-engine\",\"fix\":\"enabled\"}''"

definition handleStats :: "books \<Rightarrow> http_response" where
  "handleStats bs =
     HttpStats (\<lambda>k. map_option (\<lambda>ob. (length (ob_bids ob), length (ob_asks ob))) (bs k))"

section \<open>The comparisons\<close>

definition has_price :: "order \<Rightarrow> bool" where
  "has_price x \<longleftrightarrow> o_price x \<noteq> NaN"

interpretation obbids: weak_order has_price bid_less
proof
  fix x y z :: order
  assume ok: "has_price x" "has_price y" "has_price z"
  note f = bid_less_def has_price_def flt_fle feq_fle
  show "\<not> bid_less x x" using ok by (simp add: f fle_refl)
  show "bid_less x y \<Longrightarrow> bid_less y z \<Longrightarrow> bid_less x z"
    using ok unfolding f by (meson fle_trans fle_total order_less_trans)
  show "\<not> bid_less x y \<Longrightarrow> \<not> bid_less y z \<Longrightarrow> \<not> bid_less x z"
    using ok unfolding f by (meson fle_total fle_trans linorder_not_less order_trans)
qed

interpretation obasks: weak_order has_price ask_less
proof
  fix x y z :: order
  assume ok: "has_price x" "has_price y" "has_price z"
  note f = ask_less_def has_price_def flt_fle feq_fle
  show "\<not> ask_less x x" using ok by (simp add: f fle_refl)
  show "ask_less x y \<Longrightarrow> ask_less y z \<Longrightarrow> ask_less x z"
    using ok unfolding f by (meson fle_trans fle_total order_less_trans)
  show "\<not> ask_less x y \<Longrightarrow> \<not> ask_less y z \<Longrightarrow> \<not> ask_less x z"
    using ok unfolding f by (meson fle_total fle_trans linorder_not_less order_trans)
qed

section \<open>The loop\<close>

abbreviation ticket :: "order \<Rightarrow> string \<times> float64 \<times> string \<times> int" where
  "ticket x \<equiv> (o_id x, o_price x, o_side x, o_arrivedAt x)"

definition live :: "order \<Rightarrow> bool" where
  "live x \<longleftrightarrow> 0 < o_qty x \<and> in64 (o_qty x)"

definition volume :: "order list \<Rightarrow> int" where
  "volume xs = sum_list (map o_qty xs)"

lemma volume_simps [simp]:
  "volume [] = 0" "volume (x # xs) = o_qty x + volume xs"
  "volume (xs @ ys) = volume xs + volume ys"
  by (simp_all add: volume_def)

lemma volume_pos: "\<forall>x \<in> set xs. 0 < o_qty x \<Longrightarrow> 0 \<le> volume xs \<and> (0 < volume xs \<longleftrightarrow> xs \<noteq> [])"
  by (induction xs) auto

lemma volume_mset: "mset xs = mset ys \<Longrightarrow> volume xs = volume ys"
  unfolding volume_def by (metis mset_map sum_mset_sum_list)

lemma matchLoop_idle: "\<not> 0 < q \<Longrightarrow> matchLoop stop xs q fp fq = (xs, q, fp, fq)"
  by (cases xs) auto

text \<open>One round, with the arithmetic inside its range.\<close>

lemma matchLoop_round:
  assumes "live best" "in64 q" "0 < q" "0 \<le> fq" "in64 (fq + q)" "\<not> stop (o_price best)"
  shows "matchLoop stop (best # rest) q fp fq =
    (if o_qty best \<le> q
     then matchLoop stop rest (q - o_qty best) (o_price best) (fq + o_qty best)
     else (best\<lparr>o_qty := o_qty best - q\<rparr> # rest, 0, o_price best, fq + q))"
proof -
  have r: "in64 (q - o_qty best)" if "o_qty best \<le> q"
    using assms that by (auto simp: live_def in64_def)
  have "in64 (o_qty best - q)" if "\<not> o_qty best \<le> q"
    using assms that by (auto simp: live_def in64_def)
  moreover have "in64 (fq + o_qty best)" if "o_qty best \<le> q"
    using assms that by (auto simp: live_def in64_def)
  ultimately show ?thesis
    using assms r by (auto simp: min64_def Let_def go_arith matchLoop_idle)
qed

text \<open>
  The result of the loop: quantities are conserved, what is left of the side is a suffix
  of it with the same tickets, and a remaining quantity means the loop met its stop
  condition or ran out of orders.
\<close>

definition loop_post ::
  "(float64 \<Rightarrow> bool) \<Rightarrow> order list \<Rightarrow> int64 \<Rightarrow> float64 \<Rightarrow> int64
     \<Rightarrow> order list \<times> int64 \<times> float64 \<times> int64 \<Rightarrow> bool" where
  "loop_post stop xs q fp fq r \<longleftrightarrow>
     (case r of (xs', q', fp', fq') \<Rightarrow>
        0 \<le> q' \<and> fq \<le> fq' \<and> fq' + q' = fq + q \<and> volume xs' + fq' = volume xs + fq \<and>
        (\<forall>x \<in> set xs'. live x) \<and> suffix (map ticket xs') (map ticket xs) \<and>
        (0 < q' \<longrightarrow> xs' = [] \<or> stop (o_price (hd xs'))) \<and>
        (fq' \<noteq> fq \<longrightarrow> \<not> stop fp' \<and> fp' \<in> o_price ` set xs) \<and> (fq' = fq \<longrightarrow> fp' = fp))"

lemma matchLoop_post:
  assumes "\<forall>x \<in> set xs. live x" "in64 q" "0 \<le> q" "0 \<le> fq" "in64 (fq + q)"
  shows "loop_post stop xs q fp fq (matchLoop stop xs q fp fq)"
  using assms
proof (induction xs arbitrary: q fp fq)
  case Nil
  then show ?case by (simp add: loop_post_def)
next
  case (Cons best rest)
  have b: "live best" "0 < o_qty best" using Cons.prems(1) by (auto simp: live_def)
  show ?case
  proof (cases "0 < q \<and> \<not> stop (o_price best)")
    case False
    with Cons.prems show ?thesis by (auto simp: loop_post_def)
  next
    case True
    note r = matchLoop_round [OF b(1) Cons.prems(2) _ Cons.prems(4,5)]
    show ?thesis
    proof (cases "o_qty best \<le> q")
      case le: True
      have "loop_post stop rest (q - o_qty best) (o_price best) (fq + o_qty best)
          (matchLoop stop rest (q - o_qty best) (o_price best) (fq + o_qty best))"
        using Cons.prems le b by (intro Cons.IH) (auto simp: in64_def)
      with True le b r show ?thesis
        by (auto simp: loop_post_def suffix_ConsI)
    next
      case False
      with True Cons.prems r show ?thesis by (auto simp: loop_post_def live_def in64_def)
    qed
  qed
qed


section \<open>Invariant of a book\<close>

text \<open>
  Both sides in price-time order, every resting order with a positive quantity and a
  price, and the book uncrossed: every bid is below every ask.
\<close>

definition side_ok :: "(order \<Rightarrow> order \<Rightarrow> bool) \<Rightarrow> order list \<Rightarrow> bool" where
  "side_ok lt xs \<longleftrightarrow> in_order lt xs \<and> (\<forall>x \<in> set xs. live x \<and> has_price x)"

definition uncrossed :: "OrderBook \<Rightarrow> bool" where
  "uncrossed ob \<longleftrightarrow>
     (\<forall>b \<in> set (ob_bids ob). \<forall>a \<in> set (ob_asks ob). flt (o_price b) (o_price a))"

definition wf_book :: "OrderBook \<Rightarrow> bool" where
  "wf_book ob \<longleftrightarrow> side_ok bid_less (ob_bids ob) \<and> side_ok ask_less (ob_asks ob) \<and> uncrossed ob"

definition book_volume :: "OrderBook \<Rightarrow> int" where
  "book_volume ob = volume (ob_bids ob) + volume (ob_asks ob)"

lemma wf_emptyBook [simp]: "wf_book emptyBook" "book_volume emptyBook = 0"
  by (simp_all add: wf_book_def side_ok_def uncrossed_def emptyBook_def book_volume_def)

text \<open>Priority depends on the ticket only, so it survives partial fills.\<close>

lemma in_order_tickets:
  "in_order bid_less xs =
     sorted_wrt (\<lambda>(_, p, _, t) (_, p', _, t').
       \<not> (if \<not> feq p' p then flt p p' else t' < t)) (map ticket xs)"
  "in_order ask_less xs =
     sorted_wrt (\<lambda>(_, p, _, t) (_, p', _, t').
       \<not> (if \<not> feq p' p then flt p' p else t' < t)) (map ticket xs)"
  by (simp_all add: sorted_wrt_map bid_less_def ask_less_def)

lemma sorted_wrt_suffix: "sorted_wrt R ys \<Longrightarrow> suffix xs ys \<Longrightarrow> sorted_wrt R xs"
  by (auto simp: suffix_def sorted_wrt_append)

lemma suffix_tickets:
  assumes "suffix (map ticket xs') (map ticket xs)"
  shows "in_order bid_less xs \<Longrightarrow> in_order bid_less xs'"
    and "in_order ask_less xs \<Longrightarrow> in_order ask_less xs'"
    and "o_price ` set xs' \<subseteq> o_price ` set xs"
proof -
  show "in_order bid_less xs \<Longrightarrow> in_order bid_less xs'"
    and "in_order ask_less xs \<Longrightarrow> in_order ask_less xs'"
    unfolding in_order_tickets using assms by (blast intro: sorted_wrt_suffix)+
  have "set (map ticket xs') \<subseteq> set (map ticket xs)"
    using assms by (rule set_mono_suffix)
  then have "(\<lambda>t. fst (snd t)) ` ticket ` set xs' \<subseteq> (\<lambda>t. fst (snd t)) ` ticket ` set xs"
    unfolding set_map by (rule image_mono)
  then show "o_price ` set xs' \<subseteq> o_price ` set xs" by (simp add: image_image)
qed

lemma has_price_suffix:
  assumes "suffix (map ticket xs') (map ticket xs)" "\<forall>x \<in> set xs. has_price x"
  shows "\<forall>x \<in> set xs'. has_price x"
  using suffix_tickets(3) [OF assms(1)] assms(2) unfolding has_price_def by (metis image_iff subsetD)

text \<open>The head of a side has the best price.\<close>

lemma best_ask: "side_ok ask_less (a # as) \<Longrightarrow> x \<in> set (a # as) \<Longrightarrow> fle (o_price a) (o_price x)"
  using fle_refl fle_total
  by (fastforce simp: side_ok_def ask_less_def has_price_def flt_fle feq_fle split: if_splits)

lemma best_bid: "side_ok bid_less (a # as) \<Longrightarrow> x \<in> set (a # as) \<Longrightarrow> fle (o_price x) (o_price a)"
  using fle_refl fle_total
  by (fastforce simp: side_ok_def bid_less_def has_price_def flt_fle feq_fle split: if_splits)

lemma flt_fle_trans: "flt x y \<Longrightarrow> fle y z \<Longrightarrow> flt x z" and fle_flt_trans: "fle x y \<Longrightarrow> flt y z \<Longrightarrow> flt x z"
  unfolding flt_fle by (meson fle_trans)+

section \<open>The contract of a matching engine\<close>

text \<open>
  What a client of \<open>match\<close> relies on: the book stays well formed, the filled quantity lies
  between nothing and the order, and volume is conserved: what rests afterwards is what
  rested before plus the order, less what was traded on either side.
\<close>

text \<open>A stream of orders: the fills, and the book after them.\<close>

fun session :: "('b \<Rightarrow> 'o \<Rightarrow> float64 \<times> int64 \<times> 'b) \<Rightarrow> 'b \<Rightarrow> 'o list \<Rightarrow> int64 list \<times> 'b" where
  "session mt b [] = ([], b)"
| "session mt b (x # xs) =
     (case mt b x of (fp, fq, b') \<Rightarrow> case session mt b' xs of (fs, b'') \<Rightarrow> (fq # fs, b''))"

locale matching_engine =
  fixes mt :: "'b \<Rightarrow> 'o \<Rightarrow> float64 \<times> int64 \<times> 'b"
    and inv :: "'b \<Rightarrow> bool" and vol :: "'b \<Rightarrow> int"
    and acceptable :: "'o \<Rightarrow> bool" and qty :: "'o \<Rightarrow> int"
  assumes mt_inv: "inv b \<Longrightarrow> acceptable x \<Longrightarrow> mt b x = (fp, fq, b') \<Longrightarrow> inv b'"
    and mt_fill: "inv b \<Longrightarrow> acceptable x \<Longrightarrow> mt b x = (fp, fq, b') \<Longrightarrow>
      0 \<le> fq \<and> fq \<le> max 0 (qty x)"
    and mt_vol: "inv b \<Longrightarrow> acceptable x \<Longrightarrow> mt b x = (fp, fq, b') \<Longrightarrow>
      vol b' = vol b + max 0 (qty x) - 2 * fq"
begin

lemma session_inv:
  "inv b \<Longrightarrow> \<forall>x \<in> set xs. acceptable x \<Longrightarrow> session mt b xs = (fs, b') \<Longrightarrow> inv b'"
  by (induction xs arbitrary: b fs b') (auto split: prod.splits dest: mt_inv)

lemma session_volume:
  "inv b \<Longrightarrow> \<forall>x \<in> set xs. acceptable x \<Longrightarrow> session mt b xs = (fs, b') \<Longrightarrow>
     vol b' = vol b + (\<Sum>x\<leftarrow>xs. max 0 (qty x)) - 2 * sum_list fs"
proof (induction xs arbitrary: b fs b')
  case Nil
  then show ?case by simp
next
  case (Cons x xs)
  obtain fp fq b1 where m: "mt b x = (fp, fq, b1)" by (metis prod_cases3)
  obtain gs b2 where s: "session mt b1 xs = (gs, b2)" by force
  have "inv b1" using mt_inv [OF _ _ m] Cons.prems by simp
  from Cons.IH [OF this _ s] have "vol b2 = vol b1 + (\<Sum>x\<leftarrow>xs. max 0 (qty x)) - 2 * sum_list gs"
    using Cons.prems by simp
  moreover have "vol b1 = vol b + max 0 (qty x) - 2 * fq"
    using mt_vol [OF _ _ m] Cons.prems by simp
  ultimately show ?case using Cons.prems(3) m s by auto
qed

end

text \<open>An order the JSON decoder can produce: a price that is a number, a quantity in
  range.\<close>

definition decodable :: "order \<Rightarrow> bool" where
  "decodable x \<longleftrightarrow> has_price x \<and> in64 (o_qty x)"

definition match_post :: "OrderBook \<Rightarrow> order \<Rightarrow> float64 \<times> int64 \<times> OrderBook \<Rightarrow> bool" where
  "match_post ob o1 r \<longleftrightarrow>
     (case r of (fp, fq, ob') \<Rightarrow>
        wf_book ob' \<and> 0 \<le> fq \<and> fq \<le> max 0 (o_qty o1) \<and>
        book_volume ob' = book_volume ob + max 0 (o_qty o1) - 2 * fq)"

locale order_sorter = sort_slice srt for srt :: sorter
begin

lemma side_ok_sortBids:
  "\<forall>y \<in> set xs. live y \<and> has_price y \<Longrightarrow> side_ok bid_less (sortBids srt xs)"
  using srt_sorted [OF obbids.strict_weak, of xs] by (simp add: side_ok_def sortBids_def)

lemma side_ok_sortAsks:
  "\<forall>y \<in> set xs. live y \<and> has_price y \<Longrightarrow> side_ok ask_less (sortAsks srt xs)"
  using srt_sorted [OF obasks.strict_weak, of xs] by (simp add: side_ok_def sortAsks_def)

lemma sorted_volume [simp]:
  "volume (sortBids srt xs) = volume xs" "volume (sortAsks srt xs) = volume xs"
  by (simp_all add: sortBids_def sortAsks_def volume_mset [OF srt_mset])

lemma sorted_set [simp]:
  "set (sortBids srt xs) = set xs" "set (sortAsks srt xs) = set xs"
  by (simp_all add: sortBids_def sortAsks_def)

text \<open>What the loop leaves of a side, for either direction of the comparison.\<close>

lemma loop_side:
  assumes "loop_post stop xs q fp fq (xs', q', fp', fq')"
    and "side_ok lt xs" and "lt = bid_less \<or> lt = ask_less"
  shows "side_ok lt xs'" and "o_price ` set xs' \<subseteq> o_price ` set xs"
proof -
  have live: "\<forall>x \<in> set xs'. live x" and suf: "suffix (map ticket xs') (map ticket xs)"
    using assms(1) by (simp_all add: loop_post_def)
  show "side_ok lt xs'"
    using suffix_tickets(1,2) [OF suf] has_price_suffix [OF suf] live assms(2,3)
    unfolding side_ok_def by blast
  show "o_price ` set xs' \<subseteq> o_price ` set xs" by (rule suffix_tickets(3) [OF suf])
qed

lemma rest_live:
  "decodable o1 \<Longrightarrow> 0 < q \<Longrightarrow> q \<le> o_qty o1 \<Longrightarrow> live (o1\<lparr>o_qty := q\<rparr>) \<and> has_price (o1\<lparr>o_qty := q\<rparr>)"
  by (auto simp: decodable_def live_def has_price_def in64_def)

lemma match_buy:
  assumes wf: "wf_book ob" and d: "decodable o1" and side: "o_side o1 = Buy" and pos: "0 < o_qty o1"
  shows "match_post ob o1 (match srt ob o1)"
proof -
  let ?p = "o_price o1"
  let ?stop = "\<lambda>bp. flt ?p bp \<and> flt (Num False 0) ?p"
  obtain asks q fp fq where r: "matchLoop ?stop (ob_asks ob) (o_qty o1) (Num False 0) 0 = (asks, q, fp, fq)"
    using prod_cases4 by blast
  have ok: "side_ok ask_less (ob_asks ob)" "side_ok bid_less (ob_bids ob)" "uncrossed ob"
    using wf by (simp_all add: wf_book_def)
  have post: "loop_post ?stop (ob_asks ob) (o_qty o1) (Num False 0) 0 (asks, q, fp, fq)"
    unfolding r [symmetric]
    using ok(1) d pos by (intro matchLoop_post) (auto simp: side_ok_def decodable_def)
  then have q: "0 \<le> q" "0 \<le> fq" "fq + q = o_qty o1" "volume asks + fq = volume (ob_asks ob)"
    and stop: "0 < q \<longrightarrow> asks = [] \<or> ?stop (o_price (hd asks))"
    by (simp_all add: loop_post_def)
  note s = loop_side [OF post ok(1)]
  have unc: "flt (o_price b) (o_price a)" if "b \<in> set (ob_bids ob)" "a \<in> set asks" for a b
  proof -
    from s(2) that(2) have "o_price a \<in> o_price ` set (ob_asks ob)" by blast
    then obtain a' where "a' \<in> set (ob_asks ob)" "o_price a = o_price a'" by (rule imageE)
    with ok(3) that(1) show ?thesis by (simp add: uncrossed_def)
  qed
  have rest: "flt ?p (o_price a)" if "0 < q" "a \<in> set asks" for a
  proof -
    from that stop obtain h t where "asks = h # t" "flt ?p (o_price h)" by (cases asks) auto
    with best_ask [of h t a] s(1) that show ?thesis by (auto intro: flt_fle_trans)
  qed
  have new: "\<forall>y \<in> set (ob_bids ob @ [o1\<lparr>o_qty := q\<rparr>]). live y \<and> has_price y" if "0 < q"
    using ok(2) rest_live [OF d that] q by (auto simp: side_ok_def)
  show ?thesis
  proof (cases "0 < q")
    case True
    have "match srt ob o1 =
        (fp, fq, \<lparr>ob_bids = sortBids srt (ob_bids ob @ [o1\<lparr>o_qty := q\<rparr>]), ob_asks = asks\<rparr>)"
      using True side by (simp add: match_def r)
    moreover have "side_ok bid_less (sortBids srt (ob_bids ob @ [o1\<lparr>o_qty := q\<rparr>]))"
      by (rule side_ok_sortBids [OF new [OF True]])
    ultimately show ?thesis using s(1) unc rest [OF True] q
      by (simp add: match_post_def wf_book_def uncrossed_def book_volume_def)
  next
    case False
    have "match srt ob o1 = (fp, fq, ob\<lparr>ob_asks := asks\<rparr>)"
      using False side by (simp add: match_def r)
    then show ?thesis using False s(1) ok(2) unc q
      by (simp add: match_post_def wf_book_def uncrossed_def book_volume_def)
  qed
qed

lemma match_sell:
  assumes wf: "wf_book ob" and d: "decodable o1" and side: "o_side o1 \<noteq> Buy" and pos: "0 < o_qty o1"
  shows "match_post ob o1 (match srt ob o1)"
proof -
  let ?p = "o_price o1"
  let ?stop = "\<lambda>bp. flt bp ?p \<and> flt (Num False 0) ?p"
  obtain bids q fp fq where r: "matchLoop ?stop (ob_bids ob) (o_qty o1) (Num False 0) 0 = (bids, q, fp, fq)"
    using prod_cases4 by blast
  have ok: "side_ok bid_less (ob_bids ob)" "side_ok ask_less (ob_asks ob)" "uncrossed ob"
    using wf by (simp_all add: wf_book_def)
  have post: "loop_post ?stop (ob_bids ob) (o_qty o1) (Num False 0) 0 (bids, q, fp, fq)"
    unfolding r [symmetric]
    using ok(1) d pos by (intro matchLoop_post) (auto simp: side_ok_def decodable_def)
  then have q: "0 \<le> q" "0 \<le> fq" "fq + q = o_qty o1" "volume bids + fq = volume (ob_bids ob)"
    and stop: "0 < q \<longrightarrow> bids = [] \<or> ?stop (o_price (hd bids))"
    by (simp_all add: loop_post_def)
  note s = loop_side [OF post ok(1)]
  have unc: "flt (o_price b) (o_price a)" if "b \<in> set bids" "a \<in> set (ob_asks ob)" for a b
  proof -
    from s(2) that(1) have "o_price b \<in> o_price ` set (ob_bids ob)" by blast
    then obtain b' where "b' \<in> set (ob_bids ob)" "o_price b = o_price b'" by (rule imageE)
    with ok(3) that(2) show ?thesis by (simp add: uncrossed_def)
  qed
  have rest: "flt (o_price b) ?p" if "0 < q" "b \<in> set bids" for b
  proof -
    from that stop obtain h t where "bids = h # t" "flt (o_price h) ?p" by (cases bids) auto
    with best_bid [of h t b] s(1) that show ?thesis by (auto intro: fle_flt_trans)
  qed
  have new: "\<forall>y \<in> set (ob_asks ob @ [o1\<lparr>o_qty := q\<rparr>]). live y \<and> has_price y" if "0 < q"
    using ok(2) rest_live [OF d that] q by (auto simp: side_ok_def)
  show ?thesis
  proof (cases "0 < q")
    case True
    have "match srt ob o1 =
        (fp, fq, \<lparr>ob_bids = bids, ob_asks = sortAsks srt (ob_asks ob @ [o1\<lparr>o_qty := q\<rparr>])\<rparr>)"
      using True side by (simp add: match_def r)
    moreover have "side_ok ask_less (sortAsks srt (ob_asks ob @ [o1\<lparr>o_qty := q\<rparr>]))"
      by (rule side_ok_sortAsks [OF new [OF True]])
    ultimately show ?thesis using s(1) unc rest [OF True] q
      by (auto simp: match_post_def wf_book_def uncrossed_def book_volume_def)
  next
    case False
    have "match srt ob o1 = (fp, fq, ob\<lparr>ob_bids := bids\<rparr>)"
      using False side by (simp add: match_def r)
    then show ?thesis using False s(1) ok(2) unc q
      by (simp add: match_post_def wf_book_def uncrossed_def book_volume_def)
  qed
qed

lemma match_idle: "\<not> 0 < o_qty o1 \<Longrightarrow> match srt ob o1 = (Num False 0, 0, ob)"
  by (simp add: match_def matchLoop_idle Let_def)

lemma match_correct: "wf_book ob \<Longrightarrow> decodable o1 \<Longrightarrow> match_post ob o1 (match srt ob o1)"
  using match_buy match_sell match_idle [of o1 ob]
  by (cases "0 < o_qty o1"; cases "o_side o1 = Buy") (auto simp: match_post_def)

end

sublocale order_sorter \<subseteq> matching_engine "match srt" wf_book book_volume decodable o_qty
proof
  fix b x fp fq b'
  assume "wf_book b" "decodable x" and m: "match srt b x = (fp, fq, b')"
  then have "match_post b x (fp, fq, b')" using match_correct [of b x] by simp
  then show "wf_book b'" "0 \<le> fq \<and> fq \<le> max 0 (o_qty x)"
    "book_volume b' = book_volume b + max 0 (o_qty x) - 2 * fq"
    by (auto simp: match_post_def)
qed

interpretation engine: order_sorter insertion_sort
  by unfold_locales

context order_sorter
begin

lemmas traded_volume = session_volume

end


section \<open>How much is filled\<close>

text \<open>The orders a loop may trade with: those before the first that stops it.\<close>

lemma matchLoop_fill:
  assumes "\<forall>x \<in> set xs. live x" "in64 q" "0 \<le> q" "0 \<le> fq" "in64 (fq + q)"
    and "matchLoop stop xs q fp fq = (xs', q', fp', fq')"
  shows "fq' = fq + min q (volume (takeWhile (\<lambda>x. \<not> stop (o_price x)) xs))"
  using assms
proof (induction xs arbitrary: q fp fq)
  case Nil
  then show ?case by simp
next
  case (Cons best rest)
  have nn: "0 \<le> volume (takeWhile P rest)" for P
    using Cons.prems(1) by (induction rest) (auto simp: live_def)
  have b: "live best" "0 < o_qty best" using Cons.prems(1) by (auto simp: live_def)
  show ?case
  proof (cases "0 < q \<and> \<not> stop (o_price best)")
    case False
    then have "matchLoop stop (best # rest) q fp fq = (best # rest, q, fp, fq)" by auto
    with False Cons.prems nn b(2) show ?thesis by (auto simp: min_def)
  next
    case True
    note r = matchLoop_round [OF b(1) Cons.prems(2) _ Cons.prems(4,5)]
    show ?thesis
    proof (cases "o_qty best \<le> q")
      case le: True
      have "fq' = fq + o_qty best + min (q - o_qty best)
          (volume (takeWhile (\<lambda>x. \<not> stop (o_price x)) rest))"
        using Cons.prems le b True r by (intro Cons.IH) (auto simp: in64_def)
      with True show ?thesis by (simp add: min_def)
    next
      case False
      with True Cons.prems r nn [of "\<lambda>x. \<not> stop (o_price x)"] show ?thesis
        by (auto simp: min_def simp del: matchLoop.simps)
    qed
  qed
qed

lemma takeWhile_filter_in_order:
  assumes "in_order lt xs"
    and "\<And>x y. x \<in> set xs \<Longrightarrow> y \<in> set xs \<Longrightarrow> \<not> P x \<Longrightarrow> \<not> lt y x \<Longrightarrow> \<not> P y"
  shows "takeWhile P xs = filter P xs"
  using assms
proof (induction xs)
  case Nil
  then show ?case by simp
next
  case (Cons x xs)
  show ?case
  proof (cases "P x")
    case True
    have "takeWhile P xs = filter P xs"
    proof (rule Cons.IH)
      show "in_order lt xs" using Cons.prems(1) by simp
    next
      fix a b
      assume "a \<in> set xs" "b \<in> set xs" "\<not> P a" "\<not> lt b a"
      then show "\<not> P b" by (intro Cons.prems(2) [of a b]) simp_all
    qed
    with True show ?thesis by simp
  next
    case False
    have "\<not> P y" if "y \<in> set xs" for y
      by (rule Cons.prems(2) [of x]) (use Cons.prems(1) False that in simp_all)
    then have "\<forall>y \<in> set xs. \<not> P y" by blast
    with False show ?thesis by (simp add: filter_empty_conv)
  qed
qed

text \<open>The resting orders a limit of \<open>p\<close> may trade with; \<open>p \<le> 0\<close> is a market order.\<close>

definition tradable_asks :: "OrderBook \<Rightarrow> float64 \<Rightarrow> order list" where
  "tradable_asks ob p = filter (\<lambda>a. fle (o_price a) p \<or> fle p (Num False 0)) (ob_asks ob)"

definition tradable_bids :: "OrderBook \<Rightarrow> float64 \<Rightarrow> order list" where
  "tradable_bids ob p = filter (\<lambda>b. fle p (o_price b) \<or> fle p (Num False 0)) (ob_bids ob)"

lemma ask_le: "has_price x \<Longrightarrow> has_price y \<Longrightarrow> \<not> ask_less y x \<Longrightarrow> fle (o_price x) (o_price y)"
  and bid_le: "has_price x \<Longrightarrow> has_price y \<Longrightarrow> \<not> bid_less y x \<Longrightarrow> fle (o_price y) (o_price x)"
  using fle_total [of "o_price x" "o_price y"]
  unfolding ask_less_def bid_less_def has_price_def flt_fle feq_fle by argo+

lemma not_stop:
  "p \<noteq> NaN \<Longrightarrow> x \<noteq> NaN \<Longrightarrow> (\<not> (flt p x \<and> flt (Num False 0) p)) = (fle x p \<or> fle p (Num False 0))"
  "p \<noteq> NaN \<Longrightarrow> x \<noteq> NaN \<Longrightarrow> (\<not> (flt x p \<and> flt (Num False 0) p)) = (fle p x \<or> fle p (Num False 0))"
  using not_flt [of p x] not_flt [of x p] not_flt [of "Num False 0" p] by auto

lemma filled_buy:
  assumes wf: "wf_book ob" and d: "decodable o1" and side: "o_side o1 = Buy"
  shows "fst (snd (match srt ob o1)) = max 0 (min (o_qty o1) (volume (tradable_asks ob (o_price o1))))"
proof (cases "0 < o_qty o1")
  case False
  with side show ?thesis by (simp add: match_def Let_def matchLoop_idle)
next
  case True
  let ?p = "o_price o1"
  let ?stop = "\<lambda>bp. flt ?p bp \<and> flt (Num False 0) ?p"
  obtain xs q fp fq where r: "matchLoop ?stop (ob_asks ob) (o_qty o1) (Num False 0) 0 = (xs, q, fp, fq)"
    using prod_cases4 by blast
  have ok: "in_order ask_less (ob_asks ob)" "\<forall>x \<in> set (ob_asks ob). live x \<and> has_price x"
    using wf by (simp_all add: wf_book_def side_ok_def)
  have "filter (\<lambda>x. \<not> ?stop (o_price x)) (ob_asks ob) = tradable_asks ob ?p"
    using ok(2) d unfolding tradable_asks_def
    by (intro filter_cong refl not_stop) (auto simp: decodable_def has_price_def)
  moreover have "takeWhile (\<lambda>x. \<not> ?stop (o_price x)) (ob_asks ob) = filter (\<lambda>x. \<not> ?stop (o_price x)) (ob_asks ob)"
    using ok(2) ask_le flt_fle_trans
    by (intro takeWhile_filter_in_order [OF ok(1)]) blast
  ultimately have "fq = 0 + min (o_qty o1) (volume (tradable_asks ob ?p))"
    using matchLoop_fill [OF _ _ _ _ _ r] ok(2) d True by (simp add: decodable_def)
  moreover have "0 \<le> volume (tradable_asks ob ?p)"
    using ok(2) unfolding tradable_asks_def volume_def live_def by (intro sum_list_nonneg) auto
  ultimately show ?thesis using side True by (simp add: match_def r Let_def)
qed

lemma filled_sell:
  assumes wf: "wf_book ob" and d: "decodable o1" and side: "o_side o1 \<noteq> Buy"
  shows "fst (snd (match srt ob o1)) = max 0 (min (o_qty o1) (volume (tradable_bids ob (o_price o1))))"
proof (cases "0 < o_qty o1")
  case False
  with side show ?thesis by (simp add: match_def Let_def matchLoop_idle)
next
  case True
  let ?p = "o_price o1"
  let ?stop = "\<lambda>bp. flt bp ?p \<and> flt (Num False 0) ?p"
  obtain xs q fp fq where r: "matchLoop ?stop (ob_bids ob) (o_qty o1) (Num False 0) 0 = (xs, q, fp, fq)"
    using prod_cases4 by blast
  have ok: "in_order bid_less (ob_bids ob)" "\<forall>x \<in> set (ob_bids ob). live x \<and> has_price x"
    using wf by (simp_all add: wf_book_def side_ok_def)
  have "filter (\<lambda>x. \<not> ?stop (o_price x)) (ob_bids ob) = tradable_bids ob ?p"
    using ok(2) d unfolding tradable_bids_def
    by (intro filter_cong refl not_stop) (auto simp: decodable_def has_price_def)
  moreover have "takeWhile (\<lambda>x. \<not> ?stop (o_price x)) (ob_bids ob) = filter (\<lambda>x. \<not> ?stop (o_price x)) (ob_bids ob)"
    using ok(2) bid_le fle_flt_trans
    by (intro takeWhile_filter_in_order [OF ok(1)]) blast
  ultimately have "fq = 0 + min (o_qty o1) (volume (tradable_bids ob ?p))"
    using matchLoop_fill [OF _ _ _ _ _ r] ok(2) d True by (simp add: decodable_def)
  moreover have "0 \<le> volume (tradable_bids ob ?p)"
    using ok(2) unfolding tradable_bids_def volume_def live_def by (intro sum_list_nonneg) auto
  ultimately show ?thesis using side True by (simp add: match_def r Let_def)
qed


section \<open>Serving requests\<close>

text \<open>The books after a sequence of requests, each with its method, body and arrival time.\<close>

fun serve :: "sorter \<Rightarrow> books \<Rightarrow> (http_method \<times> OrderRequest option \<times> int) list \<Rightarrow> books" where
  "serve srt bs [] = bs"
| "serve srt bs ((meth, body, now) # rs) = serve srt (snd (handleOrder srt meth body now bs)) rs"

fun decodable_request :: "http_method \<times> OrderRequest option \<times> int \<Rightarrow> bool" where
  "decodable_request (meth, None, now) = True"
| "decodable_request (meth, Some req, now) = (req_Price req \<noteq> NaN \<and> in64 (req_Quantity req))"

definition wf_books :: "books \<Rightarrow> bool" where
  "wf_books bs \<longleftrightarrow> (\<forall>ob \<in> ran bs. wf_book ob)"

lemma getBook_wf: "wf_books bs \<Longrightarrow> getBook k bs = (ob, bs') \<Longrightarrow> wf_book ob \<and> wf_books bs'"
  by (fastforce simp: getBook_def wf_books_def ran_def split: option.splits if_splits)

lemma handleOrder_wf:
  assumes "sort_slice srt" "wf_books bs" "decodable_request (meth, body, now)"
  shows "wf_books (snd (handleOrder srt meth body now bs))"
proof (cases "meth = POST \<and> body \<noteq> None")
  case False
  with assms(2) show ?thesis by (auto simp: handleOrder_def split: option.split)
next
  case True
  then obtain req where req: "body = Some req" "meth = POST" by auto
  obtain ob bs1 where g: "getBook (req_Symbol req) bs = (ob, bs1)" by force
  let ?o = "\<lparr>o_id = req_OrderID req, o_price = req_Price req, o_qty = req_Quantity req,
            o_side = req_Side req, o_arrivedAt = now\<rparr>"
  obtain fp fq ob' where m: "match srt ob ?o = (fp, fq, ob')" by (metis prod_cases3)
  have d: "decodable ?o" using assms(3) req by (simp add: decodable_def has_price_def)
  have srt: "order_sorter srt" using assms(1) by (simp add: order_sorter_def)
  have "wf_book ob'"
    using order_sorter.match_correct [OF srt _ d] getBook_wf [OF assms(2) g] m
    by (force simp: match_post_def)
  moreover have "wf_books bs1" using getBook_wf [OF assms(2) g] by simp
  ultimately show ?thesis
    using req g m by (auto simp: handleOrder_def Let_def wf_books_def ran_def)
qed

section \<open>Properties\<close>

text \<open>
  C2. Whatever requests the engine serves, in any order, every symbol's book stays well
  formed: both sides in price-time order, every resting order with a positive quantity,
  and the best bid below the best ask.
\<close>

theorem serve_keeps_books_uncrossed:
  assumes "sort_slice srt" and "\<forall>r \<in> set rs. decodable_request r"
  shows "wf_books (serve srt Map.empty rs)"
proof -
  have "wf_books bs \<Longrightarrow> \<forall>r \<in> set rs. decodable_request r \<Longrightarrow> wf_books (serve srt bs rs)" for bs
  proof (induction rs arbitrary: bs)
    case Nil
    then show ?case by simp
  next
    case (Cons r rs)
    obtain meth body now where r: "r = (meth, body, now)" by (metis prod_cases3)
    have "wf_books (snd (handleOrder srt meth body now bs))"
      using Cons.prems r by (intro handleOrder_wf [OF assms(1)]) simp_all
    with Cons r show ?case by simp
  qed
  moreover have "wf_books Map.empty" by (simp add: wf_books_def)
  ultimately show ?thesis using assms(2) by blast
qed

definition demo_order :: "string \<Rightarrow> string \<Rightarrow> float64 \<Rightarrow> int64 \<Rightarrow> OrderRequest" where
  "demo_order oid side price qty =
     \<lparr>req_OrderID = oid, req_Symbol = ''AAPL'', req_Side = side, req_Type = ''LIMIT'',
      req_Price = price, req_Quantity = qty\<rparr>"

theorem serve_keeps_books_uncrossed_witness:
  "let rs = [(POST, Some (demo_order ''a'' ''SELL'' (Num False 101) 5), 1),
             (POST, Some (demo_order ''b'' ''BUY'' (Num False 102) 8), 2)]
   in wf_books (serve insertion_sort Map.empty rs) \<and>
      map_option book_volume (serve insertion_sort Map.empty rs ''AAPL'') = Some 3"
proof -
  let ?rs = "[(POST, Some (demo_order ''a'' ''SELL'' (Num False 101) 5), 1),
             (POST, Some (demo_order ''b'' ''BUY'' (Num False 102) 8), 2)]"
  have "wf_books (serve insertion_sort Map.empty ?rs)"
    by (rule serve_keeps_books_uncrossed [OF insertion.sort_slice_axioms])
      (simp add: demo_order_def in64_def)
  moreover have "map_option book_volume (serve insertion_sort Map.empty ?rs ''AAPL'') = Some 3"
    by code_simp
  ultimately show ?thesis by (simp only: Let_def simp_thms)
qed

text \<open>
  C13. Volume is conserved over any stream of orders on a book that starts empty: what rests
  at the end is what was sent (orders of non-positive quantity send nothing) less twice what
  was reported as filled, once for each side of the trades.
\<close>

theorem match_conserves_volume:
  assumes "sort_slice srt" and "\<forall>x \<in> set xs. decodable x"
    and "session (match srt) emptyBook xs = (fs, ob)"
  shows "book_volume ob = (\<Sum>x\<leftarrow>xs. max 0 (o_qty x)) - 2 * sum_list fs"
proof -
  have "order_sorter srt" using assms(1) by (simp add: order_sorter_def)
  from order_sorter.traded_volume [OF this _ assms(2,3)] show ?thesis by simp
qed

definition demo_resting :: "string \<Rightarrow> string \<Rightarrow> float64 \<Rightarrow> int64 \<Rightarrow> int \<Rightarrow> order" where
  "demo_resting oid side price qty t =
     \<lparr>o_id = oid, o_price = price, o_qty = qty, o_side = side, o_arrivedAt = t\<rparr>"

theorem match_conserves_volume_witness:
  "book_volume (snd (session (match insertion_sort) emptyBook
      [demo_resting ''a'' ''SELL'' (Num False 101) 5 1, demo_resting ''b'' ''BUY'' (Num False 0) 8 2])) = 3"
proof -
  let ?xs = "[demo_resting ''a'' ''SELL'' (Num False 101) 5 1, demo_resting ''b'' ''BUY'' (Num False 0) 8 2]"
  have f: "fst (session (match insertion_sort) emptyBook ?xs) = [0, 5]" by code_simp
  have "session (match insertion_sort) emptyBook ?xs =
      ([0, 5], snd (session (match insertion_sort) emptyBook ?xs))"
    using f by (metis prod.collapse)
  from match_conserves_volume [OF insertion.sort_slice_axioms _ this] show ?thesis
    by (simp add: demo_resting_def decodable_def has_price_def in64_def)
qed

lemma filled_tradable:
  assumes "wf_book ob" and "decodable o1"
  shows "fst (snd (match srt ob o1)) =
    max 0 (min (o_qty o1)
      (volume (if o_side o1 = Buy then tradable_asks ob (o_price o1) else tradable_bids ob (o_price o1))))"
  using assms filled_buy filled_sell by (cases "o_side o1 = Buy") auto

text \<open>
  C9. How much an order is filled: on a well-formed book a buy of positive quantity fills
  the smaller of its quantity and the volume of all resting asks within its limit (all of
  them when its price is zero or negative, which is how market orders arrive), a sell the
  same over the bids. The loop, which only looks at the head of the sorted side, misses no
  tradable order.
\<close>

theorem match_fills_all_tradable:
  assumes "wf_book ob" and "decodable o1"
  shows "fst (snd (match srt ob o1)) =
    max 0 (min (o_qty o1)
      (volume (if o_side o1 = Buy then tradable_asks ob (o_price o1) else tradable_bids ob (o_price o1))))"
  using assms by (rule filled_tradable)

theorem match_fills_all_tradable_witness:
  "let ob = snd (session (match insertion_sort) emptyBook
        [demo_resting ''a'' ''SELL'' (Num False 101) 5 1, demo_resting ''c'' ''SELL'' (Num False 103) 9 2])
   in fst (snd (match insertion_sort ob (demo_resting ''b'' ''BUY'' (Num False 102) 8 3))) = 5"
proof -
  let ?xs = "[demo_resting ''a'' ''SELL'' (Num False 101) 5 1, demo_resting ''c'' ''SELL'' (Num False 103) 9 2]"
  let ?ob = "\<lparr>ob_bids = [], ob_asks = ?xs\<rparr>"
  have "snd (session (match insertion_sort) emptyBook ?xs) = ?ob" by code_simp
  moreover have "wf_book ?ob"
    by (simp add: wf_book_def side_ok_def uncrossed_def demo_resting_def ask_less_def live_def
        has_price_def in64_def)
  then have "fst (snd (match insertion_sort ?ob (demo_resting ''b'' ''BUY'' (Num False 102) 8 3))) = 5"
    by (subst match_fills_all_tradable)
      (simp_all add: demo_resting_def decodable_def has_price_def in64_def tradable_asks_def Buy_def)
  ultimately show ?thesis by (simp only: Let_def)
qed

text \<open>
  The status of an accepted order: on well-formed books the handler answers FILLED
  exactly when the quantity is positive and some resting order of the other side is within
  the limit, so also when the fill is partial, and PENDING otherwise.
\<close>

theorem handleOrder_says_FILLED_iff:
  assumes "wf_books bs" and "decodable_request (POST, Some req, now)"
    and "handleOrder srt POST (Some req) now bs = (HttpOrder resp, bs')"
  defines "ob \<equiv> (case bs (req_Symbol req) of Some ob \<Rightarrow> ob | None \<Rightarrow> emptyBook)"
  shows "resp_Status resp = (if 0 < req_Quantity req \<and>
      (if req_Side req = Buy then tradable_asks ob (req_Price req)
       else tradable_bids ob (req_Price req)) \<noteq> [] then ''FILLED'' else ''PENDING'')"
proof -
  let ?o = "\<lparr>o_id = req_OrderID req, o_price = req_Price req, o_qty = req_Quantity req,
            o_side = req_Side req, o_arrivedAt = now\<rparr>"
  let ?t = "if req_Side req = Buy then tradable_asks ob (req_Price req)
            else tradable_bids ob (req_Price req)"
  have wf: "wf_book ob"
    using assms(1) by (auto simp: ob_def wf_books_def ran_def split: option.split)
  have "decodable ?o" using assms(2) by (simp add: decodable_def has_price_def)
  from filled_tradable [OF wf this, of srt]
  have fill: "fst (snd (match srt ob ?o)) = max 0 (min (req_Quantity req) (volume ?t))" by simp
  have "\<forall>x \<in> set ?t. 0 < o_qty x"
    using wf by (auto simp: wf_book_def side_ok_def live_def tradable_asks_def tradable_bids_def)
  then have "0 < volume ?t \<longleftrightarrow> ?t \<noteq> []"
    using volume_pos by blast
  moreover have "resp_Status resp = (if 0 < fst (snd (match srt ob ?o)) then ''FILLED'' else ''PENDING'')"
    using assms(3) unfolding ob_def
    by (auto simp: handleOrder_def getBook_def Let_def split: option.splits prod.splits if_splits)
  ultimately show ?thesis using fill by auto
qed

theorem handleOrder_says_FILLED_iff_witness:
  "let bs = Map.empty(''AAPL'' \<mapsto>
        \<lparr>ob_bids = [], ob_asks = [demo_resting ''a'' ''SELL'' (Num False 101) 5 1]\<rparr>);
       r = fst (handleOrder insertion_sort POST (Some (demo_order ''b'' ''BUY'' (Num False 102) 8)) 2 bs)
   in (\<exists>resp. r = HttpOrder resp \<and> resp_FillQty resp = 5 \<and> resp_Status resp = ''FILLED'')"
proof -
  let ?bs = "Map.empty(''AAPL'' \<mapsto>
        \<lparr>ob_bids = [], ob_asks = [demo_resting ''a'' ''SELL'' (Num False 101) 5 1]\<rparr>) :: books"
  let ?req = "demo_order ''b'' ''BUY'' (Num False 102) 8"
  let ?resp = "\<lparr>resp_OrderID = ''b'', resp_FillPrice = Num False 101, resp_FillQty = 5,
                resp_Status = ''FILLED''\<rparr>"
  have "case fst (handleOrder insertion_sort POST (Some ?req) 2 ?bs) of HttpOrder r \<Rightarrow> r = ?resp | _ \<Rightarrow> False"
    by code_simp
  then have h: "fst (handleOrder insertion_sort POST (Some ?req) 2 ?bs) = HttpOrder ?resp"
    by (simp split: http_response.splits)
  have "wf_books ?bs"
    by (simp add: wf_books_def ran_def wf_book_def side_ok_def uncrossed_def demo_resting_def
        live_def has_price_def in64_def)
  moreover have "decodable_request (POST, Some ?req, 2)" by (simp add: demo_order_def in64_def)
  moreover have "handleOrder insertion_sort POST (Some ?req) 2 ?bs =
      (HttpOrder ?resp, snd (handleOrder insertion_sort POST (Some ?req) 2 ?bs))"
    using h by (metis prod.collapse)
  ultimately have "resp_Status ?resp =
      (if 0 < req_Quantity ?req \<and>
        (if req_Side ?req = Buy
         then tradable_asks (case ?bs (req_Symbol ?req) of Some ob \<Rightarrow> ob | None \<Rightarrow> emptyBook) (req_Price ?req)
         else tradable_bids (case ?bs (req_Symbol ?req) of Some ob \<Rightarrow> ob | None \<Rightarrow> emptyBook) (req_Price ?req)) \<noteq> []
       then ''FILLED'' else ''PENDING'')"
    by (rule handleOrder_says_FILLED_iff)
  also have "\<dots> = ''FILLED''" by code_simp
  finally show ?thesis using h by (simp add: Let_def)
qed

end
