(* ===== verification/GoText.thy ===== *)
theory GoText
  imports Float64 "HOL-Library.Sublist"
begin

text \<open>
  What the code uses of Go's \<open>strings\<close>, \<open>fmt\<close> and \<open>bufio\<close>: strings are byte lists
  (\<open>string\<close>), \<open>%d\<close>, \<open>%03d\<close> and \<open>%.4f\<close> formatting, \<open>Sscanf\<close> with \<open>%d\<close>,
  \<open>Split\<close>, \<open>Contains\<close>, \<open>IndexByte\<close> and \<open>ReadString\<close>. Each comes with the lemmas
  that make printing and parsing inverse to each other.
\<close>

section \<open>Formatting integers\<close>

definition digit_char :: "nat \<Rightarrow> char" where
  "digit_char d = char_of (48 + d)"

fun nat_digits :: "nat \<Rightarrow> string" where
  "nat_digits n =
     (if n < 10 then [digit_char n] else nat_digits (n div 10) @ [digit_char (n mod 10)])"

declare nat_digits.simps [simp del]

text \<open>\<open>fmt.Sprintf("%d", i)\<close> and \<open>strconv.FormatInt(i, 10)\<close>\<close>

definition itoa :: "int \<Rightarrow> string" where
  "itoa i = (if i < 0 then CHR ''-'' # nat_digits (nat (- i)) else nat_digits (nat i))"

text \<open>zero padding of a non-negative number, as in \<open>%03d\<close>\<close>

definition pad_digits :: "nat \<Rightarrow> nat \<Rightarrow> string" where
  "pad_digits w n = replicate (w - length (nat_digits n)) (CHR ''0'') @ nat_digits n"

text \<open>\<open>%.4f\<close>: the exact binary value rounded to four decimals, ties to even.\<close>

definition fmt_f4 :: "float64 \<Rightarrow> string" where
  "fmt_f4 x = (case x of
       NaN \<Rightarrow> ''NaN''
     | Infty s \<Rightarrow> (if s then ''-Inf'' else ''+Inf'')
     | Num s m \<Rightarrow>
         let n = nat (round_half_even (\<bar>m\<bar> * 10000))
         in (if s then ''-'' else []) @ nat_digits (n div 10000) @ ''.'' @ pad_digits 4 (n mod 10000))"

text \<open>The lower case of an ASCII letter.\<close>

definition lower_char :: "char \<Rightarrow> char" where
  "lower_char c = (if 65 \<le> (of_char c :: nat) \<and> (of_char c :: nat) \<le> 90 then char_of ((of_char c :: nat) + 32) else c)"

section \<open>Scanning\<close>

definition is_digit :: "char \<Rightarrow> bool" where
  "is_digit c \<longleftrightarrow> 48 \<le> (of_char c :: nat) \<and> (of_char c :: nat) \<le> 57"

definition digit_val :: "char \<Rightarrow> nat" where
  "digit_val c = of_char c - 48"

definition digits_val :: "string \<Rightarrow> nat" where
  "digits_val ds = foldl (\<lambda>a c. 10 * a + digit_val c) 0 ds"

text \<open>Leading blanks; a newline is an error (the ASCII part of \<open>unicode.IsSpace\<close>).\<close>

definition is_blank :: "char \<Rightarrow> bool" where
  "is_blank c \<longleftrightarrow> (of_char c :: nat) \<in> {9, 11, 12, 13, 32}"

fun skip_space :: "string \<Rightarrow> string option" where
  "skip_space [] = Some []"
| "skip_space (c # cs) =
     (if of_char c = (10::nat) then None
      else if is_blank c then skip_space cs else Some (c # cs))"

text \<open>\<open>fmt.Sscanf(s, "%d", &v)\<close>: \<open>Some\<close> the value scanned, \<open>None\<close> on an error (then
  the variable keeps its value). What follows the digits is ignored.\<close>

definition sscanf_d :: "string \<Rightarrow> int64 option" where
  "sscanf_d s =
     (case skip_space s of
        None \<Rightarrow> None
      | Some t \<Rightarrow>
          let neg = (t \<noteq> [] \<and> hd t = CHR ''-'');
              u = (if t \<noteq> [] \<and> (hd t = CHR ''-'' \<or> hd t = CHR ''+'') then tl t else t);
              ds = takeWhile is_digit u;
              v = (if neg then - int (digits_val ds) else int (digits_val ds))
          in if ds = [] then None else if in64 v then Some v else None)"

section \<open>Splitting and searching\<close>

text \<open>\<open>strings.Split(s, sep)\<close> for a one-byte separator: always at least one part.\<close>

fun split_on :: "char \<Rightarrow> string \<Rightarrow> string list" where
  "split_on c [] = [[]]"
| "split_on c (x # xs) =
     (if x = c then [] # split_on c xs
      else (case split_on c xs of [] \<Rightarrow> [[x]] | p # ps \<Rightarrow> (x # p) # ps))"

text \<open>\<open>strings.Contains\<close>\<close>

fun contains :: "string \<Rightarrow> string \<Rightarrow> bool" where
  "contains sub [] = (sub = [])"
| "contains sub (x # xs) = (prefix sub (x # xs) \<or> contains sub xs)"

text \<open>\<open>strings.IndexByte\<close> and the two slices around the index.\<close>

definition cut_byte :: "char \<Rightarrow> string \<Rightarrow> (string \<times> string) option" where
  "cut_byte c s =
     (if c \<in> set s then Some (takeWhile (\<lambda>x. x \<noteq> c) s, tl (dropWhile (\<lambda>x. x \<noteq> c) s)) else None)"

text \<open>\<open>bufio.Reader.ReadString\<close>: up to and including the delimiter, or the error of the
  stream that ends before it.\<close>

definition read_string :: "char \<Rightarrow> string \<Rightarrow> (string \<times> string) option" where
  "read_string c s =
     (case cut_byte c s of None \<Rightarrow> None | Some (a, b) \<Rightarrow> Some (a @ [c], b))"

section \<open>Facts\<close>

lemma digit_chars [simp]:
  "digit_char 0 = CHR ''0''" "digit_char (Suc 0) = CHR ''1''" "digit_char 1 = CHR ''1''"
  "digit_char 2 = CHR ''2''" "digit_char 3 = CHR ''3''" "digit_char 4 = CHR ''4''"
  "digit_char 5 = CHR ''5''" "digit_char 6 = CHR ''6''" "digit_char 7 = CHR ''7''"
  "digit_char 8 = CHR ''8''" "digit_char 9 = CHR ''9''"
  by code_simp+

lemma nat_digits_1: "n < 10 \<Longrightarrow> nat_digits n = [digit_char n]"
  by (subst nat_digits.simps) simp

lemma nat_digits_2: "10 \<le> n \<Longrightarrow> n < 100 \<Longrightarrow> nat_digits n = [digit_char (n div 10), digit_char (n mod 10)]"
  by (subst nat_digits.simps) (simp add: nat_digits_1)

lemma nat_digits_3: "100 \<le> n \<Longrightarrow> n < 1000 \<Longrightarrow> nat_digits n =
    [digit_char (n div 100), digit_char (n div 10 mod 10), digit_char (n mod 10)]"
  by (subst nat_digits.simps) (simp add: nat_digits_2 div_mult2_eq [symmetric])

lemma itoa_1: "0 \<le> n \<Longrightarrow> n < 10 \<Longrightarrow> itoa n = [digit_char (nat n)]"
  by (simp add: itoa_def nat_digits_1)

lemma itoa_2: "10 \<le> n \<Longrightarrow> n < 100 \<Longrightarrow> itoa n = [digit_char (nat n div 10), digit_char (nat n mod 10)]"
  by (simp add: itoa_def nat_digits_2)

lemma itoa_3: "100 \<le> n \<Longrightarrow> n < 1000 \<Longrightarrow> itoa n =
    [digit_char (nat n div 100), digit_char (nat n div 10 mod 10), digit_char (nat n mod 10)]"
  by (simp add: itoa_def nat_digits_3)

lemmas itoa_tag = itoa_1 itoa_2 itoa_3

lemma of_char_digit [simp]: "d < 10 \<Longrightarrow> of_char (digit_char d) = 48 + d"
  by (simp add: digit_char_def)

lemma digit_char_facts [simp]:
  assumes "d < 10"
  shows "is_digit (digit_char d)" "digit_val (digit_char d) = d"
  using assms by (simp_all add: is_digit_def digit_val_def)

lemma nat_digits_ne [simp]: "nat_digits n \<noteq> []"
  by (subst nat_digits.simps) simp

lemma nat_digits_all: "\<forall>c \<in> set (nat_digits n). is_digit c"
proof (induction n rule: nat_digits.induct)
  case (1 n)
  then show ?case by (subst nat_digits.simps) auto
qed

lemma digits_val_snoc: "digits_val (xs @ [c]) = 10 * digits_val xs + digit_val c"
  by (simp add: digits_val_def)

lemma digits_val_nat_digits [simp]: "digits_val (nat_digits n) = n"
proof (induction n rule: nat_digits.induct)
  case (1 n)
  show ?case
  proof (cases "n < 10")
    case True
    then show ?thesis by (subst nat_digits.simps) (simp add: digits_val_def)
  next
    case False
    then have "nat_digits n = nat_digits (n div 10) @ [digit_char (n mod 10)]"
      by (subst nat_digits.simps) simp
    with 1 False show ?thesis by (simp add: digits_val_snoc)
  qed
qed

lemma is_digit_not:
  assumes "is_digit c"
  shows "c \<noteq> CHR ''-''" "c \<noteq> CHR ''+''" "c \<noteq> CHR ''=''" "\<not> is_blank c" "of_char c \<noteq> (10::nat)"
    "c \<noteq> CHR 0x01"
  using assms by (auto simp: is_digit_def is_blank_def)

lemma skip_space_digit: "xs \<noteq> [] \<Longrightarrow> is_digit (hd xs) \<Longrightarrow> skip_space xs = Some xs"
  using is_digit_not(4,5) [of "hd xs"] by (cases xs) auto

lemma hd_nat_digits: "is_digit (hd (nat_digits n))"
  using nat_digits_all [of n] by (meson hd_in_set nat_digits_ne)

lemma takeWhile_digits [simp]: "takeWhile is_digit (nat_digits n) = nat_digits n"
  using nat_digits_all [of n] by (simp add: takeWhile_eq_all_conv)

text \<open>Printing a number and scanning it back.\<close>

lemma sscanf_nat_digits: "in64 (int n) \<Longrightarrow> sscanf_d (nat_digits n) = Some (int n)"
  using hd_nat_digits [of n] is_digit_not(1,2) [of "hd (nat_digits n)"]
  by (simp add: sscanf_d_def skip_space_digit)

lemma sscanf_itoa: "in64 i \<Longrightarrow> sscanf_d (itoa i) = Some i"
proof (cases "i < 0")
  case True
  assume "in64 i"
  have sp: "skip_space (CHR ''-'' # ds) = Some (CHR ''-'' # ds)" for ds
    by (simp add: is_blank_def)
  have sc: "sscanf_d (CHR ''-'' # ds) =
      (if takeWhile is_digit ds = [] then None
       else let v = - int (digits_val (takeWhile is_digit ds)) in if in64 v then Some v else None)" for ds
    by (simp only: sscanf_d_def sp option.case Let_def list.sel list.distinct simp_thms if_True)
  have v: "- int (nat (- i)) = i" using True by simp
  have "sscanf_d (itoa i) = sscanf_d (CHR ''-'' # nat_digits (nat (- i)))"
    using True by (simp only: itoa_def if_True)
  also have "\<dots> = Some i"
    using \<open>in64 i\<close>
    by (simp only: sc takeWhile_digits nat_digits_ne if_False digits_val_nat_digits v Let_def if_True)
  finally show ?thesis .
next
  case False
  assume "in64 i"
  with False show ?thesis using sscanf_nat_digits [of "nat i"] by (simp add: itoa_def)
qed

lemma itoa_chars: "c \<in> set (itoa i) \<Longrightarrow> is_digit c \<or> c = CHR ''-''"
  using nat_digits_all by (auto simp: itoa_def split: if_splits)

lemma itoa_no [simp]: "CHR ''='' \<notin> set (itoa i)" "CHR 0x01 \<notin> set (itoa i)"
proof -
  have "c \<noteq> CHR ''='' \<and> c \<noteq> CHR 0x01" if "c \<in> set (itoa i)" for c
    using itoa_chars [OF that] is_digit_not(3,6) [of c] by auto
  then show "CHR ''='' \<notin> set (itoa i)" "CHR 0x01 \<notin> set (itoa i)" by blast+
qed

lemma pad_digits_no [simp]: "CHR ''='' \<notin> set (pad_digits w n)" "CHR 0x01 \<notin> set (pad_digits w n)"
proof -
  have "c \<noteq> CHR ''='' \<and> c \<noteq> CHR 0x01" if "c \<in> set (pad_digits w n)" for c
    using that nat_digits_all [of n] is_digit_not(3,6) [of c] by (auto simp: pad_digits_def)
  then show "CHR ''='' \<notin> set (pad_digits w n)" "CHR 0x01 \<notin> set (pad_digits w n)" by blast+
qed

lemma length_nat_digits_le: "n < 10 ^ Suc w \<Longrightarrow> length (nat_digits n) \<le> Suc w"
proof (induction w arbitrary: n)
  case 0
  then show ?case by (subst nat_digits.simps) simp
next
  case (Suc w)
  then have "length (nat_digits (n div 10)) \<le> Suc w" by (intro Suc.IH) (simp add: less_mult_imp_div_less)
  then show ?case by (subst nat_digits.simps) simp
qed

lemma length_pad3: "n < 1000 \<Longrightarrow> length (pad_digits 3 n) = 3"
  using length_nat_digits_le [of n 2] by (simp add: pad_digits_def)

lemma split_on_ne [simp]: "split_on c xs \<noteq> []"
  by (induction xs) (auto split: list.split)

lemma split_on_field:
  "c \<notin> set f \<Longrightarrow> split_on c (f @ c # rest) = f # split_on c rest"
  by (induction f) auto

lemma split_on_none: "c \<notin> set f \<Longrightarrow> split_on c f = [f]"
  by (induction f) auto

lemma cut_byte_first: "c \<notin> set a \<Longrightarrow> cut_byte c (a @ c # b) = Some (a, b)"
proof -
  assume c: "c \<notin> set a"
  then have "takeWhile (\<lambda>x. x \<noteq> c) (a @ c # b) = a" "dropWhile (\<lambda>x. x \<noteq> c) (a @ c # b) = c # b"
    by (induction a) auto
  then show ?thesis by (simp add: cut_byte_def)
qed

lemma read_string_first: "c \<notin> set a \<Longrightarrow> read_string c (a @ c # b) = Some (a @ [c], b)"
  by (simp add: read_string_def cut_byte_first)

lemma read_string_shorter: "read_string c s = Some (a, b) \<Longrightarrow> length b < length s"
proof -
  assume "read_string c s = Some (a, b)"
  then have c: "c \<in> set s" and b: "b = tl (dropWhile (\<lambda>x. x \<noteq> c) s)"
    by (auto simp: read_string_def cut_byte_def split: if_splits)
  then have "dropWhile (\<lambda>x. x \<noteq> c) s \<noteq> []" by auto
  moreover have "length (dropWhile (\<lambda>x. x \<noteq> c) s) \<le> length s" by (rule length_dropWhile_le)
  ultimately show ?thesis using b by (cases "dropWhile (\<lambda>x. x \<noteq> c) s") auto
qed

lemma contains_iff: "contains sub s \<longleftrightarrow> (\<exists>a b. s = a @ sub @ b)"
proof (induction s)
  case Nil
  then show ?case by auto
next
  case (Cons x xs)
  have "(\<exists>a b. x # xs = a @ sub @ b) \<longleftrightarrow> prefix sub (x # xs) \<or> (\<exists>a b. xs = a @ sub @ b)"
  proof
    assume "\<exists>a b. x # xs = a @ sub @ b"
    then obtain a b where "x # xs = a @ sub @ b" by blast
    then show "prefix sub (x # xs) \<or> (\<exists>a b. xs = a @ sub @ b)" by (cases a) (auto simp: prefix_def)
  next
    assume "prefix sub (x # xs) \<or> (\<exists>a b. xs = a @ sub @ b)"
    then show "\<exists>a b. x # xs = a @ sub @ b"
    proof
      assume "prefix sub (x # xs)"
      then show ?thesis by (metis append_Nil prefix_def)
    next
      assume "\<exists>a b. xs = a @ sub @ b"
      then show ?thesis by (metis append_Cons)
    qed
  qed
  with Cons.IH show ?case by simp
qed

end
