(* ===== verification/Fix.thy ===== *)
theory Fix
  imports GoText
begin

text \<open>
  The FIX 4.4 wire format on both ends: the client of
  \<open>botfleet/internal/worker/fix_client.go\<close> and the acceptor of
  \<open>dummy-engine/main.go\<close>. A TCP stream is the byte list still to be read; a formatted
  timestamp, an execution id and a drawn random number are arguments.
\<close>

section \<open>Fields, checksums and tags\<close>

definition soh :: char where "soh = CHR 0x01"

definition field :: "int \<Rightarrow> string \<Rightarrow> string" where
  "field tag val = itoa tag @ ''='' @ val @ [soh]"

definition byte_sum :: "string \<Rightarrow> int" where
  "byte_sum msg = foldl (\<lambda>s b. s + of_char b) 0 msg"

definition checksum :: "string \<Rightarrow> int" where
  "checksum msg = go_mod (byte_sum msg) 256"

type_synonym tags = "int \<Rightarrow> string option"

definition add_tag :: "tags \<Rightarrow> string \<Rightarrow> tags" where
  "add_tag out part =
     (case cut_byte (CHR ''='') part of
        None \<Rightarrow> out
      | Some (l, r) \<Rightarrow> (case sscanf_d l of Some tag \<Rightarrow> out(tag \<mapsto> r) | None \<Rightarrow> out))"

definition parseTags :: "string \<Rightarrow> tags" where
  "parseTags msg = foldl add_tag Map.empty (split_on soh msg)"

text \<open>Reading a missing key of a Go map gives the empty string.\<close>

definition tag_val :: "tags \<Rightarrow> int \<Rightarrow> string" where
  "tag_val m k = (case m k of Some v \<Rightarrow> v | None \<Rightarrow> [])"

text \<open>The loop of \<open>readMsg\<close>: chunks up to the delimiter until one contains \<open>10=\<close>.\<close>

function read_chunks :: "string \<Rightarrow> string \<Rightarrow> (string \<times> string) option" where
  "read_chunks sb s =
     (case read_string soh s of
        None \<Rightarrow> None
      | Some (line, s') \<Rightarrow>
          if contains ''10='' line then Some (sb @ line, s') else read_chunks (sb @ line) s')"
  by pat_completeness auto
termination
  by (relation "measure (\<lambda>(sb, s). length s)") (auto dest: read_string_shorter)

declare read_chunks.simps [simp del]

definition readMsg :: "string \<Rightarrow> (string \<times> string) option" where
  "readMsg s = read_chunks [] s"

section \<open>The client\<close>

datatype worker_side = SideBuy | SideSell
datatype order_type = Limit | Market | Cancel

record fix_order =
  fo_ID :: string
  fo_Symbol :: string
  fo_Side :: worker_side
  fo_Type :: order_type
  fo_Price :: float64
  fo_Quantity :: int64

record FIXClient =
  fc_seqNum :: int64
  fc_senderID :: string
  fc_targetID :: string

datatype fix_error = DialError | WriteError | ReadError | CtxDone

text \<open>\<open>sendMsg\<close>: the new client and the bytes handed to the connection.\<close>

definition sendMsg :: "string \<Rightarrow> string \<Rightarrow> string \<Rightarrow> FIXClient \<Rightarrow> FIXClient \<times> string" where
  "sendMsg msgType body now c =
     (let sq = wrap64 (fc_seqNum c + 1);
          header = field 35 msgType @ field 49 (fc_senderID c) @ field 56 (fc_targetID c) @
                   field 34 (itoa sq) @ field 52 now;
          bodyFull = header @ body;
          fullMsg = ''8=FIX.4.4'' @ [soh] @ ''9='' @ itoa (int (length bodyFull)) @ [soh] @ bodyFull
      in (c\<lparr>fc_seqNum := sq\<rparr>,
          fullMsg @ field 10 (pad_digits 3 (nat (checksum fullMsg)))))"

definition sendLogon :: "string \<Rightarrow> FIXClient \<Rightarrow> FIXClient \<times> string" where
  "sendLogon now c = sendMsg ''A'' (field 108 ''30'') now c"

text \<open>\<open>DialFIX\<close>: \<open>dialed\<close> and \<open>written\<close> say whether the connection and the write
  succeed.\<close>

definition DialFIX ::
  "bool \<Rightarrow> bool \<Rightarrow> string \<Rightarrow> string \<Rightarrow> string \<Rightarrow> (fix_error, FIXClient \<times> string) result" where
  "DialFIX dialed written now senderID targetID =
     (if \<not> dialed then Inl DialError
      else case sendLogon now \<lparr>fc_seqNum = 1, fc_senderID = senderID, fc_targetID = targetID\<rparr> of
        (c, wire) \<Rightarrow> if written then Inr (c, wire) else Inl WriteError)"

definition closeFIX :: "string \<Rightarrow> FIXClient \<Rightarrow> FIXClient \<times> string" where
  "closeFIX now c = sendMsg ''5'' [] now c"

definition nos_body :: "fix_order \<Rightarrow> string \<Rightarrow> string" where
  "nos_body o1 now =
     (let sd = (if fo_Side o1 = SideSell then ''2'' else ''1'');
          ordType = (if fo_Type o1 = Market then ''1'' else ''2'');
          body = field 11 (fo_ID o1) @ field 55 (fo_Symbol o1) @ field 54 sd @ field 60 now @
                 field 38 (itoa (fo_Quantity o1)) @ field 40 ordType
      in if fo_Type o1 = Limit then body @ field 44 (fmt_f4 (fo_Price o1)) else body)"

text \<open>The loop of \<open>SendNOS\<close> after the write: the stream left once a matching execution
  report was read. \<open>ctxDone k\<close> is the poll of the context before the \<open>k\<close>-th read.\<close>

function awaitExec :: "(nat \<Rightarrow> bool) \<Rightarrow> nat \<Rightarrow> string \<Rightarrow> string \<Rightarrow> (fix_error, string) result" where
  "awaitExec ctxDone k oid s =
     (if ctxDone k then Inl CtxDone
      else case readMsg s of
        None \<Rightarrow> Inl ReadError
      | Some (raw, s') \<Rightarrow>
          if tag_val (parseTags raw) 35 = ''8'' \<and> tag_val (parseTags raw) 11 = oid then Inr s'
          else awaitExec ctxDone (Suc k) oid s')"
  by pat_completeness auto

lemma read_chunks_shorter: "read_chunks sb s = Some (raw, s') \<Longrightarrow> length s' < length s"
proof (induction sb s rule: read_chunks.induct)
  case (1 sb s)
  obtain line t where l: "read_string soh s = Some (line, t)"
    using "1.prems" by (subst (asm) read_chunks.simps) (auto split: option.splits)
  show ?case
  proof (cases "contains ''10='' line")
    case True
    with "1.prems" l have "t = s'" by (subst (asm) read_chunks.simps) simp
    with l show ?thesis by (simp add: read_string_shorter)
  next
    case False
    with "1.prems" l have "read_chunks (sb @ line) t = Some (raw, s')"
      by (subst (asm) read_chunks.simps) simp
    from "1.IH" [OF l refl False this] read_string_shorter [OF l] show ?thesis by linarith
  qed
qed

termination awaitExec
  by (relation "measure (\<lambda>(ctxDone, k, oid, s). length s)")
    (auto simp: readMsg_def dest: read_chunks_shorter)

declare awaitExec.simps [simp del]

definition SendNOS ::
  "(nat \<Rightarrow> bool) \<Rightarrow> bool \<Rightarrow> string \<Rightarrow> string \<Rightarrow> fix_order \<Rightarrow> string \<Rightarrow> FIXClient
     \<Rightarrow> FIXClient \<times> string \<times> (fix_error, string) result" where
  "SendNOS ctxDone written now now' o1 s c =
     (case sendMsg ''D'' (nos_body o1 now) now' c of
        (c', wire) \<Rightarrow>
          (c', wire, if \<not> written then Inl WriteError else awaitExec ctxDone 0 (fo_ID o1) s))"

section \<open>The acceptor\<close>

text \<open>
  The engine has its own copies of the helpers. They are the same code, except that the
  checksum is computed inline.
\<close>

definition fixField :: "int \<Rightarrow> string \<Rightarrow> string" where
  "fixField tag val = itoa tag @ ''='' @ val @ [soh]"

definition parseFIXTags :: "string \<Rightarrow> tags" where
  "parseFIXTags msg = foldl add_tag Map.empty (split_on soh msg)"

definition readFIXMsg :: "string \<Rightarrow> (string \<times> string) option" where
  "readFIXMsg s = read_chunks [] s"

definition sendFIXMsg ::
  "string \<Rightarrow> string \<Rightarrow> string \<Rightarrow> string \<Rightarrow> string \<Rightarrow> int64 \<Rightarrow> int64 \<times> string" where
  "sendFIXMsg msgType senderID targetID body now seqNum =
     (let sq = wrap64 (seqNum + 1);
          header = fixField 35 msgType @ fixField 49 senderID @ fixField 56 targetID @
                   fixField 34 (itoa sq) @ fixField 52 now;
          fullBody = header @ body;
          msg = ''8=FIX.4.4'' @ [soh] @ ''9='' @ itoa (int (length fullBody)) @ [soh] @ fullBody;
          cs = byte_sum msg
      in (sq, msg @ fixField 10 (pad_digits 3 (nat (go_mod cs 256)))))"

text \<open>What the handler draws from its environment while it answers one message.\<close>

record fix_env =
  env_roll :: float64        \<comment> \<open>\<open>rand.Float64()\<close>\<close>
  env_transact :: string     \<comment> \<open>formatted time of the body\<close>
  env_execID :: string       \<comment> \<open>\<open>strconv.FormatInt(now, 36)\<close>\<close>
  env_sending :: string      \<comment> \<open>formatted time of the header\<close>

definition nos_report :: "fix_env \<Rightarrow> tags \<Rightarrow> string" where
  "nos_report e tg =
     (let clOrdID = tag_val tg 11; symbol = tag_val tg 55; sd = tag_val tg 54;
          ordType = tag_val tg 40; qty = tag_val tg 38;
          price = (if tag_val tg 44 = [] then ''100.0000'' else tag_val tg 44);
          rests = (ordType = ''2'' \<and> flt (env_roll e) (fconst (30/100)));
          execType = (if rests then ''0'' else ''F'');
          ordStatus = (if rests then ''0'' else ''2'');
          fillQty = (if rests then ''0'' else qty);
          avgPx = (if rests then ''0'' else price);
          leavesQty = (if ordStatus = ''0'' then qty else ''0'');
          orderID = ''O'' @ env_execID e
      in fixField 11 clOrdID @ fixField 37 orderID @ fixField 17 (env_execID e) @
         fixField 150 execType @ fixField 39 ordStatus @ fixField 55 symbol @ fixField 54 sd @
         fixField 38 qty @ fixField 14 fillQty @ fixField 151 leavesQty @ fixField 6 avgPx @
         fixField 60 (env_transact e))"

definition handleFIXNOS :: "fix_env \<Rightarrow> tags \<Rightarrow> string \<Rightarrow> string \<Rightarrow> int64 \<Rightarrow> int64 \<times> string" where
  "handleFIXNOS e tg senderID targetID seqNum =
     sendFIXMsg ''8'' senderID targetID (nos_report e tg) (env_sending e) seqNum"

text \<open>One round of the connection loop: the sequence number, the reply if any, and
  whether the connection is closed.\<close>

definition fix_dispatch :: "fix_env \<Rightarrow> tags \<Rightarrow> int64 \<Rightarrow> int64 \<times> string option \<times> bool" where
  "fix_dispatch e tg sq =
     (let msgType = tag_val tg 35; mySender = tag_val tg 56; myTarget = tag_val tg 49 in
      if msgType = ''A'' then
        (case sendFIXMsg ''A'' mySender myTarget (fixField 108 ''30'') (env_sending e) sq of
           (sq', m) \<Rightarrow> (sq', Some m, False))
      else if msgType = ''0'' then
        (let body = (if tag_val tg 112 \<noteq> [] then fixField 112 (tag_val tg 112) else []) in
         case sendFIXMsg ''0'' mySender myTarget body (env_sending e) sq of
           (sq', m) \<Rightarrow> (sq', Some m, False))
      else if msgType = ''5'' then
        (case sendFIXMsg ''5'' mySender myTarget [] (env_sending e) sq of
           (sq', m) \<Rightarrow> (sq', Some m, True))
      else if msgType = ''D'' then
        (case handleFIXNOS e tg mySender myTarget sq of (sq', m) \<Rightarrow> (sq', Some m, False))
      else (sq, None, False))"

text \<open>The loop: the replies to everything the peer sends, until the stream ends or a
  logout closes it. The counter starts at 1.\<close>

function conn_loop :: "(nat \<Rightarrow> fix_env) \<Rightarrow> nat \<Rightarrow> int64 \<Rightarrow> string \<Rightarrow> string list" where
  "conn_loop env k sq s =
     (case readFIXMsg s of
        None \<Rightarrow> []
      | Some (raw, s') \<Rightarrow>
          (case fix_dispatch (env k) (parseFIXTags raw) sq of
             (sq', reply, shut) \<Rightarrow>
               (case reply of None \<Rightarrow> [] | Some m \<Rightarrow> [m]) @
               (if shut then [] else conn_loop env (Suc k) sq' s')))"
  by pat_completeness auto
termination
  by (relation "measure (\<lambda>(env, k, sq, s). length s)")
    (auto simp: readFIXMsg_def dest: read_chunks_shorter)

declare conn_loop.simps [simp del]

definition handleFIXConn :: "(nat \<Rightarrow> fix_env) \<Rightarrow> string \<Rightarrow> string list" where
  "handleFIXConn env s = conn_loop env 0 1 s"

section \<open>The two copies agree\<close>

lemma fixField_field [simp]: "fixField = field"
  by (simp add: fun_eq_iff fixField_def field_def)

lemma parseFIXTags_parseTags [simp]: "parseFIXTags = parseTags"
  by (simp add: fun_eq_iff parseFIXTags_def parseTags_def)

lemma readFIXMsg_readMsg [simp]: "readFIXMsg = readMsg"
  by (simp add: fun_eq_iff readFIXMsg_def readMsg_def)

lemma sendFIXMsg_sendMsg:
  "sendFIXMsg msgType senderID targetID body now sq =
     (case sendMsg msgType body now \<lparr>fc_seqNum = sq, fc_senderID = senderID, fc_targetID = targetID\<rparr> of
        (c, m) \<Rightarrow> (fc_seqNum c, m))"
  by (simp add: sendFIXMsg_def sendMsg_def checksum_def Let_def)

section \<open>Parsing what was printed\<close>

definition wire_fields :: "(int \<times> string) list \<Rightarrow> string" where
  "wire_fields fs = concat (map (\<lambda>(t, v). field t v) fs)"

lemma wire_fields_simps [simp]:
  "wire_fields [] = []" "wire_fields ((t, v) # fs) = field t v @ wire_fields fs"
  "wire_fields (fs @ gs) = wire_fields fs @ wire_fields gs"
  by (simp_all add: wire_fields_def)

definition field_ok :: "int \<times> string \<Rightarrow> bool" where
  "field_ok = (\<lambda>(t, v). in64 t \<and> soh \<notin> set v)"

lemma add_tag_field: "in64 t \<Longrightarrow> add_tag m (itoa t @ ''='' @ v) = m(t \<mapsto> v)"
  using cut_byte_first [of "CHR ''=''" "itoa t" v] by (simp add: add_tag_def sscanf_itoa)

lemma split_on_one_field:
  "soh \<notin> set v \<Longrightarrow> split_on soh (field t v @ rest) = (itoa t @ ''='' @ v) # split_on soh rest"
  using split_on_field [of soh "itoa t @ ''='' @ v" rest] itoa_no(2) [of t]
  by (simp add: field_def soh_def)

lemma parse_foldl:
  "\<forall>f \<in> set fs. field_ok f \<Longrightarrow>
     foldl add_tag m (split_on soh (wire_fields fs)) = foldl (\<lambda>m (t, v). m(t \<mapsto> v)) m fs"
proof (induction fs arbitrary: m)
  case Nil
  then show ?case by (simp add: add_tag_def cut_byte_def)
next
  case (Cons f fs)
  then show ?case
    by (cases f) (simp add: field_ok_def split_on_one_field add_tag_field [simplified] fun_upd_def)
qed

text \<open>The value of the last field with the tag.\<close>

lemma foldl_upd_last:
  "foldl (\<lambda>m (t, v). m(t \<mapsto> v)) m fs = m ++ map_of (rev fs)"
  by (induction fs arbitrary: m) (auto simp: map_add_def fun_eq_iff split: option.split)

lemma parseTags_fields:
  "\<forall>f \<in> set fs. field_ok f \<Longrightarrow> parseTags (wire_fields fs) = map_of (rev fs)"
  by (simp add: parseTags_def parse_foldl foldl_upd_last)


section \<open>Framing\<close>

text \<open>A value that neither holds the delimiter nor looks like a checksum field.\<close>

definition clean :: "string \<Rightarrow> bool" where
  "clean v \<longleftrightarrow> soh \<notin> set v \<and> \<not> contains ''10='' v"

definition frame_ok :: "int \<times> string \<Rightarrow> bool" where
  "frame_ok = (\<lambda>(t, v). in64 t \<and> soh \<notin> set v \<and> \<not> contains ''10='' (field t v))"

lemma frame_field_ok: "frame_ok f \<Longrightarrow> field_ok f"
  by (auto simp: frame_ok_def field_ok_def)

lemma contains_snoc_soh: "contains ''10='' (v @ [soh]) = contains ''10='' v"
proof (induction v)
  case Nil
  then show ?case by (simp add: soh_def)
next
  case (Cons x xs)
  have "prefix ''10='' ((x # xs) @ [soh]) = prefix ''10='' (x # xs)"
    by (subst prefix_snoc) (auto simp: soh_def)
  with Cons show ?case by simp
qed

lemma clean_no_eq: "CHR ''='' \<notin> set v \<Longrightarrow> soh \<notin> set v \<Longrightarrow> clean v"
  by (auto simp: clean_def contains_iff)

lemma clean_itoa [simp]: "clean (itoa i)"
  by (rule clean_no_eq) (simp_all add: soh_def)

lemma contains_eq_cons: "contains ''10='' (CHR ''='' # v) = contains ''10='' v"
  by simp

lemma frame_tag:
  assumes "clean v"
  shows "t \<in> {6, 8, 9, 11, 14, 17, 34, 35, 37, 38, 39, 40, 44, 49, 52, 54, 55, 56, 60, 108, 112, 150, 151}
      \<Longrightarrow> frame_ok (t, v)"
  using assms
  by (auto simp: frame_ok_def clean_def field_def itoa_tag contains_snoc_soh in64_def)

lemma read_string_field:
  "soh \<notin> set v \<Longrightarrow> read_string soh (field t v @ rest) = Some (field t v, rest)"
  using read_string_first [of soh "itoa t @ ''='' @ v" rest] itoa_no(2) [of t]
  by (simp add: field_def soh_def)

lemma contains_checksum: "contains ''10='' (field 10 v)"
  by (simp add: field_def itoa_tag)

lemma read_chunks_fields:
  "\<forall>f \<in> set fs. frame_ok f \<Longrightarrow> soh \<notin> set v \<Longrightarrow> contains ''10='' (field t v) \<Longrightarrow>
     read_chunks sb (wire_fields fs @ field t v @ rest) = Some (sb @ wire_fields fs @ field t v, rest)"
proof (induction fs arbitrary: sb)
  case Nil
  then show ?case by (subst read_chunks.simps) (simp add: read_string_field)
next
  case (Cons f fs)
  obtain k w where f: "f = (k, w)" by force
  with Cons.prems have w: "soh \<notin> set w" "\<not> contains ''10='' (field k w)"
    by (auto simp: frame_ok_def)
  have "read_chunks sb (wire_fields (f # fs) @ field t v @ rest) =
      read_chunks (sb @ field k w) (wire_fields fs @ field t v @ rest)"
    using w by (subst read_chunks.simps) (simp add: f read_string_field)
  also have "\<dots> = Some ((sb @ field k w) @ wire_fields fs @ field t v, rest)"
    using Cons by simp
  finally show ?case by (simp add: f)
qed

text \<open>A message reads back whole if no field before the first one that contains
  \<open>10=\<close> does; that field ends the message, checksum or not.\<close>

lemma readMsg_fields:
  "\<forall>f \<in> set fs. frame_ok f \<Longrightarrow> soh \<notin> set v \<Longrightarrow> contains ''10='' (field t v) \<Longrightarrow>
     readMsg (wire_fields fs @ field t v @ rest) = Some (wire_fields fs @ field t v, rest)"
  using read_chunks_fields [of fs v t "[]" rest] by (simp add: readMsg_def)

section \<open>Messages as fields\<close>

definition wire_list :: "string \<Rightarrow> (int \<times> string) list \<Rightarrow> string \<Rightarrow> FIXClient \<Rightarrow> (int \<times> string) list" where
  "wire_list msgType bfs now c =
     (let sq = wrap64 (fc_seqNum c + 1);
          hb = [(35, msgType), (49, fc_senderID c), (56, fc_targetID c), (34, itoa sq), (52, now)] @ bfs
      in [(8, ''FIX.4.4''), (9, itoa (int (length (wire_fields hb))))] @ hb)"

definition wire_sum :: "string \<Rightarrow> (int \<times> string) list \<Rightarrow> string \<Rightarrow> FIXClient \<Rightarrow> string" where
  "wire_sum msgType bfs now c =
     pad_digits 3 (nat (checksum (wire_fields (wire_list msgType bfs now c))))"

lemma sendMsg_wire:
  "sendMsg msgType (wire_fields bfs) now c =
     (c\<lparr>fc_seqNum := wrap64 (fc_seqNum c + 1)\<rparr>,
      wire_fields (wire_list msgType bfs now c) @ field 10 (wire_sum msgType bfs now c))"
proof -
  have pre: "''8=FIX.4.4'' @ [soh] @ ''9='' @ v @ [soh] @ b = field 8 ''FIX.4.4'' @ field 9 v @ b" for v b
    by (simp add: field_def itoa_tag)
  have hb: "field 35 msgType @ field 49 (fc_senderID c) @ field 56 (fc_targetID c) @
      field 34 (itoa sq) @ field 52 now @ wire_fields bfs =
    wire_fields ([(35, msgType), (49, fc_senderID c), (56, fc_targetID c), (34, itoa sq), (52, now)] @ bfs)" for sq
    by simp
  show ?thesis
    unfolding sendMsg_def wire_list_def wire_sum_def Let_def append_assoc pre hb by simp
qed

definition client_ok :: "FIXClient \<Rightarrow> bool" where
  "client_ok c \<longleftrightarrow> clean (fc_senderID c) \<and> clean (fc_targetID c)"

lemma wire_list_ok:
  assumes "client_ok c" "clean msgType" "clean now" "\<forall>f \<in> set bfs. frame_ok f"
  shows "\<forall>f \<in> set (wire_list msgType bfs now c). frame_ok f"
proof -
  have "clean ''FIX.4.4''" by (rule clean_no_eq) (simp_all add: soh_def)
  with assms show ?thesis
    by (auto simp: wire_list_def Let_def client_ok_def intro!: frame_tag)
qed

lemma wire_sum_no_soh [simp]: "soh \<notin> set (wire_sum msgType bfs now c)"
  by (simp add: wire_sum_def soh_def)

lemma sum_field_ok: "field_ok (10, wire_sum msgType bfs now c)"
  by (simp add: field_ok_def in64_def)

lemma readMsg_sendMsg:
  assumes "client_ok c" "clean msgType" "clean now" "\<forall>f \<in> set bfs. frame_ok f"
  shows "readMsg (snd (sendMsg msgType (wire_fields bfs) now c) @ rest) =
    Some (snd (sendMsg msgType (wire_fields bfs) now c), rest)"
  using readMsg_fields [OF wire_list_ok [OF assms] wire_sum_no_soh contains_checksum]
  by (simp add: sendMsg_wire)

lemma parseTags_sendMsg:
  assumes "client_ok c" "clean msgType" "clean now" "\<forall>f \<in> set bfs. frame_ok f"
  shows "parseTags (snd (sendMsg msgType (wire_fields bfs) now c)) =
    map_of ((10, wire_sum msgType bfs now c) # rev (wire_list msgType bfs now c))"
proof -
  have "\<forall>f \<in> set (wire_list msgType bfs now c @ [(10, wire_sum msgType bfs now c)]). field_ok f"
    using wire_list_ok [OF assms] frame_field_ok
    by (simp add: ball_Un sum_field_ok)
  from parseTags_fields [OF this] show ?thesis by (simp add: sendMsg_wire)
qed

section \<open>Orders and execution reports\<close>

definition nos_list :: "fix_order \<Rightarrow> string \<Rightarrow> (int \<times> string) list" where
  "nos_list o1 now =
     [(11, fo_ID o1), (55, fo_Symbol o1), (54, if fo_Side o1 = SideSell then ''2'' else ''1''),
      (60, now), (38, itoa (fo_Quantity o1)), (40, if fo_Type o1 = Market then ''1'' else ''2'')] @
     (if fo_Type o1 = Limit then [(44, fmt_f4 (fo_Price o1))] else [])"

lemma nos_body_wire: "nos_body o1 now = wire_fields (nos_list o1 now)"
  by (simp add: nos_body_def nos_list_def Let_def)

definition order_ok :: "fix_order \<Rightarrow> string \<Rightarrow> bool" where
  "order_ok o1 now \<longleftrightarrow> clean (fo_ID o1) \<and> clean (fo_Symbol o1) \<and> clean now"

definition env_ok :: "fix_env \<Rightarrow> bool" where
  "env_ok e \<longleftrightarrow> clean (env_transact e) \<and> clean (env_execID e) \<and> clean (env_sending e)"

lemma clean_Nil [simp]: "clean []"
  by (simp add: clean_def)

lemma clean_codes [simp]:
  "clean ''0''" "clean ''1''" "clean ''2''" "clean ''5''" "clean ''8''" "clean ''A''" "clean ''D''"
  "clean ''F''" "clean ''30''" "clean ''100.0000''"
  by (rule clean_no_eq; simp add: soh_def)+

lemma clean_O [simp]: "clean (CHR ''O'' # v) = clean v"
  by (simp add: clean_def soh_def)

lemma clean_fmt_f4 [simp]: "clean (fmt_f4 x)"
proof (rule clean_no_eq)
  have d: "CHR ''='' \<notin> set (nat_digits n)" "CHR 0x01 \<notin> set (nat_digits n)" for n
    using nat_digits_all [of n] is_digit_not(3,6) by blast+
  show "CHR ''='' \<notin> set (fmt_f4 x)" by (cases x) (simp_all add: fmt_f4_def Let_def d)
  show "soh \<notin> set (fmt_f4 x)" by (cases x) (simp_all add: fmt_f4_def Let_def d soh_def)
qed

lemma nos_list_ok:
  assumes "order_ok o1 now"
  shows "\<forall>f \<in> set (nos_list o1 now). frame_ok f"
  using assms by (auto simp: nos_list_def order_ok_def intro!: frame_tag split: if_splits)

text \<open>What the report says, in terms of the order it answers.\<close>

definition rests_of :: "fix_env \<Rightarrow> fix_order \<Rightarrow> bool" where
  "rests_of e o1 \<longleftrightarrow> fo_Type o1 \<noteq> Market \<and> flt (env_roll e) (fconst (30/100))"

definition exec_list :: "fix_env \<Rightarrow> fix_order \<Rightarrow> (int \<times> string) list" where
  "exec_list e o1 =
     (let r = rests_of e o1; qty = itoa (fo_Quantity o1);
          price = (if fo_Type o1 = Limit then fmt_f4 (fo_Price o1) else ''100.0000'')
      in [(11, fo_ID o1), (37, ''O'' @ env_execID e), (17, env_execID e),
          (150, if r then ''0'' else ''F''), (39, if r then ''0'' else ''2''), (55, fo_Symbol o1),
          (54, if fo_Side o1 = SideSell then ''2'' else ''1''), (38, qty),
          (14, if r then ''0'' else qty), (151, if r then qty else ''0''),
          (6, if r then ''0'' else price), (60, env_transact e)])"

lemma exec_list_ok:
  assumes "order_ok o1 now" "env_ok e"
  shows "\<forall>f \<in> set (exec_list e o1). frame_ok f"
  using assms
  by (auto simp: exec_list_def Let_def order_ok_def env_ok_def intro!: frame_tag split: if_splits)

lemma fmt_f4_ne [simp]: "fmt_f4 x \<noteq> []"
  by (cases x) (simp_all add: fmt_f4_def Let_def)

definition nos_wire :: "fix_order \<Rightarrow> string \<Rightarrow> string \<Rightarrow> FIXClient \<Rightarrow> string" where
  "nos_wire o1 now now' c = snd (sendMsg ''D'' (nos_body o1 now) now' c)"

lemma nos_wire_tags:
  assumes "client_ok c" "order_ok o1 now" "clean now'"
  defines "tg \<equiv> parseTags (nos_wire o1 now now' c)"
  shows "tag_val tg 35 = ''D''" "tag_val tg 49 = fc_senderID c" "tag_val tg 56 = fc_targetID c"
    "tag_val tg 34 = itoa (wrap64 (fc_seqNum c + 1))"
    "tag_val tg 11 = fo_ID o1" "tag_val tg 55 = fo_Symbol o1"
    "tag_val tg 54 = (if fo_Side o1 = SideSell then ''2'' else ''1'')"
    "tag_val tg 38 = itoa (fo_Quantity o1)"
    "tag_val tg 40 = (if fo_Type o1 = Market then ''1'' else ''2'')"
    "tag_val tg 44 = (if fo_Type o1 = Limit then fmt_f4 (fo_Price o1) else [])"
proof -
  have "tg = map_of ((10, wire_sum ''D'' (nos_list o1 now) now' c) # rev (wire_list ''D'' (nos_list o1 now) now' c))"
    using parseTags_sendMsg [OF assms(1) clean_codes(7) assms(3) nos_list_ok [OF assms(2)]]
    by (simp only: tg_def nos_wire_def nos_body_wire)
  then show "tag_val tg 35 = ''D''" "tag_val tg 49 = fc_senderID c" "tag_val tg 56 = fc_targetID c"
    "tag_val tg 34 = itoa (wrap64 (fc_seqNum c + 1))"
    "tag_val tg 11 = fo_ID o1" "tag_val tg 55 = fo_Symbol o1"
    "tag_val tg 54 = (if fo_Side o1 = SideSell then ''2'' else ''1'')"
    "tag_val tg 38 = itoa (fo_Quantity o1)"
    "tag_val tg 40 = (if fo_Type o1 = Market then ''1'' else ''2'')"
    "tag_val tg 44 = (if fo_Type o1 = Limit then fmt_f4 (fo_Price o1) else [])"
    by (simp_all add: wire_list_def nos_list_def Let_def tag_val_def)
qed

lemma nos_report_wire:
  assumes "client_ok c" "order_ok o1 now" "clean now'"
  shows "nos_report e (parseTags (nos_wire o1 now now' c)) = wire_fields (exec_list e o1)"
  by (simp add: nos_report_def exec_list_def Let_def nos_wire_tags [OF assms] rests_of_def)

text \<open>The engine answers with the two parties swapped.\<close>

definition acceptor :: "int64 \<Rightarrow> FIXClient \<Rightarrow> FIXClient" where
  "acceptor sq c = \<lparr>fc_seqNum = sq, fc_senderID = fc_targetID c, fc_targetID = fc_senderID c\<rparr>"

lemma acceptor_sel [simp]:
  "fc_seqNum (acceptor sq c) = sq" "fc_senderID (acceptor sq c) = fc_targetID c"
  "fc_targetID (acceptor sq c) = fc_senderID c" "client_ok (acceptor sq c) = client_ok c"
  by (auto simp: acceptor_def client_ok_def)

definition exec_wire :: "fix_env \<Rightarrow> fix_order \<Rightarrow> int64 \<Rightarrow> FIXClient \<Rightarrow> string" where
  "exec_wire e o1 sq c = snd (sendMsg ''8'' (wire_fields (exec_list e o1)) (env_sending e) (acceptor sq c))"

lemma sendFIXMsg_acceptor:
  "sendFIXMsg msgType (fc_targetID c) (fc_senderID c) body now sq =
     (wrap64 (sq + 1), snd (sendMsg msgType body now (acceptor sq c)))"
  by (simp add: sendFIXMsg_sendMsg acceptor_def sendMsg_def Let_def)

lemma dispatch_nos:
  assumes "client_ok c" "order_ok o1 now" "clean now'"
  shows "fix_dispatch e (parseTags (nos_wire o1 now now' c)) sq =
    (wrap64 (sq + 1), Some (exec_wire e o1 sq c), False)"
  by (simp add: fix_dispatch_def Let_def nos_wire_tags [OF assms] handleFIXNOS_def
      nos_report_wire [OF assms] sendFIXMsg_acceptor exec_wire_def)

lemma readMsg_nos_wire:
  assumes "client_ok c" "order_ok o1 now" "clean now'"
  shows "readMsg (nos_wire o1 now now' c @ rest) = Some (nos_wire o1 now now' c, rest)"
  using readMsg_sendMsg [OF assms(1) clean_codes(7) assms(3) nos_list_ok [OF assms(2)]]
  by (simp add: nos_wire_def nos_body_wire)

lemma exec_wire_tags:
  fixes sq :: int64
  assumes "client_ok c" "order_ok o1 now" "env_ok e"
  defines "tg \<equiv> parseTags (exec_wire e o1 sq c)"
  shows "tag_val tg 35 = ''8''" "tag_val tg 49 = fc_targetID c" "tag_val tg 56 = fc_senderID c"
    "tag_val tg 11 = fo_ID o1" "tag_val tg 55 = fo_Symbol o1" "tag_val tg 38 = itoa (fo_Quantity o1)"
    "tag_val tg 14 = (if rests_of e o1 then ''0'' else itoa (fo_Quantity o1))"
    "tag_val tg 151 = (if rests_of e o1 then itoa (fo_Quantity o1) else ''0'')"
    "tag_val tg 39 = (if rests_of e o1 then ''0'' else ''2'')"
proof -
  have "clean (env_sending e)" using assms(3) by (simp add: env_ok_def)
  from parseTags_sendMsg [OF _ clean_codes(5) this exec_list_ok [OF assms(2,3)], of "acceptor sq c"]
  have "tg = map_of ((10, wire_sum ''8'' (exec_list e o1) (env_sending e) (acceptor sq c)) #
      rev (wire_list ''8'' (exec_list e o1) (env_sending e) (acceptor sq c)))"
    using assms(1) by (simp add: tg_def exec_wire_def)
  then show "tag_val tg 35 = ''8''" "tag_val tg 49 = fc_targetID c" "tag_val tg 56 = fc_senderID c"
    "tag_val tg 11 = fo_ID o1" "tag_val tg 55 = fo_Symbol o1" "tag_val tg 38 = itoa (fo_Quantity o1)"
    "tag_val tg 14 = (if rests_of e o1 then ''0'' else itoa (fo_Quantity o1))"
    "tag_val tg 151 = (if rests_of e o1 then itoa (fo_Quantity o1) else ''0'')"
    "tag_val tg 39 = (if rests_of e o1 then ''0'' else ''2'')"
    by (simp_all add: wire_list_def exec_list_def Let_def tag_val_def)
qed

lemma readMsg_exec_wire:
  assumes "client_ok c" "order_ok o1 now" "env_ok e"
  shows "readMsg (exec_wire e o1 sq c @ rest) = Some (exec_wire e o1 sq c, rest)"
proof -
  have "clean (env_sending e)" "client_ok (acceptor sq c)" using assms by (simp_all add: env_ok_def)
  from readMsg_sendMsg [OF this(2) clean_codes(5) this(1) exec_list_ok [OF assms(2,3)]]
  show ?thesis by (simp add: exec_wire_def)
qed

lemma awaitExec_exec_wire:
  assumes "client_ok c" "order_ok o1 now" "env_ok e" "\<not> done k"
  shows "awaitExec done k (fo_ID o1) (exec_wire e o1 sq c @ rest) = Inr rest"
  using assms
  by (subst awaitExec.simps) (simp add: readMsg_exec_wire exec_wire_tags [OF assms(1-3)])

section \<open>A whole session\<close>

text \<open>The client sends its orders one after the other.\<close>

fun send_orders :: "FIXClient \<Rightarrow> (fix_order \<times> string \<times> string) list \<Rightarrow> string list" where
  "send_orders c [] = []"
| "send_orders c ((o1, now, now') # os) =
     (case sendMsg ''D'' (nos_body o1 now) now' c of (c', m) \<Rightarrow> m # send_orders c' os)"

fun exec_wires ::
  "(nat \<Rightarrow> fix_env) \<Rightarrow> nat \<Rightarrow> int64 \<Rightarrow> FIXClient \<Rightarrow> fix_order list \<Rightarrow> string list" where
  "exec_wires env k sq c [] = []"
| "exec_wires env k sq c (o1 # os) =
     exec_wire (env k) o1 sq c # exec_wires env (Suc k) (wrap64 (sq + 1)) c os"

lemma length_exec_wires [simp]: "length (exec_wires env k sq c os) = length os"
  by (induction env k sq c os rule: exec_wires.induct) auto

lemma exec_wire_seq [simp]: "exec_wire e o1 sq (c\<lparr>fc_seqNum := q\<rparr>) = exec_wire e o1 sq c"
  by (simp add: exec_wire_def acceptor_def)

lemma exec_wires_seq [simp]: "exec_wires env k sq (c\<lparr>fc_seqNum := q\<rparr>) os = exec_wires env k sq c os"
  by (induction os arbitrary: k sq) simp_all

lemma client_ok_seq [simp]: "client_ok (c\<lparr>fc_seqNum := q\<rparr>) = client_ok c"
  by (simp add: client_ok_def)

lemma conn_loop_orders:
  "client_ok c \<Longrightarrow> \<forall>(o1, now, now') \<in> set os. order_ok o1 now \<and> clean now' \<Longrightarrow>
     conn_loop env k sq (concat (send_orders c os)) = exec_wires env k sq c (map fst os)"
proof (induction os arbitrary: c k sq)
  case Nil
  then show ?case
    by (subst conn_loop.simps)
      (simp add: readMsg_def read_chunks.simps read_string_def cut_byte_def)
next
  case (Cons x os)
  obtain o1 now now' where x: "x = (o1, now, now')" by (cases x)
  define c' where "c' = c\<lparr>fc_seqNum := wrap64 (fc_seqNum c + 1)\<rparr>"
  have m: "sendMsg ''D'' (nos_body o1 now) now' c = (c', nos_wire o1 now now' c)"
    by (simp add: c'_def nos_wire_def sendMsg_def Let_def)
  have ok: "client_ok c" "order_ok o1 now" "clean now'" using Cons.prems x by auto
  have "conn_loop env (Suc k) (wrap64 (sq + 1)) (concat (send_orders c' os)) =
      exec_wires env (Suc k) (wrap64 (sq + 1)) c' (map fst os)"
    using Cons.prems by (intro Cons.IH) (auto simp: c'_def)
  then show ?case
    by (subst conn_loop.simps)
      (simp add: x m readMsg_nos_wire [OF ok] dispatch_nos [OF ok] c'_def)
qed

lemma awaitExec_skip:
  assumes "readMsg s = Some (raw, s')" "tag_val (parseTags raw) 35 \<noteq> ''8''" "\<not> ctxDone k"
  shows "awaitExec ctxDone k oid s = awaitExec ctxDone (Suc k) oid s'"
  using assms by (subst awaitExec.simps) simp

text \<open>The logon handshake.\<close>

definition logon_wire :: "string \<Rightarrow> FIXClient \<Rightarrow> string" where
  "logon_wire now c = snd (sendMsg ''A'' (field 108 ''30'') now c)"

lemma logon_fields: "field 108 ''30'' = wire_fields [(108, ''30'')]"
  by simp

lemma logon_list_ok: "\<forall>f \<in> set [(108, ''30'')]. frame_ok f"
  by (auto intro: frame_tag)

lemma readMsg_logon_wire:
  "client_ok c \<Longrightarrow> clean now \<Longrightarrow> readMsg (logon_wire now c @ rest) = Some (logon_wire now c, rest)"
  unfolding logon_wire_def logon_fields by (rule readMsg_sendMsg) (simp_all add: frame_tag)

lemma logon_wire_tags:
  assumes "client_ok c" "clean now"
  defines "tg \<equiv> parseTags (logon_wire now c)"
  shows "tag_val tg 35 = ''A''" "tag_val tg 49 = fc_senderID c" "tag_val tg 56 = fc_targetID c"
    "tag_val tg 34 = itoa (wrap64 (fc_seqNum c + 1))"
proof -
  have "tg = map_of ((10, wire_sum ''A'' [(108, ''30'')] now c) # rev (wire_list ''A'' [(108, ''30'')] now c))"
    using parseTags_sendMsg [OF assms(1) clean_codes(6) assms(2) logon_list_ok]
    by (simp only: tg_def logon_wire_def logon_fields)
  then show "tag_val tg 35 = ''A''" "tag_val tg 49 = fc_senderID c" "tag_val tg 56 = fc_targetID c"
    "tag_val tg 34 = itoa (wrap64 (fc_seqNum c + 1))"
    by (simp_all add: wire_list_def Let_def tag_val_def)
qed

lemma dispatch_logon:
  assumes "client_ok c" "clean now"
  shows "fix_dispatch e (parseTags (logon_wire now c)) sq =
    (wrap64 (sq + 1), Some (logon_wire (env_sending e) (acceptor sq c)), False)"
  by (simp add: fix_dispatch_def Let_def logon_wire_tags [OF assms] sendFIXMsg_acceptor)
    (simp add: logon_wire_def)

lemma DialFIX_cases:
  assumes "DialFIX dialed written now s t = Inr (c, m)"
  shows "c = \<lparr>fc_seqNum = 2, fc_senderID = s, fc_targetID = t\<rparr>"
    "m = logon_wire now \<lparr>fc_seqNum = 1, fc_senderID = s, fc_targetID = t\<rparr>"
  using assms
  by (auto simp: DialFIX_def sendLogon_def logon_wire_def sendMsg_def Let_def wrap64_def split: if_splits)

lemma handleFIXConn_session:
  assumes "DialFIX True True t0 s t = Inr (c, m)" "client_ok c" "clean t0"
    "\<forall>(o1, now, now') \<in> set os. order_ok o1 now \<and> clean now'"
  shows "handleFIXConn env (m @ concat (send_orders c os)) =
    logon_wire (env_sending (env 0)) (acceptor 1 c) # exec_wires env 1 2 c (map fst os)"
proof -
  define c0 where "c0 = \<lparr>fc_seqNum = (1::int64), fc_senderID = s, fc_targetID = t\<rparr>"
  have c: "c = c0\<lparr>fc_seqNum := 2\<rparr>" and m: "m = logon_wire t0 c0"
    using DialFIX_cases [OF assms(1)] by (simp_all add: c0_def)
  have ok: "client_ok c0" using assms(2) by (simp add: c client_ok_def)
  have w: "wrap64 2 = 2" by (simp add: wrap64_def)
  have a: "acceptor 1 c0 = acceptor 1 c" by (simp add: c acceptor_def)
  show ?thesis
    unfolding handleFIXConn_def
    by (subst conn_loop.simps)
      (simp add: m readMsg_logon_wire [OF ok assms(3)] dispatch_logon [OF ok assms(3)] w a
        conn_loop_orders [OF assms(2,4)])
qed

section \<open>A small session to instantiate the properties with\<close>

definition test_client :: FIXClient where
  "test_client = \<lparr>fc_seqNum = 2, fc_senderID = ''BOT'', fc_targetID = ''EXCHANGE''\<rparr>"

definition test_order :: fix_order where
  "test_order = \<lparr>fo_ID = ''a1'', fo_Symbol = ''SIM'', fo_Side = SideSell, fo_Type = Limit,
     fo_Price = Num False 100, fo_Quantity = 7\<rparr>"

definition test_env :: fix_env where
  "test_env = \<lparr>env_roll = Num False (1/2), env_transact = ''T'', env_execID = ''e1'', env_sending = ''T''\<rparr>"

lemma clean_test: "clean ''BOT''" "clean ''EXCHANGE''" "clean ''T''" "clean ''a1''" "clean ''SIM''" "clean ''e1''"
  by (rule clean_no_eq; simp add: soh_def)+

lemma test_client_ok: "client_ok test_client"
  by (simp add: client_ok_def test_client_def clean_test)

lemma test_order_ok: "order_ok test_order ''T''"
  by (simp add: order_ok_def test_order_def clean_test)

lemma test_env_ok: "env_ok test_env"
  by (simp add: env_ok_def test_env_def clean_test)

lemma test_dial:
  "DialFIX True True ''T'' ''BOT'' ''EXCHANGE'' =
     Inr (test_client, logon_wire ''T'' (test_client\<lparr>fc_seqNum := 1\<rparr>))"
  by (simp add: DialFIX_def sendLogon_def sendMsg_def logon_wire_def test_client_def Let_def wrap64_def)

section \<open>Properties\<close>

lemma itoa_acceptance: "in64 q \<Longrightarrow> sscanf_d ''0'' = Some 0 \<and> sscanf_d (itoa q) = Some q"
  using sscanf_itoa [of 0] by (simp add: sscanf_itoa itoa_1 in64_def)

lemma SendNOS_result:
  "snd (snd (SendNOS ctxDone True now now' o1 s c)) = awaitExec ctxDone 0 (fo_ID o1) s"
  by (simp add: SendNOS_def sendMsg_def Let_def)

lemma awaitExec_logon:
  assumes "client_ok c" "clean now"
  shows "awaitExec (\<lambda>_. False) k oid (logon_wire now c @ rest) = awaitExec (\<lambda>_. False) (Suc k) oid rest"
  by (rule awaitExec_skip [OF readMsg_logon_wire [OF assms]]) (simp_all add: logon_wire_tags [OF assms])

lemma exec_wires_nth:
  "i < length os \<Longrightarrow> \<exists>q. exec_wires env k sq c os ! i = exec_wire (env (k + i)) (os ! i) q c"
proof (induction os arbitrary: i k sq)
  case (Cons o1 os)
  show ?case
  proof (cases i)
    case (Suc j)
    with Cons.prems Cons.IH [of j "Suc k" "wrap64 (sq + 1)"] show ?thesis by simp
  qed (auto simp: Cons)
qed simp

text \<open>
  C8. A bot's FIX session is answered order by order: if the connection and the writes
  succeed, the engine replies to the logon and then to every order the client sends, in
  order, and each \<open>SendNOS\<close> finds its execution report in the reply stream (the first one
  behind the logon reply) and returns without an error, leaving the stream after it.
\<close>

theorem fix_session_answers_every_order:
  assumes "DialFIX True True t0 s t = Inr (c, m)" "clean s" "clean t" "clean t0"
    and "\<forall>(o1, now, now') \<in> set os. order_ok o1 now \<and> clean now'" and "\<forall>k. env_ok (env k)"
  shows "\<exists>hello execs. handleFIXConn env (m @ concat (send_orders c os)) = hello # execs \<and>
    length execs = length os \<and>
    (\<forall>i < length os. \<forall>now now' c' rest.
       snd (snd (SendNOS (\<lambda>_. False) True now now' (fst (os ! i))
         ((if i = 0 then hello else []) @ execs ! i @ rest) c')) = Inr rest)"
proof -
  have c: "client_ok c" using DialFIX_cases(1) [OF assms(1)] assms(2,3) by (simp add: client_ok_def)
  have es: "clean (env_sending (env 0))" using assms(6) by (simp add: env_ok_def)
  show ?thesis
  proof (intro exI conjI allI impI)
    show "handleFIXConn env (m @ concat (send_orders c os)) =
        logon_wire (env_sending (env 0)) (acceptor 1 c) # exec_wires env 1 2 c (map fst os)"
      by (rule handleFIXConn_session [OF assms(1) c assms(4,5)])
    show "length (exec_wires env 1 2 c (map fst os)) = length os" by simp
    fix i now now' c' rest
    assume i: "i < length os"
    then obtain q where q: "exec_wires env 1 2 c (map fst os) ! i = exec_wire (env (1 + i)) (fst (os ! i)) q c"
      using exec_wires_nth [of i "map fst os" env 1 2 c] by auto
    obtain n where "order_ok (fst (os ! i)) n"
      using assms(5) nth_mem [OF i] by (metis (mono_tags, lifting) case_prodE fst_conv)
    then have "awaitExec (\<lambda>_. False) k (fo_ID (fst (os ! i))) (exec_wires env 1 2 c (map fst os) ! i @ rest) =
        Inr rest" for k
      unfolding q using c assms(6) by (intro awaitExec_exec_wire) auto
    then show "snd (snd (SendNOS (\<lambda>_. False) True now now' (fst (os ! i))
         ((if i = 0 then logon_wire (env_sending (env 0)) (acceptor 1 c) else []) @
           exec_wires env 1 2 c (map fst os) ! i @ rest) c')) = Inr rest"
      using c es by (cases "i = 0") (simp_all add: SendNOS_result awaitExec_logon)
  qed
qed

lemma fix_session_answers_every_order_witness:
  "\<exists>hello execs. handleFIXConn (\<lambda>_. test_env) (logon_wire ''T'' (test_client\<lparr>fc_seqNum := 1\<rparr>) @
      concat (send_orders test_client [(test_order, ''T'', ''T'')])) = hello # execs \<and>
    length execs = length [(test_order, ''T'', ''T'')] \<and>
    (\<forall>i < length [(test_order, ''T'', ''T'')]. \<forall>now now' c' rest.
       snd (snd (SendNOS (\<lambda>_. False) True now now' (fst ([(test_order, ''T'', ''T'')] ! i))
         ((if i = 0 then hello else []) @ execs ! i @ rest) c')) = Inr rest)"
  by (rule fix_session_answers_every_order [OF test_dial clean_test(1,2,3)]) (simp_all add: test_order_ok test_env_ok clean_test)

text \<open>
  C27. Parsing is the inverse of printing: the tags the acceptor (or the client) parses
  from a sent message are the fields of the message, the last one winning where a tag is
  repeated, among them the header, the sequence number after the increment and the checksum.
\<close>

theorem parseTags_of_sendMsg:
  assumes "client_ok c" "clean msgType" "clean now" "\<forall>f \<in> set bfs. frame_ok f"
  shows "parseFIXTags (snd (sendMsg msgType (wire_fields bfs) now c)) =
    [8 \<mapsto> ''FIX.4.4'',
     9 \<mapsto> itoa (int (length (field 35 msgType @ field 49 (fc_senderID c) @ field 56 (fc_targetID c) @
             field 34 (itoa (wrap64 (fc_seqNum c + 1))) @ field 52 now @ wire_fields bfs))),
     35 \<mapsto> msgType, 49 \<mapsto> fc_senderID c, 56 \<mapsto> fc_targetID c,
     34 \<mapsto> itoa (wrap64 (fc_seqNum c + 1)), 52 \<mapsto> now] ++ map_of (rev bfs) ++
    [10 \<mapsto> wire_sum msgType bfs now c]"
  unfolding parseFIXTags_parseTags parseTags_sendMsg [OF assms]
  by (rule ext) (simp add: wire_list_def Let_def map_add_def split: option.split)

lemma parseTags_of_sendMsg_witness:
  "tag_val (parseFIXTags (snd (sendMsg ''A'' (wire_fields [(108, ''30'')]) ''T'' test_client))) 49 = ''BOT''"
  by (subst parseTags_of_sendMsg [OF test_client_ok clean_codes(6) clean_test(3) logon_list_ok])
    (simp add: tag_val_def test_client_def)

text \<open>
  Framing: the reader of either side takes exactly one sent message off the stream and
  leaves what follows, whatever follows, as long as no value of the message looks like a
  checksum field.
\<close>

theorem readMsg_takes_one_message:
  assumes "client_ok c" "clean msgType" "clean now" "\<forall>f \<in> set bfs. frame_ok f"
  shows "readFIXMsg (snd (sendMsg msgType (wire_fields bfs) now c) @ rest) =
    Some (snd (sendMsg msgType (wire_fields bfs) now c), rest)"
  unfolding readFIXMsg_readMsg using assms by (rule readMsg_sendMsg)

lemma readMsg_takes_one_message_witness:
  "readFIXMsg (snd (sendMsg ''A'' (wire_fields [(108, ''30'')]) ''T'' test_client) @ ''x'') =
    Some (snd (sendMsg ''A'' (wire_fields [(108, ''30'')]) ''T'' test_client), ''x'')"
  by (rule readMsg_takes_one_message [OF test_client_ok clean_codes(6) clean_test(3) logon_list_ok])

text \<open>
  But a message also ends at the first field whose text contains \<open>10=\<close>, such as tag 110
  or a value with these bytes, and the rest of it is read as the next message.
\<close>

theorem readMsg_cut_by_lookalike:
  assumes "\<forall>f \<in> set fs. frame_ok f" "soh \<notin> set v" "contains ''10='' (field k v)"
  shows "readMsg (wire_fields (fs @ (k, v) # gs) @ rest) =
    Some (wire_fields (fs @ [(k, v)]), wire_fields gs @ rest)"
  using readMsg_fields [OF assms, of "wire_fields gs @ rest"] by simp

lemma readMsg_cut_by_lookalike_witness:
  "readMsg (wire_fields ([(35, ''D'')] @ (110, ''5'') # [(38, ''7'')]) @ []) =
    Some (wire_fields ([(35, ''D'')] @ [(110, ''5'')]), wire_fields [(38, ''7'')] @ [])"
proof (rule readMsg_cut_by_lookalike)
  show "\<forall>f \<in> set [(35, ''D'')]. frame_ok f" by (auto intro: frame_tag)
  show "soh \<notin> set ''5''" by (simp add: soh_def)
  show "contains ''10='' (field 110 ''5'')" by (simp add: field_def itoa_tag)
qed

text \<open>
  The execution report adds up: to any order the engine answers one report to the
  sender, with the order's id, symbol and quantity, where \<open>CumQty\<close> and \<open>LeavesQty\<close> sum to
  the quantity; a market order never rests, and for a positive quantity the status is
  \<open>2\<close> (filled) exactly when nothing is left.
\<close>

theorem exec_report_adds_up:
  assumes "client_ok c" "order_ok o1 now" "clean now'" "env_ok e"
    and "in64 (fo_Quantity o1)" "0 < fo_Quantity o1"
  shows "\<exists>m sq'. fix_dispatch e (parseFIXTags (snd (sendMsg ''D'' (nos_body o1 now) now' c))) sq = (sq', Some m, False) \<and>
    (\<exists>cum left. sscanf_d (tag_val (parseTags m) 14) = Some cum \<and> sscanf_d (tag_val (parseTags m) 151) = Some left \<and>
       cum + left = fo_Quantity o1 \<and>
       (tag_val (parseTags m) 39 = ''2'' \<longleftrightarrow> left = 0) \<and> (fo_Type o1 = Market \<longrightarrow> left = 0)) \<and>
    tag_val (parseTags m) 11 = fo_ID o1 \<and> tag_val (parseTags m) 55 = fo_Symbol o1 \<and>
    tag_val (parseTags m) 38 = itoa (fo_Quantity o1) \<and>
    tag_val (parseTags m) 49 = fc_targetID c \<and> tag_val (parseTags m) 56 = fc_senderID c"
proof -
  note tg = exec_wire_tags [OF assms(1,2,4), of sq]
  have "fix_dispatch e (parseFIXTags (snd (sendMsg ''D'' (nos_body o1 now) now' c))) sq =
      (wrap64 (sq + 1), Some (exec_wire e o1 sq c), False)"
    using dispatch_nos [OF assms(1-3)] by (simp add: nos_wire_def)
  moreover have "fo_Type o1 = Market \<Longrightarrow> \<not> rests_of e o1" by (simp add: rests_of_def)
  ultimately show ?thesis
    using tg itoa_acceptance [OF assms(5)] assms(6) by (cases "rests_of e o1") auto
qed

lemma exec_report_adds_up_witness:
  "\<exists>m sq'. fix_dispatch test_env (parseFIXTags (snd (sendMsg ''D'' (nos_body test_order ''T'') ''T'' test_client))) 5 =
      (sq', Some m, False) \<and>
    (\<exists>cum left. sscanf_d (tag_val (parseTags m) 14) = Some cum \<and> sscanf_d (tag_val (parseTags m) 151) = Some left \<and>
       cum + left = fo_Quantity test_order \<and>
       (tag_val (parseTags m) 39 = ''2'' \<longleftrightarrow> left = 0) \<and> (fo_Type test_order = Market \<longrightarrow> left = 0)) \<and>
    tag_val (parseTags m) 11 = fo_ID test_order \<and> tag_val (parseTags m) 55 = fo_Symbol test_order \<and>
    tag_val (parseTags m) 38 = itoa (fo_Quantity test_order) \<and>
    tag_val (parseTags m) 49 = fc_targetID test_client \<and> tag_val (parseTags m) 56 = fc_senderID test_client"
  by (rule exec_report_adds_up [OF test_client_ok test_order_ok clean_test(3) test_env_ok])
    (simp_all add: test_order_def in64_def)

lemma send_orders_seq:
  "client_ok c \<Longrightarrow> \<forall>(o1, now, now') \<in> set os. order_ok o1 now \<and> clean now' \<Longrightarrow>
    0 \<le> fc_seqNum c \<Longrightarrow> fc_seqNum c + int (length os) < 2 ^ 63 \<Longrightarrow> i < length os \<Longrightarrow>
    tag_val (parseTags (send_orders c os ! i)) 34 = itoa (fc_seqNum c + 1 + int i)"
proof (induction os arbitrary: c i)
  case (Cons x os)
  obtain o1 now now' where x: "x = (o1, now, now')" by (cases x)
  have ok: "client_ok c" "order_ok o1 now" "clean now'" using Cons.prems x by auto
  have w: "wrap64 (fc_seqNum c + 1) = fc_seqNum c + 1"
    using Cons.prems(3,4) by (intro wrap64_id) (simp add: in64_def)
  have m: "sendMsg ''D'' (nos_body o1 now) now' c = (c\<lparr>fc_seqNum := fc_seqNum c + 1\<rparr>, nos_wire o1 now now' c)"
    by (simp add: nos_wire_def sendMsg_def Let_def w)
  show ?case
  proof (cases i)
    case 0
    then show ?thesis using nos_wire_tags(4) [OF ok] by (simp add: x m w)
  next
    case (Suc j)
    with Cons.prems Cons.IH [of "c\<lparr>fc_seqNum := fc_seqNum c + 1\<rparr>" j] show ?thesis
      by (simp add: x m algebra_simps)
  qed
qed simp

text \<open>
  Sequence numbers: in a session the logon carries number 2, because the counter starts
  at 1 and is incremented before it is used, and the orders carry 3, 4 and so on, one apart.
\<close>

theorem fix_session_sequence_numbers:
  assumes "DialFIX True True t0 s t = Inr (c, m)" "clean s" "clean t" "clean t0"
    and "\<forall>(o1, now, now') \<in> set os. order_ok o1 now \<and> clean now'" and "length os < 2 ^ 62"
  shows "tag_val (parseTags m) 34 = ''2'' \<and>
    (\<forall>i < length os. tag_val (parseTags (send_orders c os ! i)) 34 = itoa (3 + int i))"
proof -
  have c: "c = \<lparr>fc_seqNum = 2, fc_senderID = s, fc_targetID = t\<rparr>" "client_ok c"
    using DialFIX_cases(1) [OF assms(1)] assms(2,3) by (simp_all add: client_ok_def)
  have "client_ok \<lparr>fc_seqNum = 1, fc_senderID = s, fc_targetID = t\<rparr>" using assms(2,3) by (simp add: client_ok_def)
  from logon_wire_tags(4) [OF this assms(4)] DialFIX_cases(2) [OF assms(1)]
  have "tag_val (parseTags m) 34 = ''2''" by (simp add: wrap64_def itoa_1)
  moreover have "int (length os) < 2 ^ 62" using assms(6) by (metis of_nat_less_iff of_nat_numeral of_nat_power)
  ultimately show ?thesis using send_orders_seq [OF c(2) assms(5)] by (simp add: c(1))
qed

lemma fix_session_sequence_numbers_witness:
  "tag_val (parseTags (logon_wire ''T'' (test_client\<lparr>fc_seqNum := 1\<rparr>))) 34 = ''2'' \<and>
   tag_val (parseTags (send_orders test_client [(test_order, ''T'', ''T'')] ! 0)) 34 = itoa 3"
  using fix_session_sequence_numbers [OF test_dial clean_test(1,2,3), of "[(test_order, ''T'', ''T'')]"]
  by (simp add: test_order_ok clean_test)

end
