(* ===== verification/Store.thy ===== *)
theory Store
  imports Float64 "HOL-Library.Sublist"
begin

text \<open>
  \<open>telemetry/internal/store/store.go\<close> and the connection loop of \<open>telemetry/cmd/main.go\<close>:
  rows are put on a buffered channel without blocking and a single worker takes them off
  and inserts them. A nil \<open>*Store\<close> is \<open>None\<close>. The connection pool is not part of the
  sources: \<open>exec pool_open job\<close> says whether an insert succeeds.
\<close>

section \<open>Rows and jobs\<close>

record RawMetricRow =
  rr_SessionID :: string
  rr_SandboxID :: string
  rr_OrderID :: string
  rr_Archetype :: string
  rr_AppRTTNS :: int64
  rr_KernelRTTNS :: int64
  rr_FillCorrect :: bool
  rr_FillPrice :: float64
  rr_FillQty :: int64
  rr_ReplaySeq :: int64

record CompositeScoreRow =
  cr_SessionID :: string
  cr_TeamName :: string
  cr_P50NS :: float64
  cr_P90NS :: float64
  cr_P99NS :: float64
  cr_P999NS :: float64
  cr_TPS :: float64
  cr_PeakTPS :: float64
  cr_FillAccuracy :: float64
  cr_PriceTimeViolations :: int64
  cr_RecoveryTimeMS :: float64
  cr_DegradationRatio :: float64
  cr_ThroughputScore :: float64
  cr_TailLatencyScore :: float64
  cr_CorrectnessScore :: float64
  cr_ResilienceScore :: float64
  cr_TotalScore :: float64

record KernelLatencyRow =
  kr_SessionID :: string
  kr_SandboxID :: string
  kr_SrcIP :: string
  kr_DstIP :: string
  kr_SrcPort :: int64
  kr_DstPort :: int64
  kr_RTTNS :: int64
  kr_IngressNS :: int64
  kr_EgressNS :: int64

record writeJob =
  wj_kind :: string
  wj_raw :: "RawMetricRow option"
  wj_score :: "CompositeScoreRow option"
  wj_kernel :: "KernelLatencyRow option"

section \<open>The store\<close>

text \<open>The channel with its closed flag, the pool, and the rows the database holds.\<close>

record Store =
  st_ch :: "writeJob list"
  st_chClosed :: bool
  st_poolOpen :: bool
  st_db :: "writeJob list"

datatype store_error = PoolError | PingError | SendOnClosed | CloseOfClosed | NilRow

definition chan_cap :: nat where "chan_cap = 8192"

definition NewStore :: "string \<Rightarrow> bool \<Rightarrow> bool \<Rightarrow> (store_error, Store option) result" where
  "NewStore dsn pool_ok ping_ok =
     (if dsn = [] then Inr None
      else if \<not> pool_ok then Inl PoolError
      else if \<not> ping_ok then Inl PingError
      else Inr (Some \<lparr>st_ch = [], st_chClosed = False, st_poolOpen = True, st_db = []\<rparr>))"

text \<open>The select with a default: a full channel drops the row; a closed one panics.\<close>

definition try_send :: "writeJob \<Rightarrow> Store \<Rightarrow> (store_error, Store) result" where
  "try_send j s =
     (if st_chClosed s then Inl SendOnClosed
      else if length (st_ch s) < chan_cap then Inr (s\<lparr>st_ch := st_ch s @ [j]\<rparr>)
      else Inr s)"

definition write_to :: "writeJob \<Rightarrow> Store option \<Rightarrow> (store_error, Store option) result" where
  "write_to j so =
     (case so of None \<Rightarrow> Inr None
      | Some s \<Rightarrow> (case try_send j s of Inl e \<Rightarrow> Inl e | Inr s' \<Rightarrow> Inr (Some s')))"

definition raw_job :: "RawMetricRow \<Rightarrow> writeJob" where
  "raw_job r = \<lparr>wj_kind = ''raw'', wj_raw = Some r, wj_score = None, wj_kernel = None\<rparr>"

definition score_job :: "CompositeScoreRow \<Rightarrow> writeJob" where
  "score_job r = \<lparr>wj_kind = ''score'', wj_raw = None, wj_score = Some r, wj_kernel = None\<rparr>"

definition kernel_job :: "KernelLatencyRow \<Rightarrow> writeJob" where
  "kernel_job r = \<lparr>wj_kind = ''kernel'', wj_raw = None, wj_score = None, wj_kernel = Some r\<rparr>"

definition WriteRawMetric :: "RawMetricRow \<Rightarrow> Store option \<Rightarrow> (store_error, Store option) result" where
  "WriteRawMetric r so = write_to (raw_job r) so"

definition WriteCompositeScore ::
  "CompositeScoreRow \<Rightarrow> Store option \<Rightarrow> (store_error, Store option) result" where
  "WriteCompositeScore r so = write_to (score_job r) so"

definition WriteKernelLatency ::
  "KernelLatencyRow \<Rightarrow> Store option \<Rightarrow> (store_error, Store option) result" where
  "WriteKernelLatency r so = write_to (kernel_job r) so"

definition CloseStore :: "Store option \<Rightarrow> (store_error, Store option) result" where
  "CloseStore so =
     (case so of None \<Rightarrow> Inr None
      | Some s \<Rightarrow> if st_chClosed s then Inl CloseOfClosed
                 else Inr (Some (s\<lparr>st_chClosed := True, st_poolOpen := False\<rparr>)))"

text \<open>One insert: the row arrives if the statement succeeds, else the error is logged.\<close>

definition insert_row :: "(bool \<Rightarrow> writeJob \<Rightarrow> bool) \<Rightarrow> writeJob \<Rightarrow> Store \<Rightarrow> Store" where
  "insert_row exec j s = (if exec (st_poolOpen s) j then s\<lparr>st_db := st_db s @ [j]\<rparr> else s)"

text \<open>The worker's loop body; \<open>None\<close> when it would block or, on a closed and empty
  channel, has returned. Dereferencing a missing row would panic.\<close>

definition worker_step ::
  "(bool \<Rightarrow> writeJob \<Rightarrow> bool) \<Rightarrow> Store \<Rightarrow> (store_error, Store) result option" where
  "worker_step exec s =
     (case st_ch s of [] \<Rightarrow> None
      | j # js \<Rightarrow>
          let s' = s\<lparr>st_ch := js\<rparr> in
          if wj_kind j = ''raw'' then
            (case wj_raw j of None \<Rightarrow> Some (Inl NilRow) | Some r \<Rightarrow> Some (Inr (insert_row exec j s')))
          else if wj_kind j = ''score'' then
            (case wj_score j of None \<Rightarrow> Some (Inl NilRow) | Some r \<Rightarrow> Some (Inr (insert_row exec j s')))
          else if wj_kind j = ''kernel'' then
            (case wj_kernel j of None \<Rightarrow> Some (Inl NilRow) | Some r \<Rightarrow> Some (Inr (insert_row exec j s')))
          else Some (Inr s'))"

section \<open>Runs\<close>

datatype store_event =
    PutRaw RawMetricRow
  | PutScore CompositeScoreRow
  | PutKernel KernelLatencyRow
  | Work
  | Shut

fun event_job :: "store_event \<Rightarrow> writeJob option" where
  "event_job (PutRaw r) = Some (raw_job r)"
| "event_job (PutScore r) = Some (score_job r)"
| "event_job (PutKernel r) = Some (kernel_job r)"
| "event_job _ = None"

fun store_step ::
  "(bool \<Rightarrow> writeJob \<Rightarrow> bool) \<Rightarrow> store_event \<Rightarrow> Store option \<Rightarrow> (store_error, Store option) result" where
  "store_step exec (PutRaw r) so = WriteRawMetric r so"
| "store_step exec (PutScore r) so = WriteCompositeScore r so"
| "store_step exec (PutKernel r) so = WriteKernelLatency r so"
| "store_step exec Work so =
     (case so of None \<Rightarrow> Inr None
      | Some s \<Rightarrow> (case worker_step exec s of None \<Rightarrow> Inr so
                   | Some (Inl e) \<Rightarrow> Inl e | Some (Inr s') \<Rightarrow> Inr (Some s')))"
| "store_step exec Shut so = CloseStore so"

fun store_run ::
  "(bool \<Rightarrow> writeJob \<Rightarrow> bool) \<Rightarrow> store_event list \<Rightarrow> Store option \<Rightarrow> (store_error, Store option) result" where
  "store_run exec [] so = Inr so"
| "store_run exec (e # es) so =
     (case store_step exec e so of Inl err \<Rightarrow> Inl err | Inr so' \<Rightarrow> store_run exec es so')"

definition written :: "store_event list \<Rightarrow> writeJob list" where
  "written es = List.map_filter event_job es"

lemma written_simps [simp]:
  "written [] = []"
  "written (e # es) = (case event_job e of None \<Rightarrow> written es | Some j \<Rightarrow> j # written es)"
  by (simp_all add: written_def List.map_filter_def split: option.split)

text \<open>A job as the \<open>Write\<close> methods build it: the pointer its kind names is set.\<close>

definition proper :: "writeJob \<Rightarrow> bool" where
  "proper j \<longleftrightarrow> (\<exists>e. event_job e = Some j)"

lemma proper_event: "event_job e = Some j \<Longrightarrow> proper j"
  by (auto simp: proper_def)

lemma proper_cases:
  assumes "proper j"
  obtains r where "j = raw_job r" | r where "j = score_job r" | r where "j = kernel_job r"
proof -
  from assms obtain e where "event_job e = Some j" by (auto simp: proper_def)
  then show thesis using that by (cases e) auto
qed

lemma worker_proper:
  "st_ch s = j # js \<Longrightarrow> proper j \<Longrightarrow> worker_step exec s = Some (Inr (insert_row exec j (s\<lparr>st_ch := js\<rparr>)))"
  by (erule proper_cases) (simp_all add: worker_step_def raw_job_def score_job_def kernel_job_def)

lemma store_step_put:
  "event_job e = Some j \<Longrightarrow> store_step exec e so = write_to j so"
  by (cases e) (simp_all add: WriteRawMetric_def WriteCompositeScore_def WriteKernelLatency_def)

definition store_ok :: "Store \<Rightarrow> bool" where
  "store_ok s \<longleftrightarrow> length (st_ch s) \<le> chan_cap \<and> (\<forall>j \<in> set (st_ch s). proper j)"

text \<open>The rows a store accounts for: those in the database, then those in the channel.\<close>

definition accounted :: "Store \<Rightarrow> writeJob list" where
  "accounted s = st_db s @ st_ch s"

lemma subseq_drop_head: "subseq (xs @ ys) (xs @ y # ys)"
  by (simp add: subseq_append' list_emb_Cons)

lemma store_step_account:
  assumes "store_step exec e (Some s) = Inr so'" "store_ok s"
  shows "\<exists>s'. so' = Some s' \<and> store_ok s' \<and>
    subseq (accounted s') (accounted s @ written [e]) \<and>
    (st_chClosed s \<longrightarrow> st_chClosed s') \<and> (st_poolOpen s' \<longrightarrow> st_poolOpen s)"
proof (cases "event_job e")
  case (Some j)
  have "subseq (accounted s) (accounted s @ [j])" by (rule subseq_rev_drop_many) simp
  with assms Some show ?thesis
    by (auto simp: store_step_put write_to_def try_send_def store_ok_def accounted_def proper_event
        split: if_splits sum.splits)
next
  case None
  then consider "e = Work" | "e = Shut" by (cases e) auto
  then show ?thesis
  proof cases
    case 1
    show ?thesis
    proof (cases "st_ch s")
      case Nil
      with 1 assms show ?thesis by (auto simp: worker_step_def)
    next
      case (Cons j js)
      with assms 1 have "so' = Some (insert_row exec j (s\<lparr>st_ch := js\<rparr>))"
        by (auto simp: worker_proper store_ok_def)
      with assms(2) Cons 1 show ?thesis
        by (auto simp: insert_row_def store_ok_def accounted_def subseq_drop_head)
    qed
  next
    case 2
    with assms show ?thesis
      by (auto simp: CloseStore_def store_ok_def accounted_def split: if_splits)
  qed
qed

lemma store_run_account:
  "store_run exec es (Some s) = Inr so' \<Longrightarrow> store_ok s \<Longrightarrow>
     \<exists>s'. so' = Some s' \<and> store_ok s' \<and> subseq (accounted s') (accounted s @ written es) \<and>
       (st_chClosed s \<longrightarrow> st_chClosed s') \<and> (st_poolOpen s' \<longrightarrow> st_poolOpen s)"
proof (induction es arbitrary: s)
  case Nil
  then show ?case by auto
next
  case (Cons e es)
  from Cons.prems obtain so1 where e: "store_step exec e (Some s) = Inr so1"
    and r: "store_run exec es so1 = Inr so'" by (auto split: sum.splits)
  from store_step_account [OF e Cons.prems(2)] obtain s1 where s1: "so1 = Some s1" "store_ok s1"
      "subseq (accounted s1) (accounted s @ written [e])"
      "st_chClosed s \<longrightarrow> st_chClosed s1" "st_poolOpen s1 \<longrightarrow> st_poolOpen s" by blast
  from Cons.IH [OF r [unfolded s1(1)] s1(2)] obtain s' where s': "so' = Some s'" "store_ok s'"
      "subseq (accounted s') (accounted s1 @ written es)"
      "st_chClosed s1 \<longrightarrow> st_chClosed s'" "st_poolOpen s' \<longrightarrow> st_poolOpen s1" by blast
  have "subseq (accounted s1 @ written es) ((accounted s @ written [e]) @ written es)"
    using s1(3) by (rule list_emb_append_mono) simp
  with s'(3) have "subseq (accounted s') ((accounted s @ written [e]) @ written es)"
    by (rule subseq_order.order_trans)
  moreover have "(accounted s @ written [e]) @ written es = accounted s @ written (e # es)"
    by (simp split: option.split)
  ultimately show ?case using s' s1 by auto
qed

text \<open>No loss while the channel has room and the database takes every row.\<close>

lemma store_step_lossless:
  assumes "store_step exec e (Some s) = Inr so'" "store_ok s" "st_poolOpen s" "e \<noteq> Shut"
    and "\<And>j. exec True j" "length (st_ch s) + length (written [e]) \<le> chan_cap"
  shows "\<exists>s'. so' = Some s' \<and> accounted s' = accounted s @ written [e] \<and> st_poolOpen s' \<and>
    length (st_ch s') \<le> length (st_ch s) + length (written [e])"
proof (cases "event_job e")
  case (Some j)
  with assms show ?thesis
    by (auto simp: store_step_put write_to_def try_send_def accounted_def split: if_splits)
next
  case None
  with assms(4) have w: "e = Work" by (cases e) auto
  show ?thesis
  proof (cases "st_ch s")
    case Nil
    with w assms show ?thesis by (auto simp: worker_step_def)
  next
    case (Cons j js)
    with assms w have "so' = Some (insert_row exec j (s\<lparr>st_ch := js\<rparr>))"
      by (auto simp: worker_proper store_ok_def)
    with Cons assms w show ?thesis by (auto simp: insert_row_def accounted_def)
  qed
qed

lemma store_run_lossless:
  "store_run exec es (Some s) = Inr so' \<Longrightarrow> store_ok s \<Longrightarrow> st_poolOpen s \<Longrightarrow> Shut \<notin> set es \<Longrightarrow>
     (\<And>j. exec True j) \<Longrightarrow> length (st_ch s) + length (written es) \<le> chan_cap \<Longrightarrow>
     \<exists>s'. so' = Some s' \<and> accounted s' = accounted s @ written es"
proof (induction es arbitrary: s)
  case Nil
  then show ?case by auto
next
  case (Cons e es)
  from Cons.prems obtain so1 where e: "store_step exec e (Some s) = Inr so1"
    and r: "store_run exec es so1 = Inr so'" by (auto split: sum.splits)
  have len: "length (written (e # es)) = length (written [e]) + length (written es)"
    and app: "written (e # es) = written [e] @ written es" by (simp_all split: option.split)
  have "e \<noteq> Shut" "length (st_ch s) + length (written [e]) \<le> chan_cap" using Cons.prems len by auto
  from store_step_lossless [OF e Cons.prems(2,3) this(1) Cons.prems(5) this(2)] obtain s1
    where s1: "so1 = Some s1" "accounted s1 = accounted s @ written [e]" "st_poolOpen s1"
      "length (st_ch s1) \<le> length (st_ch s) + length (written [e])" by blast
  moreover have "store_ok s1" using store_step_account [OF e Cons.prems(2)] s1(1) by auto
  moreover have "length (st_ch s1) + length (written es) \<le> chan_cap"
    using s1(4) Cons.prems(6) len by linarith
  ultimately show ?case using Cons.IH [of s1] r Cons.prems(4,5) app by auto
qed

text \<open>A closed pool takes nothing: the documented behaviour of \<open>pgxpool\<close> after \<open>Close\<close>.\<close>

definition closed_pool_fails :: "(bool \<Rightarrow> writeJob \<Rightarrow> bool) \<Rightarrow> bool" where
  "closed_pool_fails exec \<longleftrightarrow> (\<forall>j. \<not> exec False j)"

lemma store_step_closed_pool:
  assumes "store_step exec e (Some s) = Inr so'" "store_ok s" "\<not> st_poolOpen s" "closed_pool_fails exec"
  shows "\<exists>s'. so' = Some s' \<and> st_db s' = st_db s"
proof (cases "event_job e")
  case (Some j)
  with assms show ?thesis
    by (auto simp: store_step_put write_to_def try_send_def split: if_splits)
next
  case None
  then consider "e = Work" | "e = Shut" by (cases e) auto
  then show ?thesis
  proof cases
    case 1
    then show ?thesis
    proof (cases "st_ch s")
      case Nil
      with 1 assms show ?thesis by (auto simp: worker_step_def)
    next
      case (Cons j js)
      with assms 1 have "so' = Some (insert_row exec j (s\<lparr>st_ch := js\<rparr>))"
        by (auto simp: worker_proper store_ok_def)
      with assms show ?thesis by (auto simp: insert_row_def closed_pool_fails_def)
    qed
  next
    case 2
    with assms show ?thesis by (auto simp: CloseStore_def split: if_splits)
  qed
qed

lemma store_run_closed_pool:
  "store_run exec es (Some s) = Inr so' \<Longrightarrow> store_ok s \<Longrightarrow> \<not> st_poolOpen s \<Longrightarrow> closed_pool_fails exec \<Longrightarrow>
     \<exists>s'. so' = Some s' \<and> st_db s' = st_db s"
proof (induction es arbitrary: s)
  case Nil
  then show ?case by auto
next
  case (Cons e es)
  from Cons.prems obtain so1 where e: "store_step exec e (Some s) = Inr so1"
    and r: "store_run exec es so1 = Inr so'" by (auto split: sum.splits)
  from store_step_closed_pool [OF e Cons.prems(2-4)] obtain s1
    where s1: "so1 = Some s1" "st_db s1 = st_db s" by blast
  from store_step_account [OF e Cons.prems(2)] s1(1) Cons.prems(3)
  have "store_ok s1" "\<not> st_poolOpen s1" by auto
  with Cons.IH [of s1] r s1 Cons.prems(4) show ?case by auto
qed

section \<open>Connecting\<close>

definition second :: int where "second = 1000000000"

text \<open>
  \<open>connectStore\<close>: \<open>attempt k\<close> is what the \<open>k\<close>-th pool creation and ping return,
  \<open>took k\<close> how long they take, \<open>ctxDone k\<close> whether the context ends during the wait
  after it. Outer \<open>None\<close>: out of fuel.
\<close>

fun connect_loop ::
  "nat \<Rightarrow> (nat \<Rightarrow> bool \<times> bool) \<Rightarrow> (nat \<Rightarrow> int) \<Rightarrow> (nat \<Rightarrow> bool) \<Rightarrow> string \<Rightarrow> int \<Rightarrow> nat \<Rightarrow> int \<Rightarrow> int
     \<Rightarrow> Store option option" where
  "connect_loop 0 attempt took ctxDone dsn deadline k now backoff = None"
| "connect_loop (Suc n) attempt took ctxDone dsn deadline k now backoff =
     (let t = now + took k in
      case NewStore dsn (fst (attempt k)) (snd (attempt k)) of
        Inr st \<Rightarrow> Some st
      | Inl e \<Rightarrow>
          if deadline < t then Some None
          else if ctxDone k then Some None
          else connect_loop n attempt took ctxDone dsn deadline (Suc k) (t + backoff)
                 (if backoff < 16 * second then backoff * 2 else backoff))"

definition connectStore ::
  "nat \<Rightarrow> (nat \<Rightarrow> bool \<times> bool) \<Rightarrow> (nat \<Rightarrow> int) \<Rightarrow> (nat \<Rightarrow> bool) \<Rightarrow> string \<Rightarrow> int \<Rightarrow> Store option option" where
  "connectStore fuel attempt took ctxDone dsn now =
     (if dsn = [] then Some None
      else connect_loop fuel attempt took ctxDone dsn (now + 90 * second) 0 now (2 * second))"

section \<open>Sample rows\<close>

definition test_raw :: RawMetricRow where
  "test_raw = \<lparr>rr_SessionID = ''s'', rr_SandboxID = [], rr_OrderID = ''o1'', rr_Archetype = ''noise'',
     rr_AppRTTNS = 100, rr_KernelRTTNS = 0, rr_FillCorrect = True, rr_FillPrice = Num False 100,
     rr_FillQty = 1, rr_ReplaySeq = 0\<rparr>"

definition test_score :: CompositeScoreRow where
  "test_score = (let z = Num False 0 in
     \<lparr>cr_SessionID = ''s'', cr_TeamName = ''t'', cr_P50NS = z, cr_P90NS = z, cr_P99NS = z,
      cr_P999NS = z, cr_TPS = z, cr_PeakTPS = z, cr_FillAccuracy = z, cr_PriceTimeViolations = 0,
      cr_RecoveryTimeMS = z, cr_DegradationRatio = z, cr_ThroughputScore = z, cr_TailLatencyScore = z,
      cr_CorrectnessScore = z, cr_ResilienceScore = z, cr_TotalScore = z\<rparr>)"

text \<open>After \<open>n\<close> waits the clock is \<open>waited n\<close> further on.\<close>

fun backoff_at :: "nat \<Rightarrow> int" where
  "backoff_at 0 = 2 * second"
| "backoff_at (Suc k) = (if backoff_at k < 16 * second then backoff_at k * 2 else backoff_at k)"

fun waited :: "nat \<Rightarrow> int" where
  "waited 0 = 0"
| "waited (Suc k) = waited k + backoff_at k"

lemma connect_loop_ends:
  assumes "\<And>i. 0 \<le> took i" "deadline < t0 + waited (k + n)" "t0 + waited k \<le> now" "dsn \<noteq> []"
  shows "connect_loop (Suc n) attempt took ctxDone dsn deadline k now (backoff_at k) \<noteq> None"
  using assms(2,3)
proof (induction n arbitrary: k now)
  case 0
  then have "deadline < now + took k" using assms(1) [of k] by simp
  with assms(4) show ?case by (simp add: Let_def split: sum.split)
next
  case (Suc n)
  have "t0 + waited (Suc k) \<le> now + took k + backoff_at k" using Suc.prems assms(1) [of k] by simp
  then have "connect_loop (Suc n) attempt took ctxDone dsn deadline (Suc k) (now + took k + backoff_at k)
      (backoff_at (Suc k)) \<noteq> None"
    using Suc.IH [of "Suc k" "now + took k + backoff_at k"] Suc.prems(1) by simp
  then show ?case
    by (subst connect_loop.simps(2), subst (asm) backoff_at.simps(2))
      (auto simp: Let_def simp del: connect_loop.simps split: sum.split)
qed

lemma waited_8: "waited 8 = 94 * second"
  by (simp add: eval_nat_numeral second_def)

section \<open>Properties\<close>



text \<open>
  C40. The connection loop ends: whatever the attempts return and however long they take,
  nine of them are enough, since the eight waits between them add up to 94 seconds and the
  loop gives up after 90. It returns the fresh store when the first attempt succeeds.
\<close>

theorem connectStore_ends_within_nine_attempts:
  assumes "\<forall>i. 0 \<le> took i"
  shows "\<exists>st. connectStore 9 attempt took ctxDone dsn now = Some st \<and>
    (dsn \<noteq> [] \<and> attempt 0 = (True, True) \<longrightarrow> NewStore dsn True True = Inr st)"
proof (cases "dsn = []")
  case False
  have "now + 90 * second < now + waited (0 + 8)" by (simp add: waited_8 second_def)
  from connect_loop_ends [OF _ this _ False, of took now attempt ctxDone] assms
  have "connect_loop 9 attempt took ctxDone dsn (now + 90 * second) 0 now (2 * second) \<noteq> None" by simp
  moreover have "connect_loop 9 attempt took ctxDone dsn (now + 90 * second) 0 now (2 * second) = Some st"
    if "attempt 0 = (True, True)" "NewStore dsn True True = Inr st" for st
    using that by (simp add: eval_nat_numeral)
  moreover have "\<exists>st. NewStore dsn True True = Inr st" by (simp add: NewStore_def)
  ultimately show ?thesis using False by (auto simp: connectStore_def)
qed (simp add: connectStore_def)

theorem connectStore_ends_within_nine_attempts_witness:
  "\<exists>st. connectStore 9 (\<lambda>_. (False, False)) (\<lambda>_. 0) (\<lambda>_. False) ''dsn'' 0 = Some st"
  using connectStore_ends_within_nine_attempts [of "\<lambda>_. 0" "\<lambda>_. (False, False)" "\<lambda>_. False" "''dsn''" 0] by auto

text \<open>
  \<open>Close\<close> does not drain the queue: the pool is closed with it, so no row that was still
  in the channel, and none the worker takes off it afterwards, is ever inserted.
\<close>

theorem Close_loses_the_queue:
  assumes "NewStore dsn True True = Inr (Some s0)" "store_run exec es (Some s0) = Inr (Some s)"
    and "CloseStore (Some s) = Inr (Some s1)" "closed_pool_fails exec"
    and "store_run exec later (Some s1) = Inr (Some s2)"
  shows "st_db s2 = st_db s"
proof -
  have "s0 = \<lparr>st_ch = [], st_chClosed = False, st_poolOpen = True, st_db = []\<rparr>"
    using assms(1) by (auto simp: NewStore_def split: if_splits)
  then have "store_ok s0" by (simp add: store_ok_def)
  from store_run_account [OF assms(2) this] have "store_ok s" by auto
  with assms(3) have "store_ok s1" "\<not> st_poolOpen s1" "st_db s1 = st_db s"
    by (auto simp: CloseStore_def store_ok_def split: if_splits)
  with store_run_closed_pool [OF assms(5) _ _ assms(4)] show ?thesis by auto
qed

theorem Close_loses_the_queue_witness:
  "st_db (\<lparr>st_ch = [], st_chClosed = True, st_poolOpen = False, st_db = []\<rparr> :: Store) = []"
proof -
  have 1: "NewStore ''d'' True True =
      Inr (Some \<lparr>st_ch = [], st_chClosed = False, st_poolOpen = True, st_db = []\<rparr>)"
    by (simp add: NewStore_def)
  have 2: "store_run (\<lambda>open j. open) [PutRaw test_raw]
      (Some \<lparr>st_ch = [], st_chClosed = False, st_poolOpen = True, st_db = []\<rparr>) =
    Inr (Some \<lparr>st_ch = [raw_job test_raw], st_chClosed = False, st_poolOpen = True, st_db = []\<rparr>)"
    by (simp add: WriteRawMetric_def write_to_def try_send_def chan_cap_def)
  have 3: "CloseStore (Some \<lparr>st_ch = [raw_job test_raw], st_chClosed = False, st_poolOpen = True, st_db = []\<rparr>) =
      Inr (Some \<lparr>st_ch = [raw_job test_raw], st_chClosed = True, st_poolOpen = False, st_db = []\<rparr>)"
    by (simp add: CloseStore_def)
  have 4: "closed_pool_fails (\<lambda>open j. open)" by (simp add: closed_pool_fails_def)
  have 5: "store_run (\<lambda>open j. open) [Work]
      (Some \<lparr>st_ch = [raw_job test_raw], st_chClosed = True, st_poolOpen = False, st_db = []\<rparr>) =
    Inr (Some \<lparr>st_ch = [], st_chClosed = True, st_poolOpen = False, st_db = []\<rparr>)"
    by (simp add: worker_step_def insert_row_def raw_job_def)
  from Close_loses_the_queue [OF 1 2 3 4 5] show ?thesis by simp
qed

end
