(* ===== verification/Histogram.thy ===== *)
theory Histogram
  imports Float64
begin

text \<open>
  \<open>telemetry/internal/scorer/hdr.go\<close>: a pair of HDR histograms. The histogram itself is a
  third-party package; its operations are the record \<open>hdr_lib\<close> the definitions take, and
  what its documentation promises of them is \<open>hdr_laws\<close>.
\<close>

section \<open>The histogram package\<close>

record 'h hdr_lib =
  hd_New :: "int64 \<Rightarrow> int64 \<Rightarrow> int64 \<Rightarrow> 'h"
  hd_RecordValue :: "int64 \<Rightarrow> 'h \<Rightarrow> 'h"
  hd_ValueAtQuantile :: "rat \<Rightarrow> 'h \<Rightarrow> int64"
  hd_TotalCount :: "'h \<Rightarrow> int64"
  hd_Reset :: "'h \<Rightarrow> 'h"

text \<open>A fresh or reset histogram is empty, a positive value in its range adds one to the
  count, the count is never negative and one recording adds at most one; quantiles are
  non-negative \<open>int64\<close> values, growing with the quantile.\<close>

definition hdr_laws :: "'h hdr_lib \<Rightarrow> bool" where
  "hdr_laws L \<longleftrightarrow>
     (\<forall>lo hi d. hd_TotalCount L (hd_New L lo hi d) = 0) \<and>
     (\<forall>h. hd_TotalCount L (hd_Reset L h) = 0) \<and>
     (\<forall>h v. hd_TotalCount L (hd_RecordValue L v h) \<in> {hd_TotalCount L h, hd_TotalCount L h + 1}) \<and>
     (\<forall>lo hi d vs v. lo \<le> v \<longrightarrow> v \<le> hi \<longrightarrow>
        hd_TotalCount L (hd_RecordValue L v (foldl (\<lambda>h x. hd_RecordValue L x h) (hd_New L lo hi d) vs)) =
        hd_TotalCount L (foldl (\<lambda>h x. hd_RecordValue L x h) (hd_New L lo hi d) vs) + 1) \<and>
     (\<forall>q h. 0 \<le> hd_ValueAtQuantile L q h \<and> in64 (hd_ValueAtQuantile L q h)) \<and>
     (\<forall>q q' h. q \<le> q' \<longrightarrow> hd_ValueAtQuantile L q h \<le> hd_ValueAtQuantile L q' h)"

section \<open>The pair\<close>

definition minLatencyNS :: int64 where "minLatencyNS = 1"
definition maxLatencyNS :: int64 where "maxLatencyNS = 10000000000"
definition sigFigs :: int64 where "sigFigs = 3"

record 'h LatencyHistogram =
  lh_app :: 'h
  lh_kernel :: 'h

definition NewLatencyHistogram :: "'h hdr_lib \<Rightarrow> 'h LatencyHistogram" where
  "NewLatencyHistogram L =
     \<lparr>lh_app = hd_New L minLatencyNS maxLatencyNS sigFigs,
      lh_kernel = hd_New L minLatencyNS maxLatencyNS sigFigs\<rparr>"

definition RecordApp :: "'h hdr_lib \<Rightarrow> int64 \<Rightarrow> 'h LatencyHistogram \<Rightarrow> 'h LatencyHistogram" where
  "RecordApp L ns h = (if ns \<le> 0 then h else h\<lparr>lh_app := hd_RecordValue L ns (lh_app h)\<rparr>)"

definition RecordKernel :: "'h hdr_lib \<Rightarrow> int64 \<Rightarrow> 'h LatencyHistogram \<Rightarrow> 'h LatencyHistogram" where
  "RecordKernel L ns h = (if ns \<le> 0 then h else h\<lparr>lh_kernel := hd_RecordValue L ns (lh_kernel h)\<rparr>)"

definition AppPercentiles ::
  "'h hdr_lib \<Rightarrow> 'h LatencyHistogram \<Rightarrow> float64 \<times> float64 \<times> float64 \<times> float64" where
  "AppPercentiles L h =
     (f_of_int (hd_ValueAtQuantile L 50 (lh_app h)),
      f_of_int (hd_ValueAtQuantile L 90 (lh_app h)),
      f_of_int (hd_ValueAtQuantile L 99 (lh_app h)),
      f_of_int (hd_ValueAtQuantile L (999/10) (lh_app h)))"

definition KernelPercentiles ::
  "'h hdr_lib \<Rightarrow> 'h LatencyHistogram \<Rightarrow> float64 \<times> float64 \<times> float64 \<times> float64" where
  "KernelPercentiles L h =
     (if hd_TotalCount L (lh_kernel h) = 0 then
        (f_of_int (hd_ValueAtQuantile L 50 (lh_app h)),
         f_of_int (hd_ValueAtQuantile L 90 (lh_app h)),
         f_of_int (hd_ValueAtQuantile L 99 (lh_app h)),
         f_of_int (hd_ValueAtQuantile L (999/10) (lh_app h)))
      else
        (f_of_int (hd_ValueAtQuantile L 50 (lh_kernel h)),
         f_of_int (hd_ValueAtQuantile L 90 (lh_kernel h)),
         f_of_int (hd_ValueAtQuantile L 99 (lh_kernel h)),
         f_of_int (hd_ValueAtQuantile L (999/10) (lh_kernel h))))"

definition HistTotalCount :: "'h hdr_lib \<Rightarrow> 'h LatencyHistogram \<Rightarrow> int64" where
  "HistTotalCount L h = hd_TotalCount L (lh_app h)"

definition HistReset :: "'h hdr_lib \<Rightarrow> 'h LatencyHistogram \<Rightarrow> 'h LatencyHistogram" where
  "HistReset L h = \<lparr>lh_app = hd_Reset L (lh_app h), lh_kernel = hd_Reset L (lh_kernel h)\<rparr>"

section \<open>An exact histogram\<close>

text \<open>A list of values with nearest-rank quantiles satisfies the laws.\<close>

definition rank_value :: "rat \<Rightarrow> int list \<Rightarrow> int64" where
  "rank_value q vs =
     (let xs = sort (filter (\<lambda>v. 0 \<le> v \<and> in64 v) vs); k = nat \<lceil>q / 100 * of_nat (length xs)\<rceil>
      in if xs = [] then 0 else xs ! min (k - 1) (length xs - 1))"

definition list_hdr :: "int list hdr_lib" where
  "list_hdr = \<lparr>hd_New = (\<lambda>lo hi d. []), hd_RecordValue = (\<lambda>v vs. vs @ [v]), hd_ValueAtQuantile = rank_value,
     hd_TotalCount = (\<lambda>vs. int (length vs)), hd_Reset = (\<lambda>vs. [])\<rparr>"

lemma rank_value_range: "0 \<le> rank_value q vs \<and> in64 (rank_value q vs)"
proof -
  let ?xs = "sort (filter (\<lambda>v. 0 \<le> v \<and> in64 v) vs)"
  show ?thesis
  proof (cases "?xs = []")
    case False
    then have "0 < length ?xs" by (simp del: length_sort)
    then have "?xs ! min (nat \<lceil>q / 100 * of_nat (length ?xs)\<rceil> - 1) (length ?xs - 1) \<in> set ?xs"
      by (intro nth_mem) linarith
    with False show ?thesis by (auto simp: rank_value_def Let_def)
  qed (simp add: rank_value_def)
qed

lemma sorted_clamped_nth:
  "sorted xs \<Longrightarrow> xs \<noteq> [] \<Longrightarrow> i \<le> j \<Longrightarrow> xs ! min i (length xs - 1) \<le> xs ! min j (length xs - 1)"
  by (rule sorted_nth_mono) (auto simp: min_def neq_Nil_conv)

lemma rank_value_mono:
  assumes "q \<le> q'"
  shows "rank_value q vs \<le> rank_value q' vs"
proof -
  let ?xs = "sort (filter (\<lambda>v. 0 \<le> v \<and> in64 v) vs)"
  let ?k = "\<lambda>q. nat \<lceil>q / 100 * of_nat (length ?xs)\<rceil>"
  show ?thesis
  proof (cases "?xs = []")
    case False
    have "q / 100 * rat_of_nat (length ?xs) \<le> q' / 100 * rat_of_nat (length ?xs)"
      using assms by (intro mult_right_mono divide_right_mono) simp_all
    then have "?k q - 1 \<le> ?k q' - 1" by (intro diff_le_mono nat_mono ceiling_mono)
    with False have "?xs ! min (?k q - 1) (length ?xs - 1) \<le> ?xs ! min (?k q' - 1) (length ?xs - 1)"
      by (intro sorted_clamped_nth) simp_all
    with False show ?thesis by (simp add: rank_value_def Let_def)
  qed (simp add: rank_value_def)
qed

lemma list_hdr_laws: "hdr_laws list_hdr"
  using rank_value_range rank_value_mono by (simp add: hdr_laws_def list_hdr_def)

section \<open>Lemmas\<close>

lemma quantile_fin: "hdr_laws L \<Longrightarrow> is_fin (f_of_int (hd_ValueAtQuantile L q h))"
  by (auto simp: hdr_laws_def intro: f_of_int_is_num)

lemma quantile_nonneg: "hdr_laws L \<Longrightarrow> 0 \<le> hd_ValueAtQuantile L q h"
  by (simp add: hdr_laws_def)

lemma KernelPercentiles_source:
  "\<exists>g. KernelPercentiles L h =
     (f_of_int (hd_ValueAtQuantile L 50 g), f_of_int (hd_ValueAtQuantile L 90 g),
      f_of_int (hd_ValueAtQuantile L 99 g), f_of_int (hd_ValueAtQuantile L (999/10) g))"
  by (auto simp: KernelPercentiles_def)

end
