(* ===== verification/Consumer.thy ===== *)
theory Consumer
  imports Store "HOL-Library.Word"
begin

text \<open>
  \<open>telemetry/internal/consumer/consumer.go\<close>: the three reader loops. Kafka and the JSON
  decoder are not part of the sources: a loop's input is the sequence of what its
  \<open>select\<close> or its \<open>ReadMessage\<close> returns, a message being the decoded value or \<open>None\<close>
  when it does not decode. The world the handler and the store act on is a type
  variable; the Go interface \<open>Handler\<close> is the locale \<open>metric_handler\<close>.
\<close>

section \<open>Messages\<close>

record RawMetric =
  rm_SessionID :: string
  rm_TeamName :: string
  rm_SandboxID :: string
  rm_OrderID :: string
  rm_Archetype :: string
  rm_AppRTTNS :: int64
  rm_KernelRTTNS :: int64
  rm_Correct :: bool
  rm_FillPrice :: float64
  rm_FillQty :: int64
  rm_EmittedNS :: int64
  rm_ReplaySeq :: int64
  rm_ActiveBots :: int32

record ChaosEvent =
  ce_SessionID :: string
  ce_SandboxID :: string
  ce_EventType :: string
  ce_FaultType :: string
  ce_TimestampNS :: int64

record KernelEvent =
  ke_SessionID :: string
  ke_SandboxID :: string
  ke_RTTNS :: "64 word"
  ke_IngressNS :: "64 word"
  ke_EgressNS :: "64 word"
  ke_SrcIP :: string
  ke_DstIP :: string
  ke_SrcPort :: int64
  ke_DstPort :: int64

section \<open>The metrics loop\<close>

text \<open>What one round of the loop meets: the context is done, the ticker fired, or
  \<open>ReadMessage\<close> returned.\<close>

datatype metrics_input = CtxEnd | Ticked | Got "RawMetric option" | ReadFailed

definition batch_cap :: nat where "batch_cap = 64"

text \<open>\<open>flush\<close>: the handler's error is only logged, and the batch is emptied either way.\<close>

definition flush :: "('w \<Rightarrow> RawMetric list \<Rightarrow> 'w) \<Rightarrow> RawMetric list \<Rightarrow> 'w \<Rightarrow> 'w \<times> RawMetric list" where
  "flush handle batch w = (if length batch = 0 then (w, batch) else (handle w batch, []))"

text \<open>The loop returns the world and the batch that is dropped with the loop's frame.\<close>

fun readMetrics ::
  "('w \<Rightarrow> RawMetric list \<Rightarrow> 'w) \<Rightarrow> metrics_input list \<Rightarrow> RawMetric list \<Rightarrow> 'w \<Rightarrow> 'w \<times> RawMetric list" where
  "readMetrics handle [] batch w = (w, batch)"
| "readMetrics handle (CtxEnd # es) batch w = flush handle batch w"
| "readMetrics handle (Ticked # es) batch w =
     (case flush handle batch w of (w', batch') \<Rightarrow> readMetrics handle es batch' w')"
| "readMetrics handle (ReadFailed # es) batch w = (w, batch)"
| "readMetrics handle (Got None # es) batch w = readMetrics handle es batch w"
| "readMetrics handle (Got (Some m) # es) batch w =
     (let batch1 = batch @ [m] in
      if batch_cap \<le> length batch1
      then (case flush handle batch1 w of (w', batch') \<Rightarrow> readMetrics handle es batch' w')
      else readMetrics handle es batch1 w)"

section \<open>The kernel and the event loops\<close>

definition int64_of :: "64 word \<Rightarrow> int64" where
  "int64_of x = sint x"

definition kernel_row :: "KernelEvent \<Rightarrow> KernelLatencyRow" where
  "kernel_row ev =
     \<lparr>kr_SessionID = ke_SessionID ev, kr_SandboxID = ke_SandboxID ev, kr_SrcIP = ke_SrcIP ev,
      kr_DstIP = ke_DstIP ev, kr_SrcPort = ke_SrcPort ev, kr_DstPort = ke_DstPort ev,
      kr_RTTNS = int64_of (ke_RTTNS ev), kr_IngressNS = int64_of (ke_IngressNS ev),
      kr_EgressNS = int64_of (ke_EgressNS ev)\<rparr>"

definition kernel_metric :: "KernelEvent \<Rightarrow> RawMetric" where
  "kernel_metric ev =
     \<lparr>rm_SessionID = ke_SessionID ev, rm_TeamName = [], rm_SandboxID = ke_SandboxID ev, rm_OrderID = [],
      rm_Archetype = [], rm_AppRTTNS = 0, rm_KernelRTTNS = int64_of (ke_RTTNS ev), rm_Correct = False,
      rm_FillPrice = Num False 0, rm_FillQty = 0, rm_EmittedNS = 0, rm_ReplaySeq = 0, rm_ActiveBots = 0\<rparr>"

text \<open>\<open>None\<close> in the input is a failed read, \<open>Some None\<close> a message that does not decode.\<close>

fun readEBPF ::
  "(KernelLatencyRow \<Rightarrow> 'w \<Rightarrow> 'w) \<Rightarrow> ('w \<Rightarrow> RawMetric list \<Rightarrow> 'w) \<Rightarrow> KernelEvent option option list \<Rightarrow> 'w \<Rightarrow> 'w" where
  "readEBPF wr handle [] w = w"
| "readEBPF wr handle (None # es) w = w"
| "readEBPF wr handle (Some None # es) w = readEBPF wr handle es w"
| "readEBPF wr handle (Some (Some ev) # es) w =
     readEBPF wr handle es (handle (wr (kernel_row ev) w) [kernel_metric ev])"

fun readEvents :: "('w \<Rightarrow> ChaosEvent \<Rightarrow> 'w) \<Rightarrow> ChaosEvent option option list \<Rightarrow> 'w \<Rightarrow> 'w" where
  "readEvents hc [] w = w"
| "readEvents hc (None # es) w = w"
| "readEvents hc (Some None # es) w = readEvents hc es w"
| "readEvents hc (Some (Some ev) # es) w =
     (if ce_EventType ev \<noteq> ''chaos_start'' \<and> ce_EventType ev \<noteq> ''chaos_end'' then readEvents hc es w
      else readEvents hc es (hc w ev))"

section \<open>The batches\<close>

text \<open>The batches handed over and the one dropped do not depend on the handler.\<close>

fun batches :: "metrics_input list \<Rightarrow> RawMetric list \<Rightarrow> RawMetric list list \<times> RawMetric list" where
  "batches [] b = ([], b)"
| "batches (CtxEnd # es) b = (if b = [] then ([], []) else ([b], []))"
| "batches (Ticked # es) b =
     (if b = [] then batches es b else (let r = batches es [] in (b # fst r, snd r)))"
| "batches (ReadFailed # es) b = ([], b)"
| "batches (Got None # es) b = batches es b"
| "batches (Got (Some m) # es) b =
     (if batch_cap \<le> length b + 1 then (let r = batches es [] in ((b @ [m]) # fst r, snd r))
      else batches es (b @ [m]))"

lemma readMetrics_batches:
  "readMetrics handle es b w = (foldl handle w (fst (batches es b)), snd (batches es b))"
  by (induction handle es b w rule: readMetrics.induct) (simp_all add: flush_def Let_def)

text \<open>The messages read before the loop ends, decoded.\<close>

fun read_upto :: "metrics_input list \<Rightarrow> RawMetric list" where
  "read_upto [] = []"
| "read_upto (CtxEnd # es) = []"
| "read_upto (ReadFailed # es) = []"
| "read_upto (Ticked # es) = read_upto es"
| "read_upto (Got None # es) = read_upto es"
| "read_upto (Got (Some m) # es) = m # read_upto es"

lemma batches_concat: "concat (fst (batches es b)) @ snd (batches es b) = b @ read_upto es"
  by (induction es b rule: batches.induct) (simp_all add: Let_def)

lemma batches_sizes:
  "length b < batch_cap \<Longrightarrow>
     (\<forall>x \<in> set (fst (batches es b)). 0 < length x \<and> length x \<le> batch_cap) \<and>
     length (snd (batches es b)) < batch_cap"
proof (induction es arbitrary: b)
  case (Cons e es)
  have 0: "length ([] :: RawMetric list) < batch_cap" by (simp add: batch_cap_def)
  note IH = Cons.IH [OF Cons.prems] Cons.IH [OF 0]
  show ?case
  proof (cases e)
    case CtxEnd
    with Cons.prems show ?thesis by (cases b) simp_all
  next
    case Ticked
    with Cons.prems IH show ?thesis by (cases b) (simp_all add: Let_def)
  next
    case (Got x)
    show ?thesis
    proof (cases x)
      case None
      with Got IH show ?thesis by simp
    next
      case (Some m)
      show ?thesis
      proof (cases "batch_cap \<le> length b + 1")
        case True
        with Got Some IH Cons.prems show ?thesis by (simp add: Let_def)
      next
        case False
        then have "length (b @ [m]) < batch_cap" by simp
        from Cons.IH [OF this] False Got Some show ?thesis by simp
      qed
    qed
  next
    case ReadFailed
    with Cons.prems show ?thesis by simp
  qed
qed simp

text \<open>The way the loop ends decides whether the last batch is lost.\<close>

fun ends_by_ctx :: "metrics_input list \<Rightarrow> bool" where
  "ends_by_ctx [] = False"
| "ends_by_ctx (CtxEnd # es) = True"
| "ends_by_ctx (ReadFailed # es) = False"
| "ends_by_ctx (e # es) = ends_by_ctx es"

lemma batches_ctx: "ends_by_ctx es \<Longrightarrow> snd (batches es b) = []"
  by (induction es b rule: batches.induct) (simp_all add: Let_def)

section \<open>Interleavings\<close>

text \<open>
  The three loops run side by side and every call of the handler or of the store is atomic
  (a mutex or a channel operation). What they do to the shared world is some sequence of
  these calls.
\<close>

datatype handler_call = CallBatch "RawMetric list" | CallKernel KernelEvent | CallChaos ChaosEvent

fun do_call ::
  "('w \<Rightarrow> RawMetric list \<Rightarrow> 'w) \<Rightarrow> ('w \<Rightarrow> ChaosEvent \<Rightarrow> 'w) \<Rightarrow> (KernelLatencyRow \<Rightarrow> 'w \<Rightarrow> 'w) \<Rightarrow> 'w \<Rightarrow> handler_call \<Rightarrow> 'w"
where
  "do_call handle hc wr w (CallBatch ms) = handle w ms"
| "do_call handle hc wr w (CallKernel ev) = handle (wr (kernel_row ev) w) [kernel_metric ev]"
| "do_call handle hc wr w (CallChaos ev) = hc w ev"

fun call_metrics :: "handler_call \<Rightarrow> nat" where
  "call_metrics (CallBatch ms) = length ms"
| "call_metrics (CallKernel ev) = 1"
| "call_metrics (CallChaos ev) = 0"

section \<open>The handler interface\<close>

text \<open>
  What the loops may rely on: the three operations keep an invariant of the world, which
  may count the metrics handled so far. The loops then keep it, whatever arrives.
\<close>

locale metric_handler =
  fixes handle :: "'w \<Rightarrow> RawMetric list \<Rightarrow> 'w"
    and handle_chaos :: "'w \<Rightarrow> ChaosEvent \<Rightarrow> 'w"
    and write_kernel :: "KernelLatencyRow \<Rightarrow> 'w \<Rightarrow> 'w"
    and inv :: "nat \<Rightarrow> 'w \<Rightarrow> bool"
  assumes handle_inv: "inv n w \<Longrightarrow> inv (n + length ms) (handle w ms)"
    and chaos_inv: "inv n w \<Longrightarrow> inv n (handle_chaos w ev)"
    and write_inv: "inv n w \<Longrightarrow> inv n (write_kernel r w)"
    and inv_mono: "inv n w \<Longrightarrow> n \<le> m \<Longrightarrow> inv m w"
begin

lemma foldl_handle_inv: "inv n w \<Longrightarrow> inv (n + length (concat bs)) (foldl handle w bs)"
proof (induction bs arbitrary: n w)
  case (Cons b bs)
  from Cons.IH [OF handle_inv [OF Cons.prems, of b]] show ?case by (simp add: add.assoc)
qed simp

lemma do_call_inv: "inv n w \<Longrightarrow> inv (n + call_metrics c) (do_call handle handle_chaos write_kernel w c)"
proof (cases c)
  case (CallKernel ev)
  assume "inv n w"
  from handle_inv [OF write_inv [OF this], where ms = "[kernel_metric ev]"] CallKernel show ?thesis by simp
qed (simp_all add: handle_inv chaos_inv)

lemma calls_inv:
  "inv n w \<Longrightarrow> inv (n + sum_list (map call_metrics cs)) (foldl (do_call handle handle_chaos write_kernel) w cs)"
proof (induction cs arbitrary: n w)
  case (Cons c cs)
  from Cons.IH [OF do_call_inv [OF Cons.prems, of c]] show ?case by (simp add: add.assoc)
qed simp

lemma readMetrics_inv:
  assumes "inv n w"
  shows "inv (n + length b + length (read_upto es)) (fst (readMetrics handle es b w))"
proof -
  have "length (concat (fst (batches es b))) \<le> length b + length (read_upto es)"
    using arg_cong [OF batches_concat [of es b], of length] by simp
  then show ?thesis
    using inv_mono [OF foldl_handle_inv [OF assms]] by (simp add: readMetrics_batches add.assoc)
qed

lemma readEBPF_inv: "inv n w \<Longrightarrow> inv (n + length es) (readEBPF write_kernel handle es w)"
proof (induction es arbitrary: n w)
  case (Cons e es)
  have step: "inv (Suc n + length es) (readEBPF write_kernel handle es w')" if "inv n w'" for w'
    by (rule Cons.IH [OF inv_mono [OF that]]) simp
  show ?case
  proof (cases e)
    case None
    with Cons.prems inv_mono [of n w "n + length (e # es)"] show ?thesis by simp
  next
    case (Some x)
    show ?thesis
    proof (cases x)
      case None
      with Some step [OF Cons.prems] show ?thesis by simp
    next
      case ev: (Some ev)
      have "inv (n + length [kernel_metric ev])
          (handle (write_kernel (kernel_row ev) w) [kernel_metric ev])"
        by (intro handle_inv write_inv Cons.prems)
      from Cons.IH [OF this] show ?thesis using Some ev by simp
    qed
  qed
qed simp

lemma readEvents_inv: "inv n w \<Longrightarrow> inv n (readEvents handle_chaos es w)"
proof (induction es arbitrary: w)
  case (Cons e es)
  then show ?case by (cases e rule: option.exhaust; cases "the e") (simp_all add: chaos_inv)
qed simp

end

section \<open>A sample metric\<close>

definition test_metric :: RawMetric where
  "test_metric =
     \<lparr>rm_SessionID = ''s1'', rm_TeamName = ''team'', rm_SandboxID = ''sb'', rm_OrderID = ''o1'',
      rm_Archetype = ''noise'', rm_AppRTTNS = 2000, rm_KernelRTTNS = 0, rm_Correct = True,
      rm_FillPrice = Num False 100, rm_FillQty = 1, rm_EmittedNS = 5, rm_ReplaySeq = 0, rm_ActiveBots = 10\<rparr>"

section \<open>Properties\<close>

text \<open>
  Batching loses and reorders nothing while the loop runs: the batches the handler got,
  one after the other, and the batch still pending are exactly the messages decoded, in
  order; a batch handed over has 1 to 64 metrics and the pending one fewer than 64. When
  the loop ends by the context nothing is pending.
\<close>

theorem readMetrics_delivers_in_order:
  "\<exists>bs. readMetrics handle es [] w = (foldl handle w bs, snd (readMetrics handle es [] w)) \<and>
     concat bs @ snd (readMetrics handle es [] w) = read_upto es \<and>
     (\<forall>b \<in> set bs. 1 \<le> length b \<and> length b \<le> 64) \<and>
     length (snd (readMetrics handle es [] w)) < 64 \<and>
     (ends_by_ctx es \<longrightarrow> snd (readMetrics handle es [] w) = [])"
  using batches_concat [of es "[]"] batches_sizes [of "[]" es] batches_ctx [of es "[]"]
  by (intro exI [of _ "fst (batches es [])"]) (simp add: readMetrics_batches batch_cap_def Suc_le_eq)

theorem readMetrics_delivers_in_order_witness:
  "\<exists>bs. readMetrics (\<lambda>w b. w @ [b]) [Got (Some test_metric), Ticked, CtxEnd] [] [] = (bs, []) \<and>
     concat bs = [test_metric]"
  using readMetrics_delivers_in_order [of "\<lambda>w b. w @ [b]" "[Got (Some test_metric), Ticked, CtxEnd]" "[]"]
  by (simp add: flush_def batch_cap_def)

text \<open>
  A failed read loses the pending batch: the loop returns without flushing, so the
  handler never sees the metrics read since the last flush.
\<close>

theorem readMetrics_loses_batch_on_read_error:
  assumes "length ms < 64"
  shows "readMetrics handle (map (\<lambda>m. Got (Some m)) ms @ ReadFailed # es) [] w = (w, ms)"
proof -
  have "readMetrics handle (map (\<lambda>m. Got (Some m)) ms @ ReadFailed # es) b w = (w, b @ ms)"
    if "length b + length ms < 64" for b
    using that by (induction ms arbitrary: b) (auto simp: batch_cap_def)
  with assms show ?thesis by simp
qed

theorem readMetrics_loses_batch_on_read_error_witness:
  "readMetrics (\<lambda>w b. w @ [b]) (map (\<lambda>m. Got (Some m)) [test_metric] @ ReadFailed # []) [] [] =
     ([], [test_metric])"
  by (rule readMetrics_loses_batch_on_read_error) simp

end
