(* ===== verification/Scorer.thy ===== *)
theory Scorer
  imports Validator Histogram Consumer
begin

text \<open>
  \<open>telemetry/internal/scorer/composite.go\<close>: the scoring engine. Sessions are a map from
  ids to states; the Kafka writer is the list of scores written; the store is the
  \<open>Store option\<close> shared with the consumer. Clock readings, the outcome of a Kafka write
  and \<open>math.Log10\<close> are arguments.
\<close>

section \<open>State\<close>

record CompositeScore =
  cs_SessionID :: string
  cs_TeamName :: string
  cs_P50NS :: float64
  cs_P90NS :: float64
  cs_P99NS :: float64
  cs_P999NS :: float64
  cs_TPS :: float64
  cs_PeakTPS :: float64
  cs_FillAccuracy :: float64
  cs_PriceTimeViolations :: int64
  cs_RecoveryTimeMS :: float64
  cs_DegradationRatio :: float64
  cs_ThroughputScore :: float64
  cs_TailLatencyScore :: float64
  cs_CorrectnessScore :: float64
  cs_ResilienceScore :: float64
  cs_TotalScore :: float64
  cs_ActiveBots :: int32
  cs_ScoreHistory :: "float64 list"
  cs_ArchetypeCounts :: "string \<rightharpoonup> int32"
  cs_ComputedAt :: int64

record 'h sessionState =
  ss_hdr :: "'h LatencyHistogram"
  ss_validator :: validator
  ss_startedAt :: int64
  ss_teamName :: string
  ss_orderCount :: int64
  ss_peakTPS :: float64
  ss_correctFills :: int64
  ss_totalFills :: int64
  ss_maxActiveBots :: int32
  ss_scoreHistory :: "float64 list"
  ss_archetypeCounts :: "string \<rightharpoonup> int32"
  ss_chaosStartNS :: int64
  ss_chaosEndNS :: int64
  ss_baselineP99NS :: float64
  ss_chaosP99NS :: float64

record 'h Engine =
  en_sessions :: "string \<rightharpoonup> 'h sessionState"
  en_written :: "CompositeScore list"
  en_store :: "Store option"

datatype scorer_error = MarshalError | KafkaError | StorePanic store_error

definition f0 :: float64 where "f0 = Num False 0"

definition NewEngine :: "Store option \<Rightarrow> 'h Engine" where
  "NewEngine st = \<lparr>en_sessions = Map.empty, en_written = [], en_store = st\<rparr>"

definition new_session :: "'h hdr_lib \<Rightarrow> int64 \<Rightarrow> 'h sessionState" where
  "new_session L now =
     \<lparr>ss_hdr = NewLatencyHistogram L, ss_validator = NewValidator, ss_startedAt = now,
      ss_teamName = [], ss_orderCount = 0, ss_peakTPS = f0, ss_correctFills = 0, ss_totalFills = 0,
      ss_maxActiveBots = 0, ss_scoreHistory = [], ss_archetypeCounts = Map.empty,
      ss_chaosStartNS = 0, ss_chaosEndNS = 0, ss_baselineP99NS = f0, ss_chaosP99NS = f0\<rparr>"

definition getOrCreateSession ::
  "'h hdr_lib \<Rightarrow> string \<Rightarrow> int64 \<Rightarrow> 'h Engine \<Rightarrow> 'h sessionState \<times> 'h Engine" where
  "getOrCreateSession L sid now e =
     (case en_sessions e sid of
        Some s \<Rightarrow> (s, e)
      | None \<Rightarrow> (let s = new_session L now in (s, e\<lparr>en_sessions := (en_sessions e)(sid \<mapsto> s)\<rparr>)))"

section \<open>Time\<close>

text \<open>\<open>time.Since(t).Seconds()\<close>: the difference saturates at the ends of \<open>int64\<close>, and
  \<open>Seconds\<close> converts whole seconds and the rest separately.\<close>

definition time_sub :: "int64 \<Rightarrow> int64 \<Rightarrow> int64" where
  "time_sub a b = max (- (2 ^ 63)) (min (2 ^ 63 - 1) (a - b))"

definition duration_seconds :: "int64 \<Rightarrow> float64" where
  "duration_seconds d =
     fadd (f_of_int (go_div d 1000000000)) (fdiv (f_of_int (go_mod d 1000000000)) (fconst 1000000000))"

section \<open>Normalisation\<close>

definition normalizeLinear :: "float64 \<Rightarrow> float64 \<Rightarrow> float64 \<Rightarrow> float64" where
  "normalizeLinear v mn mx =
     (if feq mx mn then f0
      else fmin (fconst 100) (fmax f0 (fmul (fdiv (fsub v mn) (fsub mx mn)) (fconst 100))))"

definition normalizeTailLatency :: "(float64 \<Rightarrow> float64) \<Rightarrow> float64 \<Rightarrow> float64" where
  "normalizeTailLatency log10 p99ns =
     (if fle p99ns f0 then f0
      else
        let logP99 = log10 p99ns; logBest = log10 (fconst 1000); logWorst = log10 (fconst 100000000);
            score = fmul (fconst 100) (fsub (fconst 1) (fdiv (fsub logP99 logBest) (fsub logWorst logBest)))
        in fmin (fconst 100) (fmax f0 score))"

definition normalizeResilience :: "float64 \<Rightarrow> float64 \<Rightarrow> float64" where
  "normalizeResilience recoveryMS degradationRatio =
     (if feq recoveryMS f0 then fconst 85
      else
        let recoveryScore = fsub (fconst 100) (normalizeLinear recoveryMS (fconst 0) (fconst 5000));
            degradScore = fmax f0 (fsub (fconst 100)
              (fmul (fmax f0 (fsub degradationRatio (fconst 1))) (fconst 50)))
        in fdiv (fadd recoveryScore degradScore) (fconst 2))"

section \<open>Handling metrics\<close>

text \<open>The session's part of one metric, block by block; \<open>t\<close> is the clock at \<open>time.Since\<close>.\<close>

definition note_team :: "RawMetric \<Rightarrow> 'h sessionState \<Rightarrow> 'h sessionState" where
  "note_team m s = (if rm_TeamName m \<noteq> [] \<and> ss_teamName s = [] then s\<lparr>ss_teamName := rm_TeamName m\<rparr> else s)"

definition note_app :: "'h hdr_lib \<Rightarrow> RawMetric \<Rightarrow> 'h sessionState \<Rightarrow> 'h sessionState" where
  "note_app L m s =
     (if 0 < rm_AppRTTNS m then s\<lparr>ss_hdr := RecordApp L (rm_AppRTTNS m) (ss_hdr s)\<rparr> else s)"

definition note_kernel :: "'h hdr_lib \<Rightarrow> RawMetric \<Rightarrow> 'h sessionState \<Rightarrow> 'h sessionState" where
  "note_kernel L m s =
     (if 0 < rm_KernelRTTNS m then s\<lparr>ss_hdr := RecordKernel L (rm_KernelRTTNS m) (ss_hdr s)\<rparr> else s)"

definition note_fill :: "RawMetric \<Rightarrow> 'h sessionState \<Rightarrow> 'h sessionState" where
  "note_fill m s =
     (if flt f0 (rm_FillPrice m) \<or> 0 < rm_FillQty m
      then let s' = s\<lparr>ss_totalFills := wrap64 (ss_totalFills s + 1)\<rparr> in
           if rm_Correct m then s'\<lparr>ss_correctFills := wrap64 (ss_correctFills s' + 1)\<rparr> else s'
      else s)"

definition note_bots :: "RawMetric \<Rightarrow> 'h sessionState \<Rightarrow> 'h sessionState" where
  "note_bots m s =
     (if ss_maxActiveBots s < rm_ActiveBots m then s\<lparr>ss_maxActiveBots := rm_ActiveBots m\<rparr> else s)"

definition note_archetype :: "RawMetric \<Rightarrow> 'h sessionState \<Rightarrow> 'h sessionState" where
  "note_archetype m s =
     (if rm_Archetype m \<noteq> []
      then s\<lparr>ss_archetypeCounts := (ss_archetypeCounts s)(rm_Archetype m \<mapsto>
        wrap32 ((case ss_archetypeCounts s (rm_Archetype m) of Some n \<Rightarrow> n | None \<Rightarrow> 0) + 1))\<rparr>
      else s)"

definition note_order :: "int64 \<Rightarrow> 'h sessionState \<Rightarrow> 'h sessionState" where
  "note_order t s0 =
     (let s = s0\<lparr>ss_orderCount := wrap64 (ss_orderCount s0 + 1)\<rparr>;
          elapsed = duration_seconds (time_sub t (ss_startedAt s))
      in if flt f0 elapsed
         then let currentTPS = fdiv (f_of_int (ss_orderCount s)) elapsed in
              if flt (ss_peakTPS s) currentTPS then s\<lparr>ss_peakTPS := currentTPS\<rparr> else s
         else s)"

definition ingest :: "'h hdr_lib \<Rightarrow> RawMetric \<Rightarrow> int64 \<Rightarrow> 'h sessionState \<Rightarrow> 'h sessionState" where
  "ingest L m t s =
     note_order t (note_archetype m (note_bots m (note_fill m (note_kernel L m (note_app L m (note_team m s))))))"

definition raw_row :: "RawMetric \<Rightarrow> RawMetricRow" where
  "raw_row m =
     \<lparr>rr_SessionID = rm_SessionID m, rr_SandboxID = rm_SandboxID m, rr_OrderID = rm_OrderID m,
      rr_Archetype = rm_Archetype m, rr_AppRTTNS = rm_AppRTTNS m, rr_KernelRTTNS = rm_KernelRTTNS m,
      rr_FillCorrect = rm_Correct m, rr_FillPrice = rm_FillPrice m, rr_FillQty = rm_FillQty m,
      rr_ReplaySeq = rm_ReplaySeq m\<rparr>"

text \<open>One round of the first loop; \<open>clk = (creation time, time of time.Since)\<close>.\<close>

definition handle_metric ::
  "'h hdr_lib \<Rightarrow> RawMetric \<Rightarrow> int64 \<times> int64 \<Rightarrow> 'h Engine \<Rightarrow> 'h Engine \<times> scorer_error option" where
  "handle_metric L m clk e =
     (case getOrCreateSession L (rm_SessionID m) (fst clk) e of
        (s, e1) \<Rightarrow>
          let e2 = e1\<lparr>en_sessions := (en_sessions e1)(rm_SessionID m \<mapsto> ingest L m (snd clk) s)\<rparr> in
          case WriteRawMetric (raw_row m) (en_store e2) of
            Inl err \<Rightarrow> (e2, Some (StorePanic err))
          | Inr st \<Rightarrow> (e2\<lparr>en_store := st\<rparr>, None))"

fun ingest_all ::
  "'h hdr_lib \<Rightarrow> RawMetric list \<Rightarrow> (nat \<Rightarrow> int64 \<times> int64) \<Rightarrow> nat \<Rightarrow> 'h Engine \<Rightarrow> 'h Engine \<times> scorer_error option" where
  "ingest_all L [] clk i e = (e, None)"
| "ingest_all L (m # ms) clk i e =
     (case handle_metric L m (clk i) e of
        (e', Some err) \<Rightarrow> (e', Some err)
      | (e', None) \<Rightarrow> ingest_all L ms clk (Suc i) e')"

section \<open>The composite score\<close>

definition blank_score :: "string \<Rightarrow> CompositeScore" where
  "blank_score sid =
     \<lparr>cs_SessionID = sid, cs_TeamName = [], cs_P50NS = f0, cs_P90NS = f0, cs_P99NS = f0, cs_P999NS = f0,
      cs_TPS = f0, cs_PeakTPS = f0, cs_FillAccuracy = f0, cs_PriceTimeViolations = 0, cs_RecoveryTimeMS = f0,
      cs_DegradationRatio = f0, cs_ThroughputScore = f0, cs_TailLatencyScore = f0, cs_CorrectnessScore = f0,
      cs_ResilienceScore = f0, cs_TotalScore = f0, cs_ActiveBots = 0, cs_ScoreHistory = [],
      cs_ArchetypeCounts = Map.empty, cs_ComputedAt = 0\<rparr>"

definition total_of :: "float64 \<Rightarrow> float64 \<Rightarrow> float64 \<Rightarrow> float64 \<Rightarrow> float64" where
  "total_of th ta co re =
     fadd (fadd (fadd (fmul (fconst (30/100)) th) (fmul (fconst (30/100)) ta)) (fmul (fconst (25/100)) co))
       (fmul (fconst (15/100)) re)"

definition score_of :: "'h hdr_lib \<Rightarrow> (float64 \<Rightarrow> float64) \<Rightarrow> string \<Rightarrow> int64 \<times> int64 \<Rightarrow> 'h sessionState \<Rightarrow> CompositeScore" where
  "score_of L log10 sid clk s =
     (case KernelPercentiles L (ss_hdr s) of (p50, p90, p99, p999) \<Rightarrow>
      case Stats (ss_validator s) of (_, _, violations) \<Rightarrow>
        let elapsed = duration_seconds (time_sub (fst clk) (ss_startedAt s));
            tps = (if flt f0 elapsed then fdiv (f_of_int (ss_orderCount s)) elapsed else f0);
            fillAccuracy = (if 0 < ss_totalFills s
              then fdiv (f_of_int (ss_correctFills s)) (f_of_int (ss_totalFills s)) else f0);
            throughputScore = normalizeLinear tps (fconst 0) (fconst 50000);
            tailLatencyScore = normalizeTailLatency log10 p99;
            violationRate = (if 0 < ss_totalFills s
              then fmin (fconst 1) (fdiv (f_of_int violations) (f_of_int (ss_totalFills s))) else f0);
            correctnessScore = fmul (fmul fillAccuracy (fconst 100))
              (fsub (fconst 1) (fmul violationRate (fconst (1/2))));
            chaos = 0 < ss_chaosEndNS s \<and> flt f0 (ss_baselineP99NS s);
            degradationRatio = (if chaos then fdiv (ss_chaosP99NS s) (ss_baselineP99NS s) else fconst 1);
            recoveryTimeMS = (if chaos
              then fdiv (f_of_int (wrap64 (ss_chaosEndNS s - ss_chaosStartNS s))) (fconst 1000000) else f0);
            resilienceScore = normalizeResilience recoveryTimeMS degradationRatio;
            total_score = total_of throughputScore tailLatencyScore correctnessScore resilienceScore
        in \<lparr>cs_SessionID = sid, cs_TeamName = ss_teamName s, cs_P50NS = p50, cs_P90NS = p90, cs_P99NS = p99,
            cs_P999NS = p999, cs_TPS = tps, cs_PeakTPS = ss_peakTPS s, cs_FillAccuracy = fillAccuracy,
            cs_PriceTimeViolations = f_to_int64 (fround_int (fmul violationRate (f_of_int (ss_totalFills s)))),
            cs_RecoveryTimeMS = recoveryTimeMS, cs_DegradationRatio = degradationRatio,
            cs_ThroughputScore = throughputScore, cs_TailLatencyScore = tailLatencyScore,
            cs_CorrectnessScore = correctnessScore, cs_ResilienceScore = resilienceScore,
            cs_TotalScore = total_score, cs_ActiveBots = ss_maxActiveBots s, cs_ScoreHistory = [],
            cs_ArchetypeCounts = ss_archetypeCounts s, cs_ComputedAt = snd clk\<rparr>)"

definition Compute ::
  "'h hdr_lib \<Rightarrow> (float64 \<Rightarrow> float64) \<Rightarrow> string \<Rightarrow> int64 \<times> int64 \<Rightarrow> 'h Engine \<Rightarrow> CompositeScore" where
  "Compute L log10 sid clk e =
     (case en_sessions e sid of None \<Rightarrow> blank_score sid | Some s \<Rightarrow> score_of L log10 sid clk s)"

section \<open>Publishing\<close>

text \<open>\<open>json.Marshal\<close> refuses NaN and the infinities.\<close>

definition json_ok :: "CompositeScore \<Rightarrow> bool" where
  "json_ok c \<longleftrightarrow>
     list_all is_fin ([cs_P50NS c, cs_P90NS c, cs_P99NS c, cs_P999NS c, cs_TPS c, cs_PeakTPS c,
       cs_FillAccuracy c, cs_RecoveryTimeMS c, cs_DegradationRatio c, cs_ThroughputScore c,
       cs_TailLatencyScore c, cs_CorrectnessScore c, cs_ResilienceScore c, cs_TotalScore c] @ cs_ScoreHistory c)"

definition score_row :: "CompositeScore \<Rightarrow> CompositeScoreRow" where
  "score_row c =
     \<lparr>cr_SessionID = cs_SessionID c, cr_TeamName = cs_TeamName c, cr_P50NS = cs_P50NS c,
      cr_P90NS = cs_P90NS c, cr_P99NS = cs_P99NS c, cr_P999NS = cs_P999NS c, cr_TPS = cs_TPS c,
      cr_PeakTPS = cs_PeakTPS c, cr_FillAccuracy = cs_FillAccuracy c,
      cr_PriceTimeViolations = cs_PriceTimeViolations c, cr_RecoveryTimeMS = cs_RecoveryTimeMS c,
      cr_DegradationRatio = cs_DegradationRatio c, cr_ThroughputScore = cs_ThroughputScore c,
      cr_TailLatencyScore = cs_TailLatencyScore c, cr_CorrectnessScore = cs_CorrectnessScore c,
      cr_ResilienceScore = cs_ResilienceScore c, cr_TotalScore = cs_TotalScore c\<rparr>"

definition publish :: "bool \<Rightarrow> CompositeScore \<Rightarrow> 'h Engine \<Rightarrow> 'h Engine \<times> scorer_error option" where
  "publish kafka_ok c e =
     (if \<not> json_ok c then (e, Some MarshalError)
      else case WriteCompositeScore (score_row c) (en_store e) of
        Inl err \<Rightarrow> (e, Some (StorePanic err))
      | Inr st \<Rightarrow>
          (let e' = e\<lparr>en_store := st\<rparr> in
           if kafka_ok then (e'\<lparr>en_written := en_written e' @ [c]\<rparr>, None) else (e', Some KafkaError)))"

text \<open>The body of the second loop for a session not seen yet.\<close>

definition emit_score ::
  "'h hdr_lib \<Rightarrow> (float64 \<Rightarrow> float64) \<Rightarrow> string \<Rightarrow> int64 \<times> int64 \<Rightarrow> bool \<Rightarrow> 'h Engine
     \<Rightarrow> 'h Engine \<times> scorer_error option" where
  "emit_score L log10 sid clk kafka_ok e =
     (let score = Compute L log10 sid clk e in
      case en_sessions e sid of
        None \<Rightarrow> publish kafka_ok score e
      | Some s \<Rightarrow>
          (let h1 = ss_scoreHistory s @ [cs_TotalScore score];
               h2 = (if 30 < length h1 then drop (length h1 - 30) h1 else h1);
               e' = e\<lparr>en_sessions := (en_sessions e)(sid \<mapsto> s\<lparr>ss_scoreHistory := h2\<rparr>)\<rparr>
           in publish kafka_ok (score\<lparr>cs_ScoreHistory := h2\<rparr>) e'))"

fun emit_all ::
  "'h hdr_lib \<Rightarrow> (float64 \<Rightarrow> float64) \<Rightarrow> string list \<Rightarrow> RawMetric list \<Rightarrow> (nat \<Rightarrow> int64 \<times> int64) \<Rightarrow> (nat \<Rightarrow> bool)
     \<Rightarrow> nat \<Rightarrow> 'h Engine \<Rightarrow> 'h Engine \<times> scorer_error option" where
  "emit_all L log10 seen [] clk kafka i e = (e, None)"
| "emit_all L log10 seen (m # ms) clk kafka i e =
     (if rm_SessionID m \<in> set seen then emit_all L log10 seen ms clk kafka (Suc i) e
      else case emit_score L log10 (rm_SessionID m) (clk i) (kafka i) e of
             (e', Some err) \<Rightarrow> (e', Some err)
           | (e', None) \<Rightarrow> emit_all L log10 (rm_SessionID m # seen) ms clk kafka (Suc i) e')"

text \<open>Clock readings and Kafka outcomes of one call, by the index of the metric.\<close>

record handle_env =
  he_ingest :: "nat \<Rightarrow> int64 \<times> int64"
  he_compute :: "nat \<Rightarrow> int64 \<times> int64"
  he_kafka :: "nat \<Rightarrow> bool"

definition Handle ::
  "'h hdr_lib \<Rightarrow> (float64 \<Rightarrow> float64) \<Rightarrow> handle_env \<Rightarrow> RawMetric list \<Rightarrow> 'h Engine
     \<Rightarrow> 'h Engine \<times> scorer_error option" where
  "Handle L log10 v metrics e =
     (case ingest_all L metrics (he_ingest v) 0 e of
        (e', Some err) \<Rightarrow> (e', Some err)
      | (e', None) \<Rightarrow> emit_all L log10 [] metrics (he_compute v) (he_kafka v) 0 e')"

definition HandleChaosEvent :: "'h hdr_lib \<Rightarrow> int64 \<Rightarrow> ChaosEvent \<Rightarrow> 'h Engine \<Rightarrow> 'h Engine" where
  "HandleChaosEvent L now ev e =
     (case getOrCreateSession L (ce_SessionID ev) now e of
        (s, e1) \<Rightarrow>
          case KernelPercentiles L (ss_hdr s) of (_, _, p99, _) \<Rightarrow>
            let s' = (if ce_EventType ev = ''chaos_start''
                      then s\<lparr>ss_chaosStartNS := ce_TimestampNS ev, ss_baselineP99NS := p99\<rparr>
                      else if ce_EventType ev = ''chaos_end''
                      then s\<lparr>ss_chaosEndNS := ce_TimestampNS ev, ss_chaosP99NS := p99\<rparr>
                      else s)
            in e1\<lparr>en_sessions := (en_sessions e1)(ce_SessionID ev \<mapsto> s')\<rparr>)"

section \<open>Float facts\<close>

lemma fconst_0 [simp]: "fconst 0 = f0"
  by (simp add: fconst_def f0_def)

lemma fconst_1 [simp]: "fconst 1 = Num False 1"
  using rnd_int [of 1] by (simp add: fconst_def)

lemma fconst_numeral [simp]: "(numeral k :: int) \<le> 2 ^ 53 \<Longrightarrow> fconst (numeral k) = Num False (numeral k)"
  using rnd_int [of "numeral k"] by (simp add: fconst_def)

lemma fconst_half [simp]: "fconst (1/2) = Num False (1/2)"
  by (simp add: fconst_def float_eval)

lemma not_NaN_ops:
  "x \<noteq> NaN \<Longrightarrow> m \<noteq> 0 \<Longrightarrow> fmul x (Num s m) \<noteq> NaN"
  "x \<noteq> NaN \<Longrightarrow> m \<noteq> 0 \<Longrightarrow> fmul (Num s m) x \<noteq> NaN"
  "x \<noteq> NaN \<Longrightarrow> m \<noteq> 0 \<Longrightarrow> fdiv x (Num s m) \<noteq> NaN"
  "x \<noteq> NaN \<Longrightarrow> is_fin y \<Longrightarrow> fsub x y \<noteq> NaN"
  "is_fin x \<Longrightarrow> y \<noteq> NaN \<Longrightarrow> fsub x y \<noteq> NaN"
  by (cases x; cases y; simp add: fsub_def Let_def)+

lemma fmax_f0_not_NaN: "x \<noteq> NaN \<Longrightarrow> fmax f0 x \<noteq> NaN \<and> fle f0 (fmax f0 x)"
  by (cases x) (auto simp: fmax_def f0_def)

lemma clamp_100: "x \<noteq> NaN \<Longrightarrow> fbetween 0 100 (fmin (Num False 100) (fmax f0 x))"
  unfolding f0_def by (rule fclamp_between) simp_all

lemma fmax_f0_le: "x \<noteq> NaN \<Longrightarrow> fle x (Num False hi) \<Longrightarrow> 0 \<le> hi \<Longrightarrow> fbetween 0 hi (fmax f0 x)"
  by (cases x) (auto simp: fmax_def fbetween_def f0_def)

lemma fmul_pos_ge: "x \<noteq> NaN \<Longrightarrow> fle f0 x \<Longrightarrow> 0 < m \<Longrightarrow> fmul x (Num False m) \<noteq> NaN \<and> fle f0 (fmul x (Num False m))"
proof (cases x)
  case (Num s r)
  assume "fle f0 x" "0 < m"
  with Num have "0 \<le> fval x * m" by (simp add: f0_def)
  then have "fle (Num False 0) (rnd (fval x * m))" using rnd_mono [of 0] by simp
  with Num show ?thesis by (auto simp: Let_def f0_def)
qed (auto simp: f0_def)

lemma fsub_le: "y \<noteq> NaN \<Longrightarrow> fle f0 y \<Longrightarrow> 0 < m \<Longrightarrow> is_fin (rnd m) \<Longrightarrow> fle (fsub (Num False m) y) (rnd m)"
proof (cases y)
  case (Num s r)
  assume a: "fle f0 y" "0 < m" "is_fin (rnd m)"
  then have "m - fval y \<le> m" using Num by (simp add: f0_def)
  then have "fle (rnd (m - fval y)) (rnd m)" by (rule rnd_mono)
  moreover have "fle (rnd 0) (rnd m)" using a by (intro rnd_mono) simp
  ultimately show ?thesis using Num by (auto simp: fsub_def Let_def)
next
  case (Infty s)
  assume "fle f0 y" "is_fin (rnd m)"
  with Infty show ?thesis by (cases "rnd m") (auto simp: fsub_def f0_def)
qed simp

lemma rnd_numeral [simp]: "(numeral k :: int) \<le> 2 ^ 53 \<Longrightarrow> rnd (numeral k) = Num False (numeral k)"
  using rnd_int [of "numeral k"] by simp

lemma rnd_1 [simp]: "rnd 1 = Num False 1"
  using rnd_int [of 1] by simp

lemma fsub_f0: "fsub (Num False (numeral k)) f0 = rnd (numeral k)"
  by (simp add: fsub_def f0_def)

section \<open>The scores are between 0 and 100\<close>

lemma normalizeLinear_range:
  assumes "v \<noteq> NaN" "(numeral k :: int) \<le> 2 ^ 53"
  shows "fbetween 0 100 (normalizeLinear v f0 (Num False (numeral k)))"
proof -
  have d: "fsub (Num False (numeral k)) f0 = Num False (numeral k)" using assms(2) by (simp add: fsub_f0)
  have "fsub v f0 \<noteq> NaN" using assms(1) by (simp add: not_NaN_ops f0_def)
  then have "fmul (fdiv (fsub v f0) (Num False (numeral k))) (Num False 100) \<noteq> NaN"
    by (intro not_NaN_ops(1,3)) simp_all
  from clamp_100 [OF this] show ?thesis
    by (simp add: normalizeLinear_def d) (simp add: f0_def fbetween_def)
qed

lemma normalizeResilience_range:
  assumes "rec \<noteq> NaN" "deg \<noteq> NaN"
  shows "fbetween 0 100 (normalizeResilience rec deg)"
proof (cases "feq rec f0")
  case True
  then show ?thesis by (simp add: normalizeResilience_def fbetween_def)
next
  case False
  let ?r = "fsub (Num False 100) (normalizeLinear rec f0 (Num False 5000))"
  let ?y = "fmul (fmax f0 (fsub deg (Num False 1))) (Num False 50)"
  let ?d = "fmax f0 (fsub (Num False 100) ?y)"
  have r: "fbetween 0 100 ?r"
    using fsub_between [of 100 100 "Num False 100" 0 100] normalizeLinear_range [OF assms(1)]
    by (simp add: fbetween_def)
  have "fsub deg (Num False 1) \<noteq> NaN" using assms(2) by (simp add: not_NaN_ops)
  from fmul_pos_ge [of "fmax f0 (fsub deg (Num False 1))" 50] fmax_f0_not_NaN [OF this]
  have y: "?y \<noteq> NaN" "fle f0 ?y" by simp_all
  have "fle (fsub (Num False 100) ?y) (Num False 100)" using fsub_le [OF y, of 100] by simp
  then have d: "fbetween 0 100 ?d" using y by (intro fmax_f0_le) (simp_all add: not_NaN_ops)
  have s: "fbetween 0 200 (fadd ?r ?d)" using fadd_between [OF r d] by simp
  then have "fbetween 0 100 (fdiv (fadd ?r ?d) (Num False 2))"
    using fdiv_between_exact [of "fadd ?r ?d" "Num False 2" 0 100] by (simp add: fbetween_def)
  then show ?thesis using False by (simp add: normalizeResilience_def Let_def)
qed

text \<open>
  What the code relies on of \<open>math.Log10\<close>: finite on positive numbers, growing, and about
  3 and 8 at the two constants.
\<close>

definition log10_laws :: "(float64 \<Rightarrow> float64) \<Rightarrow> bool" where
  "log10_laws log10 \<longleftrightarrow>
     (\<forall>x. is_fin x \<and> 0 < fval x \<longrightarrow> is_fin (log10 x)) \<and>
     (\<forall>x y. is_fin x \<and> is_fin y \<and> 0 < fval x \<and> fval x \<le> fval y \<longrightarrow> fval (log10 x) \<le> fval (log10 y)) \<and>
     fbetween (29/10) (31/10) (log10 (Num False 1000)) \<and>
     fbetween (79/10) (81/10) (log10 (Num False 100000000))"

definition step_log10 :: "float64 \<Rightarrow> float64" where
  "step_log10 x = (if fval x < 100000000 then Num False 3 else Num False 8)"

lemma step_log10_laws: "log10_laws step_log10"
  by (simp add: log10_laws_def step_log10_def fbetween_def)

lemma normalizeTailLatency_range:
  assumes "log10_laws log10" "is_fin p99"
  shows "fbetween 0 100 (normalizeTailLatency log10 p99)"
proof (cases "fle p99 f0")
  case True
  then show ?thesis by (simp add: normalizeTailLatency_def f0_def fbetween_def)
next
  case False
  let ?b = "log10 (Num False 1000)" and ?w = "log10 (Num False 100000000)"
  have "0 < fval p99" using False assms(2) by (cases p99) (auto simp: f0_def)
  then have l: "is_fin (log10 p99)" "is_fin ?b" "is_fin ?w"
    using assms by (auto simp: log10_laws_def fbetween_def)
  have "fbetween 4 6 (fsub ?w ?b)"
  proof -
    have r: "is_fin (rnd (79/10 - 31/10))" "is_fin (rnd (81/10 - 29/10))"
      "4 \<le> fval (rnd (79/10 - 31/10))" "fval (rnd (81/10 - 29/10)) \<le> 6"
      by (simp_all add: float_eval)
    have "fbetween (fval (rnd (79/10 - 31/10))) (fval (rnd (81/10 - 29/10))) (fsub ?w ?b)"
      using assms(1) by (intro fsub_between r(1,2)) (auto simp: log10_laws_def)
    then show ?thesis by (rule fbetween_weaken) (rule r)+
  qed
  then obtain sg d where d: "fsub ?w ?b = Num sg d" "d \<noteq> 0"
    by (cases "fsub ?w ?b") (auto simp: fbetween_def split: if_splits)
  have "fsub (log10 p99) ?b \<noteq> NaN" using l by (intro not_NaN_ops(4)) auto
  then have "fdiv (fsub (log10 p99) ?b) (Num sg d) \<noteq> NaN" using d(2) by (intro not_NaN_ops(3))
  then have "fmul (Num False 100) (fsub (Num False 1) (fdiv (fsub (log10 p99) ?b) (Num sg d))) \<noteq> NaN"
    by (intro not_NaN_ops(2) not_NaN_ops(5)) simp_all
  from clamp_100 [OF this] False show ?thesis by (simp add: normalizeTailLatency_def Let_def d)
qed

lemma weighted_between:
  assumes "fbetween 0 100 x"
  shows "fbetween 0 30 (fmul (fconst (30/100)) x)" "fbetween 0 25 (fmul (fconst (25/100)) x)"
    "fbetween 0 15 (fmul (fconst (15/100)) x)"
proof -
  have w: "fbetween 0 h (fmul c x)"
    if "is_fin c" "0 \<le> fval c" "fval (rnd (fval c * 100)) = h" "is_fin (rnd (fval c * 100))" for c h
  proof -
    have "fbetween (fval c) (fval c) c" using that by (simp add: fbetween_def)
    from fmul_between [OF this assms that(2)] that(3,4) show ?thesis by simp
  qed
  show "fbetween 0 30 (fmul (fconst (30/100)) x)" by (rule w) (simp_all add: fconst_def float_eval)
  show "fbetween 0 25 (fmul (fconst (25/100)) x)" by (rule w) (simp_all add: fconst_def float_eval)
  show "fbetween 0 15 (fmul (fconst (15/100)) x)" by (rule w) (simp_all add: fconst_def float_eval)
qed

lemma total_of_range:
  assumes "fbetween 0 100 th" "fbetween 0 100 ta" "fbetween 0 100 co" "fbetween 0 100 re"
  shows "fbetween 0 100 (total_of th ta co re)"
proof -
  note w = weighted_between(1) [OF assms(1)] weighted_between(1) [OF assms(2)]
    weighted_between(2) [OF assms(3)] weighted_between(3) [OF assms(4)]
  have "fbetween 0 60 (fadd (fmul (fconst (30/100)) th) (fmul (fconst (30/100)) ta))"
    using fadd_between [OF w(1,2)] by simp
  from fadd_between [OF this w(3)]
  have "fbetween 0 85 (fadd (fadd (fmul (fconst (30/100)) th) (fmul (fconst (30/100)) ta)) (fmul (fconst (25/100)) co))"
    by simp
  from fadd_between [OF this w(4)] show ?thesis by (simp add: total_of_def)
qed

section \<open>Finite quantities\<close>

lemma rnd_fin_large: "\<bar>v\<bar> \<le> 2 ^ 200 \<Longrightarrow> is_fin (rnd v)"
proof -
  assume "\<bar>v\<bar> \<le> 2 ^ 200"
  then have "round_mag \<bar>v\<bar> \<le> round_mag (2 ^ 200)" by (intro round_mag_mono) simp_all
  also have "round_mag (2 ^ 200) = 2 ^ 200"
  proof (rule round_mag_exact)
    have "ilog2 (2 ^ 200) = 200" by (rule ilog2_eqI) (simp_all add: power_int_def)
    then show "(2::rat) ^ 200 = of_int (2 ^ 52) * fulp (2 ^ 200)" by (simp add: fulp_def power_int_def)
  qed simp
  also have "(2::rat) ^ 200 < 2 ^ 1024" by (rule power_strict_increasing) simp_all
  finally show ?thesis by (auto simp: rnd_def fround_def Let_def)
qed

lemma f_of_int_between:
  assumes "a \<le> n" "n \<le> b" "is_fin (f_of_int a)" "is_fin (f_of_int b)"
  shows "fbetween (fval (f_of_int a)) (fval (f_of_int b)) (f_of_int n)"
  using rnd_between [of "of_int a" "of_int n" "of_int b"] assms by (simp add: f_of_int_def)

lemma f_of_int_0 [simp]: "f_of_int 0 = f0"
  by (simp add: f_of_int_def f0_def)

lemma f_of_int_1 [simp]: "f_of_int 1 = Num False 1"
  by (simp add: f_of_int_def)

lemma f_of_int_pos: "1 \<le> n \<Longrightarrow> in64 n \<Longrightarrow> is_fin (f_of_int n) \<and> 1 \<le> fval (f_of_int n)"
  using f_of_int_mono [of 1 n] f_of_int_is_num [of n] by (cases "f_of_int n") auto

lemma f_of_int_nonneg: "0 \<le> n \<Longrightarrow> in64 n \<Longrightarrow> is_fin (f_of_int n) \<and> 0 \<le> fval (f_of_int n)"
  using f_of_int_mono [of 0 n] f_of_int_is_num [of n] by (cases "f_of_int n") (auto simp: f0_def)

lemma f_of_int_le_63: "0 \<le> n \<Longrightarrow> in64 n \<Longrightarrow> fval (f_of_int n) \<le> 2 ^ 63"
proof -
  assume "0 \<le> n" "in64 n"
  then have "fle (f_of_int n) (f_of_int (2 ^ 63))" by (intro f_of_int_mono) (simp add: in64_def)
  moreover have "f_of_int (2 ^ 63) = Num False (2 ^ 63)"
    by (simp add: f_of_int_def rnd_def fround_def Let_def float_eval)
  ultimately show ?thesis using f_of_int_is_num [OF \<open>in64 n\<close>] by (cases "f_of_int n") auto
qed

text \<open>Elapsed seconds are positive only for a positive duration, and then not tiny.\<close>

lemma go_div_neg: "d < 0 \<Longrightarrow> 0 < g \<Longrightarrow> go_div d g = - (- d div g)"
  by (simp add: go_div_def)

lemma go_mod_neg: "d < 0 \<Longrightarrow> 0 < g \<Longrightarrow> go_mod d g = - (- d mod g)"
  using minus_mult_div_eq_mod [of "- d" g] by (simp add: go_mod_def go_div_neg)

lemma div_bounds:
  assumes "0 \<le> d" "d \<le> 2 ^ 63"
  shows "0 \<le> d div 1000000000" "d div 1000000000 \<le> (10000000000 :: int)"
    "0 \<le> d mod 1000000000" "d mod 1000000000 \<le> 1000000000"
    "0 < d \<Longrightarrow> d div 1000000000 = 0 \<Longrightarrow> 1 \<le> d mod 1000000000"
proof -
  show "0 \<le> d div 1000000000" using assms by simp
  show "d div 1000000000 \<le> 10000000000"
    using zdiv_mono1 [OF assms(2), of 1000000000] by simp
  show "0 \<le> d mod 1000000000" "d mod 1000000000 \<le> 1000000000"
    using pos_mod_bound [of 1000000000 d] by simp_all
  show "0 < d \<Longrightarrow> d div 1000000000 = 0 \<Longrightarrow> 1 \<le> d mod 1000000000"
    using mult_div_mod_eq [of 1000000000 d] by simp
qed

lemma go_div_mod_bounds:
  fixes d :: int
  defines "g \<equiv> 1000000000"
  assumes "in64 d"
  shows "- 10000000000 \<le> go_div d g \<and> go_div d g \<le> 10000000000 \<and> - g \<le> go_mod d g \<and> go_mod d g \<le> g \<and>
    (d \<le> 0 \<longrightarrow> go_div d g \<le> 0 \<and> go_mod d g \<le> 0) \<and> (0 < d \<longrightarrow> 0 \<le> go_div d g \<and> 0 \<le> go_mod d g) \<and>
    (0 < d \<longrightarrow> go_div d g = 0 \<longrightarrow> 1 \<le> go_mod d g)"
proof (cases "d < 0")
  case True
  then have "0 \<le> - d" "- d \<le> 2 ^ 63" using assms(2) by (auto simp: in64_def)
  note b = div_bounds [OF this, folded g_def]
  have g: "0 < g" by (simp add: g_def)
  have "go_div d g = - (- d div g)" "go_mod d g = - (- d mod g)"
    by (rule go_div_neg [OF True g], rule go_mod_neg [OF True g])
  with b True g show ?thesis by linarith
next
  case False
  then have "0 \<le> d" "d \<le> 2 ^ 63" using assms(2) by (auto simp: in64_def)
  note b = div_bounds [OF this, folded g_def]
  have g: "0 < g" by (simp add: g_def)
  have e: "go_div d g = d div g" "go_mod d g = d mod g"
    using go_div_nonneg [OF \<open>0 \<le> d\<close> g] go_mod_nonneg [OF \<open>0 \<le> d\<close> g] by auto
  have "d \<le> 0 \<Longrightarrow> d div g = 0" "d \<le> 0 \<Longrightarrow> d mod g = 0" using False by simp_all
  with b False g e show ?thesis by linarith
qed

lemma seconds_parts:
  assumes "\<bar>q\<bar> \<le> 10000000000" "lo \<le> of_int r / 1000000000" "of_int r / 1000000000 \<le> hi" "\<bar>r\<bar> \<le> 1000000000"
    and "is_fin (rnd lo)" "is_fin (rnd hi)"
  shows "fbetween (of_int q) (of_int q) (f_of_int q)"
    "fbetween (fval (rnd lo)) (fval (rnd hi)) (fdiv (f_of_int r) (fconst 1000000000))"
proof -
  have "is_fin (f_of_int q) \<and> fval (f_of_int q) = of_int q" using assms(1) by (intro f_of_int_num) simp
  then show "fbetween (of_int q) (of_int q) (f_of_int q)" by (simp add: fbetween_def)
  have "is_fin (f_of_int r) \<and> fval (f_of_int r) = of_int r" using assms(4) by (intro f_of_int_num) simp
  then show "fbetween (fval (rnd lo)) (fval (rnd hi)) (fdiv (f_of_int r) (fconst 1000000000))"
    using assms by (intro fdiv_between_exact) simp_all
qed

lemma duration_seconds_small:
  assumes "in64 d" "flt f0 (duration_seconds d)"
  shows "is_fin (duration_seconds d) \<and> 1 / 2 ^ 30 \<le> fval (duration_seconds d)"
proof -
  define q r where "q = go_div d 1000000000" and "r = go_mod d 1000000000"
  note b = go_div_mod_bounds [OF assms(1), folded q_def r_def]
  have q: "\<bar>q\<bar> \<le> 10000000000" and r: "\<bar>r\<bar> \<le> 1000000000" using b by linarith+
  have qr: "(- 10000000000 :: rat) \<le> of_int q" "of_int q \<le> (10000000000 :: rat)"
    "(- 1000000000 :: rat) \<le> of_int r" "of_int r \<le> (1000000000 :: rat)"
    using b by (metis (mono_tags) of_int_le_iff of_int_numeral of_int_minus)+
  have du: "duration_seconds d = fadd (f_of_int q) (fdiv (f_of_int r) (fconst 1000000000))"
    by (simp add: duration_seconds_def q_def r_def)
  have fin: "is_fin (rnd (of_int q + c))" if "\<bar>c\<bar> \<le> 1" for c
    using qr that by (intro rnd_num_bounded) (simp add: abs_le_iff)
  have m1: "rnd (- 1) = Num True 1" using rnd_int [of "- 1"] by simp
  have dpos: "0 < d"
  proof (rule ccontr)
    assume "\<not> 0 < d"
    then have s: "(of_int q :: rat) \<le> 0" "of_int r / 1000000000 \<le> (0 :: rat)" using b by simp_all
    have l: "- 1 \<le> (of_int r / 1000000000 :: rat)" using qr by simp
    note p = seconds_parts [OF q l s(2) r, simplified m1]
    have "fbetween (- 1) 0 (fdiv (f_of_int r) (fconst 1000000000))" using p(2) by (simp del: fconst_numeral)
    from fadd_between [OF p(1) this] fin [of "- 1"] fin [of 0] rnd_mono [OF s(1)]
    show False using assms(2) unfolding du
      by (cases "fadd (f_of_int q) (fdiv (f_of_int r) (fconst 1000000000))"; cases "rnd (of_int q)")
        (auto simp: fbetween_def f0_def simp del: fconst_numeral split: if_splits)
  qed
  then have s: "(0 :: rat) \<le> of_int q" "0 \<le> (of_int r / 1000000000 :: rat)" using b by simp_all
  have u: "of_int r / 1000000000 \<le> (1 :: rat)" using qr by simp
  show ?thesis
  proof (cases "q = 0")
    case True
    then have "1 \<le> r" using b dpos by simp
    then have l: "1 / 1000000000 \<le> (of_int r / 1000000000 :: rat)" by simp
    have e: "is_fin (rnd (1 / 1000000000))" "1 / 2 ^ 30 \<le> fval (rnd (1 / 1000000000))" by (simp_all add: float_eval)
    from seconds_parts [OF q l u r e(1)]
    have p: "fbetween 0 0 (f_of_int q)" "fbetween (1 / 2 ^ 30) 1 (fdiv (f_of_int r) (fconst 1000000000))"
      using e(2) True by (auto simp: fbetween_def simp del: fconst_numeral)
    have "is_fin (rnd (1 / 2 ^ 30))" "fval (rnd (1 / 2 ^ 30)) = 1 / 2 ^ 30" by (simp_all add: float_eval)
    with fadd_between [OF p] show ?thesis unfolding du by (simp add: fbetween_def del: fconst_numeral)
  next
    case False
    then have "1 \<le> q" using b dpos by linarith
    then have "fbetween 1 10000000000 (f_of_int q)"
      using seconds_parts(1) [OF q s(2) u r] qr by (auto simp: fbetween_def)
    moreover have "fbetween 0 1 (fdiv (f_of_int r) (fconst 1000000000))"
      using seconds_parts(2) [OF q s(2) u r] by (simp del: fconst_numeral)
    ultimately have "fbetween 1 10000000001 (duration_seconds d)"
      using fadd_between [of 1 10000000000 "f_of_int q" 0 1] unfolding du by simp
    moreover have "1 / 2 ^ 30 \<le> (1 :: rat)" by simp
    ultimately show ?thesis unfolding fbetween_def by linarith
  qed
qed

lemma tps_bounded:
  assumes "0 \<le> n" "in64 n" "in64 d" "flt f0 (duration_seconds d)"
  shows "is_fin (fdiv (f_of_int n) (duration_seconds d))"
proof -
  note e = duration_seconds_small [OF assms(3,4)]
  note n = f_of_int_nonneg [OF assms(1,2)] f_of_int_le_63 [OF assms(1,2)]
  have "(0 :: rat) < 1 / 2 ^ 30" by simp
  then have pos: "0 < fval (duration_seconds d)" using e by (meson less_le_trans)
  have "fval (f_of_int n) / fval (duration_seconds d) \<le> 2 ^ 63 / (1 / 2 ^ 30)"
    using n e by (intro frac_le) simp_all
  moreover have "0 \<le> fval (f_of_int n) / fval (duration_seconds d)"
    using n pos by (intro divide_nonneg_nonneg) simp_all
  ultimately have "is_fin (rnd (fval (f_of_int n) / fval (duration_seconds d)))"
    by (intro rnd_fin_large) simp
  then show ?thesis using n e pos by (intro fdiv_num [THEN conjunct1]) auto
qed

lemma time_sub_in64 [simp]: "in64 (time_sub a b)"
  by (simp add: time_sub_def in64_def)

text \<open>A latency read from a histogram: a non-negative \<open>int64\<close> as a float.\<close>

definition is_ns :: "float64 \<Rightarrow> bool" where
  "is_ns x \<longleftrightarrow> is_fin x \<and> (0 < fval x \<longrightarrow> 1 \<le> fval x) \<and> 0 \<le> fval x \<and> fval x \<le> 2 ^ 63"

lemma is_ns_f_of_int: "0 \<le> n \<Longrightarrow> in64 n \<Longrightarrow> is_ns (f_of_int n)"
proof (cases "n = 0")
  case False
  assume "0 \<le> n" "in64 n"
  with False show ?thesis using f_of_int_pos [of n] f_of_int_le_63 [of n] by (simp add: is_ns_def)
qed (simp add: is_ns_def f0_def)

lemma is_ns_f0 [simp]: "is_ns f0"
  by (simp add: is_ns_def f0_def)

lemma is_ns_percentiles:
  assumes "hdr_laws L" "KernelPercentiles L h = (p50, p90, p99, p999)"
  shows "is_ns p50" "is_ns p90" "is_ns p99" "is_ns p999"
proof -
  obtain g where "KernelPercentiles L h =
     (f_of_int (hd_ValueAtQuantile L 50 g), f_of_int (hd_ValueAtQuantile L 90 g),
      f_of_int (hd_ValueAtQuantile L 99 g), f_of_int (hd_ValueAtQuantile L (999/10) g))"
    using KernelPercentiles_source [of L h] by auto
  with assms show "is_ns p50" "is_ns p90" "is_ns p99" "is_ns p999"
    by (auto simp: hdr_laws_def intro!: is_ns_f_of_int)
qed

lemma ratio_fin:
  assumes "is_ns x" "is_ns y" "flt f0 y"
  shows "is_fin (fdiv x y)"
proof -
  have y: "1 \<le> fval y" using assms(2,3) by (cases y) (auto simp: is_ns_def f0_def)
  have "fval x / fval y \<le> 2 ^ 63 / 1" using assms(1) y by (intro frac_le) (auto simp: is_ns_def)
  moreover have "0 \<le> fval x / fval y" using assms(1) y by (intro divide_nonneg_nonneg) (auto simp: is_ns_def)
  ultimately have "is_fin (rnd (fval x / fval y))" by (intro rnd_num_bounded) simp
  with assms y show ?thesis by (intro fdiv_num [THEN conjunct1]) (auto simp: is_ns_def)
qed

lemma million_fin: "in64 n \<Longrightarrow> is_fin (fdiv (f_of_int n) (Num False 1000000))"
proof -
  assume n: "in64 n"
  have "\<bar>fval (f_of_int n)\<bar> \<le> 2 ^ 63"
  proof (cases "0 \<le> n")
    case True
    then show ?thesis using f_of_int_nonneg [OF _ n] f_of_int_le_63 [OF _ n] by simp
  next
    case False
    have "f_of_int (- (2 ^ 63)) = Num True (2 ^ 63)"
      by (simp add: f_of_int_def rnd_def fround_def Let_def float_eval)
    moreover have "fle (f_of_int (- (2 ^ 63))) (f_of_int n)" using n by (intro f_of_int_mono) (simp add: in64_def)
    moreover have "fle (f_of_int n) (f_of_int 0)" using False by (intro f_of_int_mono) simp
    ultimately show ?thesis using f_of_int_is_num [OF n] by (cases "f_of_int n") (auto simp: f0_def)
  qed
  then have "\<bar>fval (f_of_int n) / 1000000\<bar> \<le> 2 ^ 64" by simp
  then have "is_fin (rnd (fval (f_of_int n) / 1000000))" by (rule rnd_num_bounded)
  with f_of_int_is_num [OF n] show ?thesis by (intro fdiv_num [THEN conjunct1]) auto
qed

section \<open>The session invariant\<close>

text \<open>
  What holds of a session after at most \<open>n\<close> metrics: the validator was never used, the
  counters are ordered, the rates and latencies are numbers, and the history holds at most
  30 scores, each from 0 to 100.
\<close>

definition session_ok :: "nat \<Rightarrow> 'h sessionState \<Rightarrow> bool" where
  "session_ok n s \<longleftrightarrow>
     ss_validator s = NewValidator \<and>
     0 \<le> ss_correctFills s \<and> ss_correctFills s \<le> ss_totalFills s \<and>
     ss_totalFills s \<le> ss_orderCount s \<and> ss_orderCount s \<le> int n \<and>
     is_fin (ss_peakTPS s) \<and> is_ns (ss_baselineP99NS s) \<and> is_ns (ss_chaosP99NS s) \<and>
     length (ss_scoreHistory s) \<le> 30 \<and> (\<forall>x \<in> set (ss_scoreHistory s). fbetween 0 100 x)"

lemma session_ok_new [simp]: "session_ok n (new_session L now)"
  by (simp add: session_ok_def new_session_def f0_def [symmetric]) (simp add: f0_def)

lemma session_ok_mono: "session_ok n s \<Longrightarrow> n \<le> m \<Longrightarrow> session_ok m s"
  by (auto simp: session_ok_def)

text \<open>The fields one metric can change, the peak rate apart.\<close>

lemma note_frames [simp]:
  "ss_validator (note_team m s) = ss_validator s" "ss_startedAt (note_team m s) = ss_startedAt s"
  "ss_orderCount (note_team m s) = ss_orderCount s" "ss_totalFills (note_team m s) = ss_totalFills s"
  "ss_correctFills (note_team m s) = ss_correctFills s" "ss_scoreHistory (note_team m s) = ss_scoreHistory s"
  "ss_baselineP99NS (note_team m s) = ss_baselineP99NS s" "ss_chaosP99NS (note_team m s) = ss_chaosP99NS s"
  "ss_maxActiveBots (note_team m s) = ss_maxActiveBots s" "ss_peakTPS (note_team m s) = ss_peakTPS s"
  "ss_validator (note_app L m s) = ss_validator s" "ss_startedAt (note_app L m s) = ss_startedAt s"
  "ss_orderCount (note_app L m s) = ss_orderCount s" "ss_totalFills (note_app L m s) = ss_totalFills s"
  "ss_correctFills (note_app L m s) = ss_correctFills s" "ss_scoreHistory (note_app L m s) = ss_scoreHistory s"
  "ss_baselineP99NS (note_app L m s) = ss_baselineP99NS s" "ss_chaosP99NS (note_app L m s) = ss_chaosP99NS s"
  "ss_maxActiveBots (note_app L m s) = ss_maxActiveBots s" "ss_peakTPS (note_app L m s) = ss_peakTPS s"
  "ss_validator (note_kernel L m s) = ss_validator s" "ss_startedAt (note_kernel L m s) = ss_startedAt s"
  "ss_orderCount (note_kernel L m s) = ss_orderCount s" "ss_totalFills (note_kernel L m s) = ss_totalFills s"
  "ss_correctFills (note_kernel L m s) = ss_correctFills s" "ss_scoreHistory (note_kernel L m s) = ss_scoreHistory s"
  "ss_baselineP99NS (note_kernel L m s) = ss_baselineP99NS s" "ss_chaosP99NS (note_kernel L m s) = ss_chaosP99NS s"
  "ss_maxActiveBots (note_kernel L m s) = ss_maxActiveBots s" "ss_peakTPS (note_kernel L m s) = ss_peakTPS s"
  "ss_validator (note_fill m s) = ss_validator s" "ss_startedAt (note_fill m s) = ss_startedAt s"
  "ss_orderCount (note_fill m s) = ss_orderCount s" "ss_scoreHistory (note_fill m s) = ss_scoreHistory s"
  "ss_baselineP99NS (note_fill m s) = ss_baselineP99NS s" "ss_chaosP99NS (note_fill m s) = ss_chaosP99NS s"
  "ss_maxActiveBots (note_fill m s) = ss_maxActiveBots s" "ss_peakTPS (note_fill m s) = ss_peakTPS s"
  "ss_validator (note_bots m s) = ss_validator s" "ss_startedAt (note_bots m s) = ss_startedAt s"
  "ss_orderCount (note_bots m s) = ss_orderCount s" "ss_totalFills (note_bots m s) = ss_totalFills s"
  "ss_correctFills (note_bots m s) = ss_correctFills s" "ss_scoreHistory (note_bots m s) = ss_scoreHistory s"
  "ss_baselineP99NS (note_bots m s) = ss_baselineP99NS s" "ss_chaosP99NS (note_bots m s) = ss_chaosP99NS s"
  "ss_peakTPS (note_bots m s) = ss_peakTPS s"
  "ss_validator (note_archetype m s) = ss_validator s" "ss_startedAt (note_archetype m s) = ss_startedAt s"
  "ss_orderCount (note_archetype m s) = ss_orderCount s" "ss_totalFills (note_archetype m s) = ss_totalFills s"
  "ss_correctFills (note_archetype m s) = ss_correctFills s" "ss_scoreHistory (note_archetype m s) = ss_scoreHistory s"
  "ss_baselineP99NS (note_archetype m s) = ss_baselineP99NS s" "ss_chaosP99NS (note_archetype m s) = ss_chaosP99NS s"
  "ss_maxActiveBots (note_archetype m s) = ss_maxActiveBots s" "ss_peakTPS (note_archetype m s) = ss_peakTPS s"
  "ss_validator (note_order t s) = ss_validator s" "ss_startedAt (note_order t s) = ss_startedAt s"
  "ss_totalFills (note_order t s) = ss_totalFills s" "ss_correctFills (note_order t s) = ss_correctFills s"
  "ss_scoreHistory (note_order t s) = ss_scoreHistory s" "ss_baselineP99NS (note_order t s) = ss_baselineP99NS s"
  "ss_chaosP99NS (note_order t s) = ss_chaosP99NS s" "ss_maxActiveBots (note_order t s) = ss_maxActiveBots s"
  by (simp_all add: note_team_def note_app_def note_kernel_def note_fill_def note_bots_def
      note_archetype_def note_order_def Let_def)

lemma ingest_fields:
  "ss_validator (ingest L m t s) = ss_validator s"
  "ss_startedAt (ingest L m t s) = ss_startedAt s"
  "ss_orderCount (ingest L m t s) = wrap64 (ss_orderCount s + 1)"
  "ss_totalFills (ingest L m t s) =
     (if flt f0 (rm_FillPrice m) \<or> 0 < rm_FillQty m then wrap64 (ss_totalFills s + 1) else ss_totalFills s)"
  "ss_correctFills (ingest L m t s) =
     (if (flt f0 (rm_FillPrice m) \<or> 0 < rm_FillQty m) \<and> rm_Correct m then wrap64 (ss_correctFills s + 1)
      else ss_correctFills s)"
  "ss_scoreHistory (ingest L m t s) = ss_scoreHistory s"
  "ss_baselineP99NS (ingest L m t s) = ss_baselineP99NS s"
  "ss_chaosP99NS (ingest L m t s) = ss_chaosP99NS s"
  "ss_maxActiveBots (ingest L m t s) = max (ss_maxActiveBots s) (rm_ActiveBots m)"
  by (simp_all add: ingest_def) (simp_all add: note_order_def note_fill_def note_bots_def Let_def)

lemma ingest_peak:
  "ss_peakTPS (ingest L m t s) = ss_peakTPS s \<or>
   (flt f0 (duration_seconds (time_sub t (ss_startedAt s))) \<and>
    ss_peakTPS (ingest L m t s) =
      fdiv (f_of_int (wrap64 (ss_orderCount s + 1))) (duration_seconds (time_sub t (ss_startedAt s))))"
  by (simp add: ingest_def note_order_def Let_def)

lemma session_ok_ingest:
  assumes "session_ok n s" "int n < 2 ^ 62"
  shows "session_ok (Suc n) (ingest L m t s)"
proof -
  have b: "in64 (ss_orderCount s + 1)" "in64 (ss_totalFills s + 1)" "in64 (ss_correctFills s + 1)"
    using assms by (auto simp: session_ok_def in64_def)
  note w = b [THEN wrap64_id]
  have "is_fin (ss_peakTPS (ingest L m t s))"
    using ingest_peak [of L m t s] assms b(1) tps_bounded [of "ss_orderCount s + 1" "time_sub t (ss_startedAt s)"]
    by (auto simp: session_ok_def w)
  with assms show ?thesis by (simp add: session_ok_def ingest_fields w)
qed

lemma stats_new [simp]: "Stats NewValidator = (0, 0, 0)"
  by (simp add: Stats_def NewValidator_def)

lemma accuracy_range:
  assumes "0 \<le> c" "c \<le> t" "0 < t" "in64 t"
  shows "fbetween 0 1 (fdiv (f_of_int c) (f_of_int t))"
proof -
  have "in64 c" using assms by (auto simp: in64_def)
  note c = f_of_int_nonneg [OF assms(1) this]
  have t: "is_fin (f_of_int t) \<and> 1 \<le> fval (f_of_int t)" using assms by (intro f_of_int_pos) auto
  have "fval (f_of_int c) \<le> fval (f_of_int t)"
    using f_of_int_mono [OF assms(2)] c t by (cases "f_of_int c"; cases "f_of_int t") auto
  then show ?thesis using c t fdiv_between_exact [of "f_of_int c" "f_of_int t" 0 1] by simp
qed

text \<open>With no violation counted the penalty is zero.\<close>

lemma no_violation_rate: "0 < t \<Longrightarrow> in64 t \<Longrightarrow> fmin (Num False 1) (fdiv f0 (f_of_int t)) = f0"
proof -
  assume "0 < t" "in64 t"
  then have f: "is_fin (f_of_int t) \<and> 1 \<le> fval (f_of_int t)" by (intro f_of_int_pos) auto
  moreover have "f_of_int t = fround False (of_int t)" using \<open>0 < t\<close> by (simp add: f_of_int_def rnd_def)
  then have "\<not> signbit (f_of_int t)" by (simp add: fround_def Let_def)
  ultimately show ?thesis by (cases "f_of_int t") (auto simp: f0_def fmin_def)
qed

lemma fmul_f0: "is_fin x \<Longrightarrow> fmul f0 x = Num (signbit x) 0"
  by (cases x) (auto simp: f0_def)

definition tps_of :: "int64 \<times> int64 \<Rightarrow> 'h sessionState \<Rightarrow> float64" where
  "tps_of clk s =
     (let elapsed = duration_seconds (time_sub (fst clk) (ss_startedAt s))
      in if flt f0 elapsed then fdiv (f_of_int (ss_orderCount s)) elapsed else f0)"

definition accuracy_of :: "'h sessionState \<Rightarrow> float64" where
  "accuracy_of s =
     (if 0 < ss_totalFills s then fdiv (f_of_int (ss_correctFills s)) (f_of_int (ss_totalFills s)) else f0)"

text \<open>The fields of the score of a session whose validator was never used.\<close>

lemma score_of_fields:
  assumes ok: "session_ok n s" "int n < 2 ^ 62" and L: "hdr_laws L"
    and p: "KernelPercentiles L (ss_hdr s) = (p50, p90, p99, p999)"
    and c: "c = score_of L log10 sid clk s"
  shows "cs_P50NS c = p50" "cs_P90NS c = p90" "cs_P99NS c = p99" "cs_P999NS c = p999"
    "cs_TPS c = tps_of clk s" "cs_PeakTPS c = ss_peakTPS s" "cs_FillAccuracy c = accuracy_of s"
    "cs_ThroughputScore c = normalizeLinear (tps_of clk s) f0 (Num False 50000)"
    "cs_TailLatencyScore c = normalizeTailLatency log10 p99"
    "cs_CorrectnessScore c = fmul (fmul (accuracy_of s) (Num False 100)) (Num False 1)"
    "cs_ResilienceScore c = normalizeResilience (cs_RecoveryTimeMS c) (cs_DegradationRatio c)"
    "cs_TotalScore c = total_of (cs_ThroughputScore c) (cs_TailLatencyScore c) (cs_CorrectnessScore c) (cs_ResilienceScore c)"
    "cs_PriceTimeViolations c = 0" "cs_ScoreHistory c = []" "cs_SessionID c = sid"
    "is_fin (cs_RecoveryTimeMS c)" "is_fin (cs_DegradationRatio c)"
proof -
  have t: "in64 (ss_totalFills s)" using ok by (auto simp: session_ok_def in64_def)
  have v: "Stats (ss_validator s) = (0, 0, 0)" using ok by (simp add: session_ok_def)
  let ?vr = "if 0 < ss_totalFills s then fmin (fconst 1) (fdiv (f_of_int 0) (f_of_int (ss_totalFills s))) else f0"
  have vr: "?vr = f0" using no_violation_rate [OF _ t] by simp
  have pen: "fsub (Num False 1) (fmul f0 (Num False (1/2))) = Num False 1" by (simp add: f0_def fsub_def)
  have viol: "f_to_int64 (fround_int (fmul f0 (f_of_int (ss_totalFills s)))) = 0"
  proof -
    have "\<lfloor>1 / 2 :: rat\<rfloor> = 0" by (simp add: floor_eq_iff)
    then show ?thesis using f_of_int_is_num [OF t] by (simp add: fmul_f0 f_to_int64_def Let_def)
  qed
  have cc: "c = (let chaos = 0 < ss_chaosEndNS s \<and> flt f0 (ss_baselineP99NS s);
      deg = (if chaos then fdiv (ss_chaosP99NS s) (ss_baselineP99NS s) else Num False 1);
      rec = (if chaos then fdiv (f_of_int (wrap64 (ss_chaosEndNS s - ss_chaosStartNS s))) (Num False 1000000) else f0);
      th = normalizeLinear (tps_of clk s) f0 (Num False 50000);
      ta = normalizeTailLatency log10 p99;
      co = fmul (fmul (accuracy_of s) (Num False 100)) (Num False 1);
      re = normalizeResilience rec deg
    in \<lparr>cs_SessionID = sid, cs_TeamName = ss_teamName s, cs_P50NS = p50, cs_P90NS = p90, cs_P99NS = p99,
            cs_P999NS = p999, cs_TPS = tps_of clk s, cs_PeakTPS = ss_peakTPS s, cs_FillAccuracy = accuracy_of s,
            cs_PriceTimeViolations = 0,
            cs_RecoveryTimeMS = rec, cs_DegradationRatio = deg,
            cs_ThroughputScore = th, cs_TailLatencyScore = ta,
            cs_CorrectnessScore = co, cs_ResilienceScore = re,
            cs_TotalScore = total_of th ta co re, cs_ActiveBots = ss_maxActiveBots s, cs_ScoreHistory = [],
            cs_ArchetypeCounts = ss_archetypeCounts s, cs_ComputedAt = snd clk\<rparr>)"
    unfolding c score_of_def p v prod.case Let_def
    unfolding vr
    unfolding fconst_0 fconst_1 fconst_half
    unfolding pen viol tps_of_def [of clk s, unfolded Let_def, symmetric] accuracy_of_def [symmetric]
    by simp
  show "cs_P50NS c = p50" "cs_P90NS c = p90" "cs_P99NS c = p99" "cs_P999NS c = p999"
    "cs_TPS c = tps_of clk s" "cs_PeakTPS c = ss_peakTPS s" "cs_FillAccuracy c = accuracy_of s"
    "cs_ThroughputScore c = normalizeLinear (tps_of clk s) f0 (Num False 50000)"
    "cs_TailLatencyScore c = normalizeTailLatency log10 p99"
    "cs_CorrectnessScore c = fmul (fmul (accuracy_of s) (Num False 100)) (Num False 1)"
    "cs_ResilienceScore c = normalizeResilience (cs_RecoveryTimeMS c) (cs_DegradationRatio c)"
    "cs_TotalScore c = total_of (cs_ThroughputScore c) (cs_TailLatencyScore c) (cs_CorrectnessScore c) (cs_ResilienceScore c)"
    "cs_PriceTimeViolations c = 0" "cs_ScoreHistory c = []" "cs_SessionID c = sid"
    unfolding cc Let_def by simp_all
  show "is_fin (cs_RecoveryTimeMS c)"
    unfolding cc Let_def by (simp add: million_fin) (simp add: f0_def)
  show "is_fin (cs_DegradationRatio c)"
    unfolding cc Let_def using ok ratio_fin by (auto simp: session_ok_def)
qed

text \<open>What every score published says.\<close>

definition score_good :: "CompositeScore \<Rightarrow> bool" where
  "score_good c \<longleftrightarrow>
     fbetween 0 100 (cs_ThroughputScore c) \<and> fbetween 0 100 (cs_TailLatencyScore c) \<and>
     fbetween 0 100 (cs_CorrectnessScore c) \<and> fbetween 0 100 (cs_ResilienceScore c) \<and>
     fbetween 0 100 (cs_TotalScore c) \<and> fbetween 0 1 (cs_FillAccuracy c) \<and>
     cs_PriceTimeViolations c = 0 \<and> json_ok c \<and> length (cs_ScoreHistory c) \<le> 30"

lemma accuracy_of_range:
  assumes "session_ok n s" "int n < 2 ^ 62"
  shows "fbetween 0 1 (accuracy_of s)"
proof (cases "0 < ss_totalFills s")
  case True
  moreover have "in64 (ss_totalFills s)" using assms by (auto simp: session_ok_def in64_def)
  ultimately show ?thesis
    using accuracy_range [of "ss_correctFills s" "ss_totalFills s"] assms by (simp add: accuracy_of_def session_ok_def)
qed (simp add: accuracy_of_def fbetween_def f0_def)

lemma tps_of_fin:
  assumes "session_ok n s" "int n < 2 ^ 62"
  shows "is_fin (tps_of clk s)"
proof -
  have "in64 (ss_orderCount s)" "0 \<le> ss_orderCount s" using assms by (auto simp: session_ok_def in64_def)
  then show ?thesis by (auto simp: tps_of_def Let_def tps_bounded) (simp add: f0_def)
qed

lemma score_of_good:
  assumes ok: "session_ok n s" "int n < 2 ^ 62" and L: "hdr_laws L" and lg: "log10_laws log10"
    and h: "length h \<le> 30" "\<forall>x \<in> set h. fbetween 0 100 x"
  shows "score_good (score_of L log10 sid clk s\<lparr>cs_ScoreHistory := h\<rparr>)"
proof -
  obtain p50 p90 p99 p999 where p: "KernelPercentiles L (ss_hdr s) = (p50, p90, p99, p999)" by (metis prod_cases4)
  define c where "c = score_of L log10 sid clk s"
  note f = score_of_fields [OF ok L p c_def]
  note a = accuracy_of_range [OF ok] and t = tps_of_fin [OF ok, of clk]
  note ns = is_ns_percentiles [OF L p]
  have th: "fbetween 0 100 (cs_ThroughputScore c)"
    unfolding f(8) using t by (intro normalizeLinear_range) (auto simp: fbetween_def)
  have ta: "fbetween 0 100 (cs_TailLatencyScore c)"
    unfolding f(9) using ns(3) by (intro normalizeTailLatency_range lg) (simp add: is_ns_def)
  have "fbetween 0 100 (fmul (accuracy_of s) (Num False 100))"
    using fmul_between [OF a, of 100 100 "Num False 100"] by (simp add: fbetween_def)
  then have co: "fbetween 0 100 (cs_CorrectnessScore c)"
    unfolding f(10) using fmul_between [of 0 100 "fmul (accuracy_of s) (Num False 100)" 1 1 "Num False 1"]
    by (simp add: fbetween_def)
  have re: "fbetween 0 100 (cs_ResilienceScore c)"
    unfolding f(11) using f(16,17) by (intro normalizeResilience_range) auto
  have tot: "fbetween 0 100 (cs_TotalScore c)"
    unfolding f(12) by (intro total_of_range th ta co re)
  have "list_all is_fin h" using h(2) by (auto simp: list_all_iff fbetween_def)
  with th ta co re tot a t f(16,17) ns ok(1) have "json_ok (c\<lparr>cs_ScoreHistory := h\<rparr>)"
    by (simp add: json_ok_def f(1-7) is_ns_def session_ok_def fbetween_def)
  with th ta co re tot a h(1) show ?thesis by (simp add: score_good_def c_def [symmetric] f(7,13))
qed

section \<open>The engine invariant\<close>

definition engine_ok :: "nat \<Rightarrow> 'h Engine \<Rightarrow> bool" where
  "engine_ok n e \<longleftrightarrow>
     (\<forall>sid s. en_sessions e sid = Some s \<longrightarrow> session_ok n s) \<and> (\<forall>c \<in> set (en_written e). score_good c)"

lemma engine_ok_new [simp]: "engine_ok n (NewEngine st)"
  by (simp add: engine_ok_def NewEngine_def)

lemma engine_ok_store [simp]: "engine_ok n (e\<lparr>en_store := st\<rparr>) = engine_ok n e"
  by (simp add: engine_ok_def)

lemma engine_ok_mono: "engine_ok n e \<Longrightarrow> n \<le> m \<Longrightarrow> engine_ok m e"
  by (auto simp: engine_ok_def intro: session_ok_mono)

lemma engine_ok_upd:
  "engine_ok n e \<Longrightarrow> session_ok n s \<Longrightarrow> engine_ok n (e\<lparr>en_sessions := (en_sessions e)(sid \<mapsto> s)\<rparr>)"
  by (simp add: engine_ok_def)

lemma getOrCreate_ok:
  assumes "engine_ok n e" "getOrCreateSession L sid now e = (s, e1)"
  shows "session_ok n s \<and> engine_ok n e1 \<and> en_sessions e1 sid = Some s \<and> en_written e1 = en_written e \<and>
    en_store e1 = en_store e \<and> (\<forall>x. x \<noteq> sid \<longrightarrow> en_sessions e1 x = en_sessions e x)"
  using assms by (auto simp: getOrCreateSession_def Let_def engine_ok_def split: option.splits if_splits)

lemma handle_metric_ok:
  assumes "engine_ok n e" "int n < 2 ^ 62"
  shows "engine_ok (Suc n) (fst (handle_metric L m clk e)) \<and> snd (handle_metric L m clk e) \<noteq> Some MarshalError"
proof -
  obtain s e1 where g: "getOrCreateSession L (rm_SessionID m) (fst clk) e = (s, e1)" by force
  from getOrCreate_ok [OF assms(1) g] have s: "session_ok n s" and e: "engine_ok n e1" by auto
  have "engine_ok (Suc n) e1" by (rule engine_ok_mono [OF e]) simp
  from engine_ok_upd [OF this session_ok_ingest [OF s assms(2)]]
  have "engine_ok (Suc n) (e1\<lparr>en_sessions := (en_sessions e1)(rm_SessionID m \<mapsto> ingest L m (snd clk) s)\<rparr>)" .
  then show ?thesis by (simp add: handle_metric_def g Let_def split: sum.split)
qed

lemma ingest_all_ok:
  "engine_ok n e \<Longrightarrow> int (n + length ms) < 2 ^ 62 \<Longrightarrow>
     engine_ok (n + length ms) (fst (ingest_all L ms clk i e)) \<and> snd (ingest_all L ms clk i e) \<noteq> Some MarshalError"
proof (induction ms arbitrary: n i e)
  case (Cons m ms)
  from handle_metric_ok [OF Cons.prems(1), of L m "clk i"] Cons.prems(2)
  have h: "engine_ok (Suc n) (fst (handle_metric L m (clk i) e))" "snd (handle_metric L m (clk i) e) \<noteq> Some MarshalError"
    by auto
  obtain e' r where r: "handle_metric L m (clk i) e = (e', r)" by force
  show ?case
  proof (cases r)
    case None
    with Cons.IH [of "Suc n" e' "Suc i"] Cons.prems(2) h r show ?thesis by simp
  next
    case (Some err)
    with h r engine_ok_mono [of "Suc n" e' "n + length (m # ms)"] show ?thesis by simp
  qed
qed simp

lemma publish_ok:
  assumes "engine_ok n e" "score_good c"
  shows "engine_ok n (fst (publish kafka_ok c e)) \<and> snd (publish kafka_ok c e) \<noteq> Some MarshalError"
  using assms by (auto simp: publish_def engine_ok_def score_good_def Let_def split: sum.split)

lemma blank_score_good: "score_good (blank_score sid)"
  by (simp add: score_good_def blank_score_def json_ok_def fbetween_def f0_def)

text \<open>The history a session has after the score \<open>x\<close>.\<close>

definition push_history :: "float64 list \<Rightarrow> float64 \<Rightarrow> float64 list" where
  "push_history h x = keep_last 30 (h @ [x])"

lemma push_history_ok:
  "length (push_history h x) \<le> 30" "\<forall>y \<in> set (h @ [x]). P y \<Longrightarrow> \<forall>y \<in> set (push_history h x). P y"
  using set_keep_last [of 30 "h @ [x]"] by (auto simp: push_history_def)

lemma emit_score_Some:
  "en_sessions e sid = Some s \<Longrightarrow>
     emit_score L log10 sid clk kafka_ok e =
       (let c = score_of L log10 sid clk s; h = push_history (ss_scoreHistory s) (cs_TotalScore c)
        in publish kafka_ok (c\<lparr>cs_ScoreHistory := h\<rparr>)
             (e\<lparr>en_sessions := (en_sessions e)(sid \<mapsto> s\<lparr>ss_scoreHistory := h\<rparr>)\<rparr>))"
  by (simp add: emit_score_def Compute_def push_history_def keep_last_def Let_def)

lemma emit_score_ok:
  assumes "engine_ok n e" "int n < 2 ^ 62" "hdr_laws L" "log10_laws log10"
  shows "engine_ok n (fst (emit_score L log10 sid clk kafka_ok e)) \<and>
    snd (emit_score L log10 sid clk kafka_ok e) \<noteq> Some MarshalError"
proof (cases "en_sessions e sid")
  case None
  then show ?thesis
    using publish_ok [OF assms(1) blank_score_good] by (simp add: emit_score_def Compute_def Let_def)
next
  case (Some s)
  then have ok: "session_ok n s" using assms by (auto simp: engine_ok_def)
  define c where "c = score_of L log10 sid clk s"
  define h where "h = push_history (ss_scoreHistory s) (cs_TotalScore c)"
  have "score_good (c\<lparr>cs_ScoreHistory := []\<rparr>)"
    unfolding c_def by (rule score_of_good [OF ok assms(2-4)]) simp_all
  then have h: "length h \<le> 30" "\<forall>x \<in> set h. fbetween 0 100 x"
    using ok unfolding h_def by (intro push_history_ok; auto simp: score_good_def session_ok_def)+
  have "session_ok n (s\<lparr>ss_scoreHistory := h\<rparr>)" using ok h by (simp add: session_ok_def)
  moreover have "score_good (c\<lparr>cs_ScoreHistory := h\<rparr>)"
    unfolding c_def by (rule score_of_good [OF ok assms(2-4) h])
  ultimately have "engine_ok n (fst (publish kafka_ok (c\<lparr>cs_ScoreHistory := h\<rparr>)
      (e\<lparr>en_sessions := (en_sessions e)(sid \<mapsto> s\<lparr>ss_scoreHistory := h\<rparr>)\<rparr>))) \<and>
    snd (publish kafka_ok (c\<lparr>cs_ScoreHistory := h\<rparr>)
      (e\<lparr>en_sessions := (en_sessions e)(sid \<mapsto> s\<lparr>ss_scoreHistory := h\<rparr>)\<rparr>)) \<noteq> Some MarshalError"
    by (intro publish_ok engine_ok_upd assms(1))
  then show ?thesis by (simp add: emit_score_Some [OF Some] Let_def c_def [symmetric] h_def [symmetric])
qed

lemma emit_all_ok:
  assumes "int n < 2 ^ 62" "hdr_laws L" "log10_laws log10"
  shows "engine_ok n e \<Longrightarrow> engine_ok n (fst (emit_all L log10 seen ms clk kafka i e)) \<and>
    snd (emit_all L log10 seen ms clk kafka i e) \<noteq> Some MarshalError"
proof (induction ms arbitrary: seen i e)
  case (Cons m ms)
  show ?case
  proof (cases "rm_SessionID m \<in> set seen")
    case True
    with Cons show ?thesis by simp
  next
    case False
    obtain e' r where r: "emit_score L log10 (rm_SessionID m) (clk i) (kafka i) e = (e', r)" by force
    from emit_score_ok [OF Cons.prems assms, of "rm_SessionID m" "clk i" "kafka i"]
    have ok: "engine_ok n e'" "r \<noteq> Some MarshalError" by (simp_all add: r)
    show ?thesis
    proof (cases r)
      case None
      with False r Cons.IH [OF ok(1)] show ?thesis by simp
    next
      case (Some err)
      with False r ok show ?thesis by simp
    qed
  qed
qed simp

lemma Handle_ok:
  assumes "engine_ok n e" "int (n + length ms) < 2 ^ 62" "hdr_laws L" "log10_laws log10"
  shows "engine_ok (n + length ms) (fst (Handle L log10 v ms e)) \<and> snd (Handle L log10 v ms e) \<noteq> Some MarshalError"
proof -
  obtain e' r where r: "ingest_all L ms (he_ingest v) 0 e = (e', r)" by force
  from ingest_all_ok [OF assms(1,2), of L "he_ingest v" 0]
  have ok: "engine_ok (n + length ms) e'" "r \<noteq> Some MarshalError" by (simp_all add: r)
  show ?thesis
  proof (cases r)
    case None
    with r emit_all_ok [OF assms(2-4) ok(1)] show ?thesis by (simp add: Handle_def)
  next
    case (Some err)
    with r ok show ?thesis by (simp add: Handle_def)
  qed
qed

lemma HandleChaosEvent_ok:
  assumes "engine_ok n e" "hdr_laws L"
  shows "engine_ok n (HandleChaosEvent L now ev e)"
proof -
  obtain s e1 where g: "getOrCreateSession L (ce_SessionID ev) now e = (s, e1)" by force
  from getOrCreate_ok [OF assms(1) g] have s: "session_ok n s" and e: "engine_ok n e1" by auto
  obtain p50 p90 p99 p999 where p: "KernelPercentiles L (ss_hdr s) = (p50, p90, p99, p999)" by (metis prod_cases4)
  have "is_ns p99" using is_ns_percentiles [OF assms(2) p] by simp
  with s have "session_ok n (if ce_EventType ev = ''chaos_start''
      then s\<lparr>ss_chaosStartNS := ce_TimestampNS ev, ss_baselineP99NS := p99\<rparr>
      else if ce_EventType ev = ''chaos_end''
      then s\<lparr>ss_chaosEndNS := ce_TimestampNS ev, ss_chaosP99NS := p99\<rparr> else s)"
    by (simp add: session_ok_def)
  from engine_ok_upd [OF e this] show ?thesis by (simp add: HandleChaosEvent_def g p Let_def)
qed

section \<open>The engine behind the handler interface\<close>

text \<open>
  The world of the consumer's loops: the engine and the number of calls made, which picks
  the clock readings and Kafka outcomes of the next one. A panic of a write on a closed
  store ends the process: the world stays as it is.
\<close>

type_synonym 'h scorer_world = "'h Engine \<times> nat"

definition world_handle ::
  "'h hdr_lib \<Rightarrow> (float64 \<Rightarrow> float64) \<Rightarrow> (nat \<Rightarrow> handle_env) \<Rightarrow> 'h scorer_world \<Rightarrow> RawMetric list \<Rightarrow> 'h scorer_world" where
  "world_handle L log10 env w ms = (fst (Handle L log10 (env (snd w)) ms (fst w)), Suc (snd w))"

definition world_chaos ::
  "'h hdr_lib \<Rightarrow> (nat \<Rightarrow> int64) \<Rightarrow> 'h scorer_world \<Rightarrow> ChaosEvent \<Rightarrow> 'h scorer_world" where
  "world_chaos L now w ev = (HandleChaosEvent L (now (snd w)) ev (fst w), Suc (snd w))"

definition world_write :: "KernelLatencyRow \<Rightarrow> 'h scorer_world \<Rightarrow> 'h scorer_world" where
  "world_write r w =
     (case WriteKernelLatency r (en_store (fst w)) of
        Inl err \<Rightarrow> w | Inr st \<Rightarrow> ((fst w)\<lparr>en_store := st\<rparr>, snd w))"

definition world_ok ::
  "'h hdr_lib \<Rightarrow> (float64 \<Rightarrow> float64) \<Rightarrow> nat \<Rightarrow> 'h scorer_world \<Rightarrow> bool" where
  "world_ok L log10 n w \<longleftrightarrow>
     (hdr_laws L \<and> log10_laws log10 \<and> int n < 2 ^ 62 \<longrightarrow> engine_ok n (fst w))"

interpretation telemetry:
  metric_handler "world_handle L log10 env" "world_chaos L now" world_write "world_ok L log10"
proof
  fix n m :: nat and w :: "'a scorer_world" and ms ev r
  show "world_ok L log10 n w \<Longrightarrow> world_ok L log10 (n + length ms) (world_handle L log10 env w ms)"
    using Handle_ok [of n "fst w" ms L log10 "env (snd w)"] by (auto simp: world_ok_def world_handle_def)
  show "world_ok L log10 n w \<Longrightarrow> world_ok L log10 n (world_chaos L now w ev)"
    by (simp add: world_ok_def world_chaos_def HandleChaosEvent_ok)
  show "world_ok L log10 n w \<Longrightarrow> world_ok L log10 n (world_write r w)"
    by (simp add: world_ok_def world_write_def split: sum.split)
  show "world_ok L log10 n w \<Longrightarrow> n \<le> m \<Longrightarrow> world_ok L log10 m w"
    by (auto simp: world_ok_def intro: engine_ok_mono)
qed

section \<open>What one call does\<close>

text \<open>The metrics of a session, and its counters.\<close>

definition metrics_of :: "string \<Rightarrow> RawMetric list \<Rightarrow> RawMetric list" where
  "metrics_of sid ms = filter (\<lambda>m. rm_SessionID m = sid) ms"

definition is_fill :: "RawMetric \<Rightarrow> bool" where
  "is_fill m \<longleftrightarrow> flt f0 (rm_FillPrice m) \<or> 0 < rm_FillQty m"

definition counts_of :: "'h Engine \<Rightarrow> string \<Rightarrow> int \<times> int \<times> int" where
  "counts_of e sid =
     (case en_sessions e sid of None \<Rightarrow> (0, 0, 0)
      | Some s \<Rightarrow> (ss_orderCount s, ss_totalFills s, ss_correctFills s))"

definition add_counts :: "RawMetric list \<Rightarrow> int \<times> int \<times> int \<Rightarrow> int \<times> int \<times> int" where
  "add_counts ms c =
     (case c of (o1, t, k) \<Rightarrow>
        (o1 + int (length ms), t + int (length (filter is_fill ms)),
         k + int (length (filter (\<lambda>m. is_fill m \<and> rm_Correct m) ms))))"

lemma add_counts_Nil [simp]: "add_counts [] c = c"
  by (cases c) (simp add: add_counts_def)

lemma add_counts_Cons: "add_counts (m # ms) c = add_counts ms (add_counts [m] c)"
  by (cases c) (simp add: add_counts_def)

lemma handle_metric_counts:
  assumes "engine_ok n e" "int n < 2 ^ 62"
  shows "counts_of (fst (handle_metric L m clk e)) sid =
    add_counts (metrics_of sid [m]) (counts_of e sid)"
proof -
  obtain s e1 where g: "getOrCreateSession L (rm_SessionID m) (fst clk) e = (s, e1)" by force
  note k = getOrCreate_ok [OF assms(1) g]
  have b: "in64 (ss_orderCount s + 1)" "in64 (ss_totalFills s + 1)" "in64 (ss_correctFills s + 1)"
    using k assms(2) by (auto simp: session_ok_def in64_def)
  have c: "counts_of e (rm_SessionID m) = (ss_orderCount s, ss_totalFills s, ss_correctFills s)"
    using g by (auto simp: getOrCreateSession_def counts_of_def new_session_def Let_def split: option.splits)
  have e1: "en_sessions e1 x = en_sessions e x" if "x \<noteq> rm_SessionID m" for x using k that by auto
  show ?thesis
  proof (cases "rm_SessionID m = sid")
    case True
    then show ?thesis using c b
      by (auto simp: handle_metric_def g Let_def counts_of_def metrics_of_def add_counts_def is_fill_def
          ingest_fields wrap64_id split: sum.split)
  next
    case False
    then show ?thesis using e1 [of sid]
      by (auto simp: handle_metric_def g Let_def counts_of_def metrics_of_def split: sum.split)
  qed
qed

lemma ingest_all_counts:
  "engine_ok n e \<Longrightarrow> int (n + length ms) < 2 ^ 62 \<Longrightarrow> ingest_all L ms clk i e = (e', None) \<Longrightarrow>
     counts_of e' sid = add_counts (metrics_of sid ms) (counts_of e sid)"
proof (induction ms arbitrary: n i e)
  case Nil
  then show ?case by (simp add: metrics_of_def)
next
  case (Cons m ms)
  from Cons.prems(3) obtain e1 where h: "handle_metric L m (clk i) e = (e1, None)"
    and r: "ingest_all L ms clk (Suc i) e1 = (e', None)"
    by (auto split: prod.splits option.splits)
  have "engine_ok (Suc n) e1"
    using handle_metric_ok [OF Cons.prems(1), of L m "clk i"] Cons.prems(2) h by simp
  from Cons.IH [OF this _ r] Cons.prems(2)
  have "counts_of e' sid = add_counts (metrics_of sid ms) (counts_of e1 sid)" by simp
  also have "counts_of e1 sid = add_counts (metrics_of sid [m]) (counts_of e sid)"
    using handle_metric_counts [OF Cons.prems(1), of L m "clk i" sid] Cons.prems(2) h by simp
  finally show ?case
    using add_counts_Cons [of m "metrics_of sid ms" "counts_of e sid"]
    by (cases "rm_SessionID m = sid") (simp_all add: metrics_of_def)
qed

lemma emit_score_counts: "counts_of (fst (emit_score L log10 sid clk k e)) x = counts_of e x"
  by (auto simp: emit_score_def publish_def counts_of_def Let_def split: option.split sum.split)

lemma emit_all_counts: "counts_of (fst (emit_all L log10 seen ms clk k i e)) x = counts_of e x"
proof (induction ms arbitrary: seen i e)
  case (Cons m ms)
  obtain e' r where r: "emit_score L log10 (rm_SessionID m) (clk i) (k i) e = (e', r)" by force
  have "counts_of e' x = counts_of e x"
    using emit_score_counts [of L log10 "rm_SessionID m" "clk i" "k i" e x] r by simp
  with Cons.IH [of "rm_SessionID m # seen" "Suc i" e'] Cons.IH [of seen "Suc i" e]
  show ?case by (cases r) (simp_all add: r)
qed simp

text \<open>The sessions of a batch, each where it first occurs.\<close>

fun first_seen :: "string list \<Rightarrow> RawMetric list \<Rightarrow> string list" where
  "first_seen seen [] = []"
| "first_seen seen (m # ms) =
     (if rm_SessionID m \<in> set seen then first_seen seen ms
      else rm_SessionID m # first_seen (rm_SessionID m # seen) ms)"

lemma publish_writes:
  "publish k c e = (e', None) \<Longrightarrow> en_written e' = en_written e @ [c] \<and> en_sessions e' = en_sessions e"
  by (auto simp: publish_def Let_def split: if_splits sum.splits)

lemma Compute_session [simp]: "cs_SessionID (score_of L log10 sid clk s) = sid"
  by (simp add: score_of_def Let_def split: prod.split)

lemma emit_score_writes:
  assumes "emit_score L log10 sid clk k e = (e', None)"
  shows "\<exists>c. en_written e' = en_written e @ [c] \<and> cs_SessionID c = sid"
proof (cases "en_sessions e sid")
  case None
  with assms have "publish k (blank_score sid) e = (e', None)" by (simp add: emit_score_def Compute_def Let_def)
  from publish_writes [OF this] show ?thesis by (auto simp: blank_score_def)
next
  case (Some s)
  with assms publish_writes show ?thesis by (fastforce simp: emit_score_Some Let_def)
qed

lemma emit_all_writes:
  "emit_all L log10 seen ms clk k i e = (e', None) \<Longrightarrow>
     \<exists>cs. en_written e' = en_written e @ cs \<and> map cs_SessionID cs = first_seen seen ms"
proof (induction ms arbitrary: seen i e)
  case (Cons m ms)
  show ?case
  proof (cases "rm_SessionID m \<in> set seen")
    case True
    with Cons show ?thesis by auto
  next
    case False
    with Cons.prems obtain e1 where h: "emit_score L log10 (rm_SessionID m) (clk i) (k i) e = (e1, None)"
      and r: "emit_all L log10 (rm_SessionID m # seen) ms clk k (Suc i) e1 = (e', None)"
      by (auto split: prod.splits option.splits)
    from emit_score_writes [OF h] obtain c where "en_written e1 = en_written e @ [c]" "cs_SessionID c = rm_SessionID m"
      by blast
    moreover from Cons.IH [OF r] obtain cs where "en_written e' = en_written e1 @ cs"
      "map cs_SessionID cs = first_seen (rm_SessionID m # seen) ms" by blast
    ultimately show ?thesis using False by (intro exI [of _ "c # cs"]) simp
  qed
qed simp

lemma handle_metric_written: "en_written (fst (handle_metric L m clk e)) = en_written e"
  by (cases "en_sessions e (rm_SessionID m)")
    (simp_all add: handle_metric_def getOrCreateSession_def Let_def split: sum.split)

lemma ingest_all_written: "en_written (fst (ingest_all L ms clk i e)) = en_written e"
proof (induction ms arbitrary: i e)
  case (Cons m ms)
  obtain e' r where r: "handle_metric L m (clk i) e = (e', r)" by force
  with handle_metric_written [of L m "clk i" e] have "en_written e' = en_written e" by simp
  with Cons.IH [of "Suc i" e'] show ?case by (cases r) (simp_all add: r)
qed simp

section \<open>Better measurements never score less\<close>

lemma fsub_mono1: "is_fin x \<Longrightarrow> is_fin x' \<Longrightarrow> is_fin y \<Longrightarrow> fval x \<le> fval x' \<Longrightarrow> fle (fsub x y) (fsub x' y)"
  by (simp add: fsub_def fadd_le_iff rnd_mono)

lemma fsub_anti2: "is_fin c \<Longrightarrow> fle x x' \<Longrightarrow> fle (fsub c x') (fsub c x)"
proof (cases "is_fin x \<and> is_fin x'")
  case True
  assume "is_fin c" "fle x x'"
  moreover have "fval x \<le> fval x'" using True \<open>fle x x'\<close> by (cases x; cases x') auto
  ultimately show ?thesis using True by (simp add: fsub_def fadd_le_iff rnd_mono)
next
  case False
  assume "is_fin c" "fle x x'"
  with False show ?thesis
    by (cases c; cases x; cases x') (auto simp: fsub_def Let_def rnd_def fround_def)
qed

lemma fscale_num:
  assumes "0 < d"
  shows "fmul (Num s m) (Num False d) = (if m = 0 then Num s 0 else rnd (fval (Num s m) * d))"
    "fmul (Num False d) (Num s m) = (if m = 0 then Num s 0 else rnd (fval (Num s m) * d))"
    "fdiv (Num s m) (Num False d) = (if m = 0 then Num s 0 else rnd (fval (Num s m) / d))"
  using assms by (simp_all add: Let_def mult.commute)

lemma fle_zero: "fle (Num s 0) a \<longleftrightarrow> fle (rnd 0) a" "fle a (Num s 0) \<longleftrightarrow> fle a (rnd 0)"
  by (cases a; simp)+

lemma fscale_le_iff:
  assumes "0 < d"
  shows "fle (fmul (Num s m) (Num False d)) a \<longleftrightarrow> fle (rnd (fval (Num s m) * d)) a"
    "fle a (fmul (Num s m) (Num False d)) \<longleftrightarrow> fle a (rnd (fval (Num s m) * d))"
    "fle (fmul (Num False d) (Num s m)) a \<longleftrightarrow> fle (rnd (fval (Num s m) * d)) a"
    "fle a (fmul (Num False d) (Num s m)) \<longleftrightarrow> fle a (rnd (fval (Num s m) * d))"
    "fle (fdiv (Num s m) (Num False d)) a \<longleftrightarrow> fle (rnd (fval (Num s m) / d)) a"
    "fle a (fdiv (Num s m) (Num False d)) \<longleftrightarrow> fle a (rnd (fval (Num s m) / d))"
  unfolding fscale_num [OF assms] by (auto simp: fle_zero simp del: rnd_0)

lemma fle_rnd_Infty [simp]: "fle (rnd v) (Infty False)" "fle (Infty True) (rnd v)"
  by (cases "rnd v"; simp)+

lemma fscale_mono:
  assumes "fle x y" "0 < d"
  shows "fle (fmul x (Num False d)) (fmul y (Num False d))" "fle (fmul (Num False d) x) (fmul (Num False d) y)"
    "fle (fdiv x (Num False d)) (fdiv y (Num False d))"
proof (atomize (full), cases "is_fin x \<and> is_fin y")
  case True
  then obtain sx mx sy my where xy: "x = Num sx mx" "y = Num sy my" by (cases x; cases y) auto
  then have le: "fval x \<le> fval y" using assms(1) by simp
  have m: "fle (rnd (fval x * d)) (rnd (fval y * d))" "fle (rnd (fval x / d)) (rnd (fval y / d))"
    using le assms(2) by (intro rnd_mono mult_right_mono divide_right_mono; simp)+
  show "fle (fmul x (Num False d)) (fmul y (Num False d)) \<and> fle (fmul (Num False d) x) (fmul (Num False d) y) \<and>
    fle (fdiv x (Num False d)) (fdiv y (Num False d))"
    using m unfolding xy by (simp only: fscale_le_iff [OF assms(2)] simp_thms)
next
  case False
  then show "fle (fmul x (Num False d)) (fmul y (Num False d)) \<and> fle (fmul (Num False d) x) (fmul (Num False d) y) \<and>
    fle (fdiv x (Num False d)) (fdiv y (Num False d))"
  proof (cases x)
    case (Infty s)
    with assms False show ?thesis by (cases y) (auto simp: Let_def split: if_splits)
  next
    case (Num s m)
    with assms False show ?thesis by (cases y) (auto simp: Let_def split: if_splits)
  qed (use assms in auto)
qed

lemma clamp_mono:
  assumes "fle x y" "0 \<le> hi"
  shows "fle (fmin (Num False hi) (fmax f0 x)) (fmin (Num False hi) (fmax f0 y))"
  using assms by (cases x; cases y) (auto simp: fmin_def fmax_def f0_def)

lemma normalizeLinear_mono:
  assumes "is_fin v" "is_fin w" "fval v \<le> fval w" "(numeral k :: int) \<le> 2 ^ 53"
  shows "fle (normalizeLinear v f0 (Num False (numeral k))) (normalizeLinear w f0 (Num False (numeral k)))"
proof -
  have d: "fsub (Num False (numeral k)) f0 = Num False (numeral k)" using assms(4) by (simp add: fsub_f0)
  have "fle (fsub v f0) (fsub w f0)" using assms by (intro fsub_mono1) (simp_all add: f0_def)
  then have "fle (fmul (fdiv (fsub v f0) (Num False (numeral k))) (Num False 100))
      (fmul (fdiv (fsub w f0) (Num False (numeral k))) (Num False 100))"
    by (intro fscale_mono(1,3)) simp_all
  from clamp_mono [OF this, of 100] show ?thesis
    by (simp add: normalizeLinear_def d) (simp add: f0_def)
qed

text \<open>A recovery of five seconds or more scores nothing, and the other half at most 50.\<close>

lemma normalizeResilience_slow:
  assumes "is_fin rec" "5000 \<le> fval rec" "deg \<noteq> NaN"
  shows "fbetween 0 50 (normalizeResilience rec deg)"
proof -
  let ?n = "normalizeLinear rec f0 (Num False 5000)"
  let ?r = "fsub (Num False 100) ?n"
  let ?y = "fmul (fmax f0 (fsub deg (Num False 1))) (Num False 50)"
  let ?d = "fmax f0 (fsub (Num False 100) ?y)"
  have nf: "\<not> feq rec f0" using assms(1,2) by (cases rec) (auto simp: f0_def)
  have "fle (normalizeLinear (Num False 5000) f0 (Num False 5000)) ?n"
    by (rule normalizeLinear_mono) (use assms in simp_all)
  moreover have "normalizeLinear (Num False 5000) f0 (Num False 5000) = Num False 100"
    by (simp add: normalizeLinear_def fsub_f0 f0_def fmin_def fmax_def fsub_def)
  ultimately have "fle (Num False 100) ?n" by simp
  moreover have rn: "fbetween 0 100 ?n" using assms(1) by (intro normalizeLinear_range) auto
  ultimately have "fbetween 100 100 ?n" by (cases ?n) (auto simp: fbetween_def)
  then have r: "fbetween 0 0 ?r"
    using fsub_between [of 100 100 "Num False 100" 100 100] by (simp add: fbetween_def)
  have "fsub deg (Num False 1) \<noteq> NaN" using assms(3) by (simp add: not_NaN_ops)
  from fmul_pos_ge [of "fmax f0 (fsub deg (Num False 1))" 50] fmax_f0_not_NaN [OF this]
  have y: "?y \<noteq> NaN" "fle f0 ?y" by simp_all
  have "fle (fsub (Num False 100) ?y) (Num False 100)" using fsub_le [OF y, of 100] by simp
  then have d: "fbetween 0 100 ?d" using y by (intro fmax_f0_le) (simp_all add: not_NaN_ops)
  have "fbetween 0 100 (fadd ?r ?d)" using fadd_between [OF r d] by simp
  then have "fbetween 0 50 (fdiv (fadd ?r ?d) (Num False 2))"
    using fdiv_between_exact [of "fadd ?r ?d" "Num False 2" 0 50] by (simp add: fbetween_def)
  then show ?thesis using nf by (simp add: normalizeResilience_def Let_def)
qed

lemma log_denominator:
  assumes lg: "log10_laws log10"
  shows "\<exists>d. fsub (log10 (Num False 100000000)) (log10 (Num False 1000)) = Num False d \<and> 0 < d"
proof -
  let ?b = "log10 (Num False 1000)" and ?w = "log10 (Num False 100000000)"
  let ?v = "fval ?w - fval ?b"
  have v: "4 \<le> ?v" "\<bar>?v\<bar> \<le> 2 ^ 64" and fin: "is_fin ?w" "is_fin ?b"
    using lg by (auto simp: log10_laws_def fbetween_def)
  then have "fsub ?w ?b = rnd ?v" by (simp add: fsub_def fadd_fval)
  moreover have "fle (rnd 4) (rnd ?v)" using v by (intro rnd_mono)
  moreover have "is_fin (rnd ?v)" using v(2) by (rule rnd_num_bounded)
  moreover have "\<not> signbit (rnd ?v)" using v by (simp add: rnd_def fround_def Let_def)
  ultimately show ?thesis by (cases "rnd ?v") auto
qed

lemma normalizeTailLatency_anti:
  assumes lg: "log10_laws log10" and p: "is_fin p" "is_fin q" "0 < fval p" "fval p \<le> fval q"
  shows "fle (normalizeTailLatency log10 q) (normalizeTailLatency log10 p)"
proof -
  let ?b = "log10 (Num False 1000)" and ?w = "log10 (Num False 100000000)"
  have l: "is_fin (log10 p)" "is_fin (log10 q)" "is_fin ?b" "is_fin ?w" "fval (log10 p) \<le> fval (log10 q)"
    using assms by (auto simp: log10_laws_def fbetween_def)
  obtain d where d: "fsub ?w ?b = Num False d" "0 < d" using log_denominator [OF lg] by blast
  have "fle (fsub (log10 p) ?b) (fsub (log10 q) ?b)" using l by (intro fsub_mono1)
  then have "fle (fdiv (fsub (log10 p) ?b) (Num False d)) (fdiv (fsub (log10 q) ?b) (Num False d))"
    using d(2) by (rule fscale_mono)
  then have "fle (fmul (Num False 100) (fsub (Num False 1) (fdiv (fsub (log10 q) ?b) (Num False d))))
      (fmul (Num False 100) (fsub (Num False 1) (fdiv (fsub (log10 p) ?b) (Num False d))))"
    by (intro fscale_mono(2) fsub_anti2) simp_all
  from clamp_mono [OF this, of 100] p show ?thesis
    by (cases p; cases q) (auto simp: normalizeTailLatency_def Let_def d f0_def)
qed

section \<open>When a call succeeds\<close>

definition store_open :: "Store option \<Rightarrow> bool" where
  "store_open so = (case so of None \<Rightarrow> True | Some s \<Rightarrow> \<not> st_chClosed s)"

lemma write_to_open: "store_open so \<Longrightarrow> \<exists>so'. write_to j so = Inr so' \<and> store_open so'"
  by (cases so) (auto simp: write_to_def try_send_def store_open_def)

lemma handle_metric_open:
  assumes "store_open (en_store e)"
  shows "snd (handle_metric L m clk e) = None \<and> store_open (en_store (fst (handle_metric L m clk e)))"
proof -
  obtain s e1 where g: "getOrCreateSession L (rm_SessionID m) (fst clk) e = (s, e1)" by force
  then have "en_store e1 = en_store e" by (auto simp: getOrCreateSession_def Let_def split: option.splits)
  with write_to_open [OF assms, of "raw_job (raw_row m)"] show ?thesis
    by (auto simp: handle_metric_def g Let_def WriteRawMetric_def)
qed

lemma ingest_all_open:
  "store_open (en_store e) \<Longrightarrow>
     snd (ingest_all L ms clk i e) = None \<and> store_open (en_store (fst (ingest_all L ms clk i e)))"
proof (induction ms arbitrary: i e)
  case (Cons m ms)
  obtain e' r where r: "handle_metric L m (clk i) e = (e', r)" by force
  with handle_metric_open [OF Cons.prems, of L m "clk i"] have "r = None" "store_open (en_store e')" by auto
  with Cons.IH [of e' "Suc i"] r show ?case by simp
qed simp

lemma publish_error: "store_open (en_store e) \<Longrightarrow> snd (publish k c e) = (if \<not> json_ok c then Some MarshalError else if k then None else Some KafkaError)"
  "store_open (en_store e) \<Longrightarrow> store_open (en_store (fst (publish k c e)))"
  using write_to_open [of "en_store e" "score_job (score_row c)"]
  by (auto simp: publish_def WriteCompositeScore_def Let_def)

lemma emit_score_publish:
  "\<exists>c e1. emit_score L log10 sid clk k e = publish k c e1 \<and> en_store e1 = en_store e"
proof (cases "en_sessions e sid")
  case None
  then show ?thesis by (auto simp: emit_score_def Let_def)
next
  case (Some s)
  show ?thesis
    unfolding emit_score_Some [OF Some] Let_def by (intro exI conjI, rule refl) simp
qed

lemma emit_score_open:
  assumes "store_open (en_store e)" "snd (emit_score L log10 sid clk True e) \<noteq> Some MarshalError"
  shows "snd (emit_score L log10 sid clk True e) = None" "store_open (en_store (fst (emit_score L log10 sid clk True e)))"
proof -
  obtain c e1 where c: "emit_score L log10 sid clk True e = publish True c e1" "en_store e1 = en_store e"
    using emit_score_publish [of L log10 sid clk True e] by blast
  have "store_open (en_store e1)" using assms(1) c(2) by simp
  from publish_error [OF this] assms(2) c(1)
  show "snd (emit_score L log10 sid clk True e) = None" "store_open (en_store (fst (emit_score L log10 sid clk True e)))"
    by (simp_all split: if_splits)
qed

lemma emit_all_open:
  assumes "int n < 2 ^ 62" "hdr_laws L" "log10_laws log10" "\<forall>i. kafka i"
  shows "engine_ok n e \<Longrightarrow> store_open (en_store e) \<Longrightarrow>
    snd (emit_all L log10 seen ms clk kafka i e) = None \<and> store_open (en_store (fst (emit_all L log10 seen ms clk kafka i e)))"
proof (induction ms arbitrary: seen i e)
  case (Cons m ms)
  have k: "kafka i = True" using assms(4) by simp
  obtain e' r where r: "emit_score L log10 (rm_SessionID m) (clk i) True e = (e', r)" by force
  note ok = emit_score_ok [OF Cons.prems(1) assms(1-3), of "rm_SessionID m" "clk i" True]
  have "r = None" "store_open (en_store e')" "engine_ok n e'"
    using emit_score_open [OF Cons.prems(2), of L log10 "rm_SessionID m" "clk i"] ok by (simp_all add: r)
  with Cons r k show ?case by simp
qed simp

lemma Handle_open:
  assumes "engine_ok n e" "int (n + length ms) < 2 ^ 62" "hdr_laws L" "log10_laws log10"
    and "store_open (en_store e)" "\<forall>i. he_kafka v i"
  shows "snd (Handle L log10 v ms e) = None" "store_open (en_store (fst (Handle L log10 v ms e)))"
proof -
  obtain e1 r where r: "ingest_all L ms (he_ingest v) 0 e = (e1, r)" by force
  have "r = None" "store_open (en_store e1)"
    using ingest_all_open [OF assms(5), of L ms "he_ingest v" 0] r by auto
  moreover have "engine_ok (n + length ms) e1"
    using ingest_all_ok [OF assms(1,2), of L "he_ingest v" 0] r by simp
  ultimately show "snd (Handle L log10 v ms e) = None" "store_open (en_store (fst (Handle L log10 v ms e)))"
    using emit_all_open [OF assms(2-4,6), of e1] r by (simp_all add: Handle_def)
qed

text \<open>A run of calls counts what all its batches hold.\<close>

lemma Handle_adds:
  assumes "engine_ok n e" "int (n + length ms) < 2 ^ 62" "Handle L log10 v ms e = (e', None)"
  shows "counts_of e' sid = add_counts (metrics_of sid ms) (counts_of e sid)"
proof -
  obtain e1 where r: "ingest_all L ms (he_ingest v) 0 e = (e1, None)"
    and em: "emit_all L log10 [] ms (he_compute v) (he_kafka v) 0 e1 = (e', None)"
    using assms(3) by (auto simp: Handle_def split: prod.splits option.splits)
  have "counts_of e' sid = counts_of e1 sid"
    using emit_all_counts [of L log10 "[]" ms "he_compute v" "he_kafka v" 0 e1 sid] em by simp
  also have "\<dots> = add_counts (metrics_of sid ms) (counts_of e sid)"
    by (rule ingest_all_counts [OF assms(1,2) r])
  finally show ?thesis .
qed

lemma add_counts_append: "add_counts (xs @ ys) c = add_counts ys (add_counts xs c)"
  by (cases c) (simp add: add_counts_def)

lemma world_batches_counts:
  assumes "hdr_laws L" "log10_laws log10" "\<forall>j i. he_kafka (env j) i"
  shows "engine_ok n e \<Longrightarrow> store_open (en_store e) \<Longrightarrow> int (n + length (concat bs)) < 2 ^ 62 \<Longrightarrow>
    counts_of (fst (foldl (world_handle L log10 env) (e, j) bs)) sid = add_counts (metrics_of sid (concat bs)) (counts_of e sid)"
proof (induction bs arbitrary: n e j)
  case Nil
  then show ?case by (simp add: metrics_of_def)
next
  case (Cons b bs)
  have len: "int (n + length b) < 2 ^ 62" "int (n + length b + length (concat bs)) < 2 ^ 62" using Cons.prems(3) by simp_all
  have k: "\<forall>i. he_kafka (env j) i" using assms(3) by blast
  let ?e = "fst (Handle L log10 (env j) b e)"
  have h: "Handle L log10 (env j) b e = (?e, None)" "store_open (en_store ?e)"
    using Handle_open [OF Cons.prems(1) len(1) assms(1,2) Cons.prems(2) k] by (metis prod.collapse)+
  have "engine_ok (n + length b) ?e" using Handle_ok [OF Cons.prems(1) len(1) assms(1,2)] by blast
  from Cons.IH [OF this h(2) len(2), of "Suc j"] Handle_adds [OF Cons.prems(1) len(1) h(1)]
  show ?case by (simp add: world_handle_def metrics_of_def add_counts_append)
qed

section \<open>A sample call\<close>

definition test_env_h :: handle_env where
  "test_env_h = \<lparr>he_ingest = (\<lambda>i. (0, 1000000000)), he_compute = (\<lambda>i. (2000000000, 2000000000)), he_kafka = (\<lambda>i. True)\<rparr>"

definition test_kernel :: KernelEvent where
  "test_kernel = \<lparr>ke_SessionID = ''s1'', ke_SandboxID = ''sb'', ke_RTTNS = 1500, ke_IngressNS = 10, ke_EgressNS = 1510,
     ke_SrcIP = ''10.0.0.1'', ke_DstIP = ''10.0.0.2'', ke_SrcPort = 4000, ke_DstPort = 8080\<rparr>"

lemma sample_call:
  assumes "length ms < 10"
  shows "Handle list_hdr step_log10 test_env_h ms (NewEngine None) =
    (fst (Handle list_hdr step_log10 test_env_h ms (NewEngine None)), None)"
proof -
  have "snd (Handle list_hdr step_log10 test_env_h ms (NewEngine None)) = None"
    using assms by (intro Handle_open [of 0] list_hdr_laws step_log10_laws)
      (simp_all add: store_open_def NewEngine_def test_env_h_def engine_ok_def)
  then show ?thesis by (metis prod.collapse)
qed

lemma sample_counts: "counts_of (NewEngine None) sid = (0, 0, 0)"
  by (simp add: counts_of_def NewEngine_def)

lemma sample_written:
  "\<exists>c. en_written (fst (Handle list_hdr step_log10 test_env_h [test_metric] (NewEngine None))) = [c]"
proof -
  obtain e1 where r: "ingest_all list_hdr [test_metric] (he_ingest test_env_h) 0 (NewEngine None) = (e1, None)"
    and em: "emit_all list_hdr step_log10 [] [test_metric] (he_compute test_env_h) (he_kafka test_env_h) 0 e1 =
      (fst (Handle list_hdr step_log10 test_env_h [test_metric] (NewEngine None)), None)"
    using sample_call [of "[test_metric]"] by (auto simp: Handle_def split: prod.splits option.splits)
  have "en_written e1 = []"
    using ingest_all_written [of list_hdr "[test_metric]" "he_ingest test_env_h" 0 "NewEngine None"] r
    by (simp add: NewEngine_def)
  with emit_all_writes [OF em] show ?thesis by (auto simp: length_Suc_conv dest: arg_cong [of _ _ length])
qed

section \<open>Properties\<close>



text \<open>
  One call of \<open>Handle\<close> counts each metric once, in its own session: from any engine
  state within the invariant, if the call returns without an error, the order counter of
  every session has grown by the number of its metrics in the batch, the fill counters by
  the number of those that report a fill, and of those reported correct.
\<close>

theorem Handle_counts_every_metric_once:
  assumes "engine_ok n e" "int (n + length ms) < 2 ^ 62" "Handle L log10 v ms e = (e', None)"
    and "counts_of e sid = (o1, t, k)"
  shows "counts_of e' sid =
    (o1 + int (length (metrics_of sid ms)),
     t + int (length (filter is_fill (metrics_of sid ms))),
     k + int (length (filter (\<lambda>m. is_fill m \<and> rm_Correct m) (metrics_of sid ms))))"
  using Handle_adds [OF assms(1-3), of sid] assms(4) by (simp add: add_counts_def)

theorem Handle_counts_every_metric_once_witness:
  "counts_of (fst (Handle list_hdr step_log10 test_env_h [test_metric] (NewEngine None))) ''s1'' = (1, 1, 1)"
  using Handle_counts_every_metric_once [OF engine_ok_new [of 0] _ sample_call sample_counts, of "[test_metric]" "''s1''"]
  by (simp add: metrics_of_def test_metric_def is_fill_def)

text \<open>
  A kernel latency event counts as an order: the metric the consumer makes of it adds
  one to the session's order counter, from which the TPS and the throughput score are
  computed, although it reports no order and no fill.
\<close>

theorem kernel_event_counts_as_order:
  assumes "engine_ok n e" "int n + 1 < 2 ^ 62" "counts_of e (ke_SessionID ev) = (o1, t, k)"
    and "Handle L log10 v [kernel_metric ev] e = (e', None)"
  shows "counts_of e' (ke_SessionID ev) = (o1 + 1, t, k)"
  using Handle_adds [OF assms(1) _ assms(4), of "ke_SessionID ev"] assms(2,3)
  by (simp add: add_counts_def metrics_of_def kernel_metric_def is_fill_def f0_def)

theorem kernel_event_counts_as_order_witness:
  "counts_of (fst (Handle list_hdr step_log10 test_env_h [kernel_metric test_kernel] (NewEngine None)))
     (ke_SessionID test_kernel) = (0 + 1, 0, 0)"
  by (rule kernel_event_counts_as_order [OF engine_ok_new [of 0] _ sample_counts sample_call]) simp_all

text \<open>
  A call of \<open>Handle\<close> that returns without an error publishes exactly one score for each
  session of the batch, in the order in which the sessions first occur in it.
\<close>

theorem Handle_publishes_each_session_once:
  assumes "Handle L log10 v ms e = (e', None)"
  shows "map cs_SessionID (en_written e') = map cs_SessionID (en_written e) @ first_seen [] ms"
proof -
  obtain e1 where r: "ingest_all L ms (he_ingest v) 0 e = (e1, None)"
    and em: "emit_all L log10 [] ms (he_compute v) (he_kafka v) 0 e1 = (e', None)"
    using assms by (auto simp: Handle_def split: prod.splits option.splits)
  have "en_written e1 = en_written e" using ingest_all_written [of L ms "he_ingest v" 0 e] r by simp
  with emit_all_writes [OF em] show ?thesis by auto
qed

theorem Handle_publishes_each_session_once_witness:
  "map cs_SessionID (en_written (fst (Handle list_hdr step_log10 test_env_h [test_metric, test_metric] (NewEngine None)))) = [''s1'']"
  using Handle_publishes_each_session_once [OF sample_call, of "[test_metric, test_metric]"]
  by (simp add: test_metric_def NewEngine_def)

text \<open>
  A call of \<open>Handle\<close> succeeds: with the store absent or open and Kafka accepting the
  messages, it returns without an error from every state within the invariant, so no score
  it computes is one that JSON cannot represent.
\<close>

theorem Handle_succeeds:
  assumes "engine_ok n e" "int (n + length ms) < 2 ^ 62" "hdr_laws L" "log10_laws log10"
    and "store_open (en_store e)" "\<forall>i. he_kafka v i"
  shows "\<exists>e'. Handle L log10 v ms e = (e', None) \<and> engine_ok (n + length ms) e'"
  using Handle_open [OF assms] Handle_ok [OF assms(1-4), of v] by (metis prod.collapse)

theorem Handle_succeeds_witness:
  "\<exists>e'. Handle list_hdr step_log10 test_env_h [test_metric] (NewEngine None) = (e', None) \<and> engine_ok (0 + length [test_metric]) e'"
  by (rule Handle_succeeds [OF engine_ok_new _ list_hdr_laws step_log10_laws])
    (simp_all add: store_open_def NewEngine_def test_env_h_def)

text \<open>
  C38. Better measurements never score less, in binary64 with all its rounding: the
  throughput score grows with the TPS and the tail latency score falls with the p99
  latency.
\<close>

theorem scores_are_monotone:
  assumes "is_fin v" "is_fin w" "fval v \<le> fval w"
    and "log10_laws log10" "is_fin p" "is_fin q" "0 < fval p" "fval p \<le> fval q"
  shows "fle (normalizeLinear v (fconst 0) (fconst 50000)) (normalizeLinear w (fconst 0) (fconst 50000)) \<and>
    fle (normalizeTailLatency log10 q) (normalizeTailLatency log10 p)"
  using normalizeLinear_mono [OF assms(1-3)] normalizeTailLatency_anti [OF assms(4-8)] by simp

theorem scores_are_monotone_witness:
  "fle (normalizeLinear (Num False 100) (fconst 0) (fconst 50000)) (normalizeLinear (Num False 2000) (fconst 0) (fconst 50000)) \<and>
    fle (normalizeTailLatency step_log10 (Num False 2000000)) (normalizeTailLatency step_log10 (Num False 1000))"
  by (rule scores_are_monotone [OF _ _ _ step_log10_laws]) simp_all

text \<open>
  The four percentiles of a histogram pair are in order, and come from the kernel
  histogram once it has an entry and from the application histogram before that.
\<close>

theorem KernelPercentiles_ordered:
  assumes "hdr_laws L" "KernelPercentiles L h = (p50, p90, p99, p999)"
  shows "fle p50 p90 \<and> fle p90 p99 \<and> fle p99 p999 \<and>
    (p50, p90, p99, p999) =
      (if hd_TotalCount L (lh_kernel h) = 0 then AppPercentiles L h
       else AppPercentiles L (h\<lparr>lh_app := lh_kernel h\<rparr>))"
proof -
  have "hd_ValueAtQuantile L 50 g \<le> hd_ValueAtQuantile L 90 g"
    "hd_ValueAtQuantile L 90 g \<le> hd_ValueAtQuantile L 99 g"
    "hd_ValueAtQuantile L 99 g \<le> hd_ValueAtQuantile L (999/10) g" for g
    using assms(1) by (auto simp: hdr_laws_def)
  with KernelPercentiles_source [of L h] have "fle p50 p90 \<and> fle p90 p99 \<and> fle p99 p999"
    using assms(2) f_of_int_mono by fastforce
  with assms(2) show ?thesis by (auto simp: KernelPercentiles_def AppPercentiles_def)
qed

theorem KernelPercentiles_ordered_witness:
  "fle (f_of_int 7) (f_of_int 9) \<and> KernelPercentiles list_hdr \<lparr>lh_app = [9, 7], lh_kernel = []\<rparr> =
     (f_of_int 7, f_of_int 9, f_of_int 9, f_of_int 9)"
proof -
  have "KernelPercentiles list_hdr \<lparr>lh_app = [9, 7], lh_kernel = []\<rparr> =
     (f_of_int 7, f_of_int 9, f_of_int 9, f_of_int 9)"
    by (simp add: KernelPercentiles_def list_hdr_def rank_value_def in64_def Let_def ceiling_eq_iff)
  from KernelPercentiles_ordered [OF list_hdr_laws this] this show ?thesis by simp
qed

text \<open>
  A completed fault cannot score well. The fault lasts five seconds, and what is called the
  recovery time is its length; so once the end of a fault that began at least five seconds
  earlier is handled, the resilience score is at most 50, however fast the sandbox recovered and
  however little it degraded, while a session that never saw a latency before its fault, or no
  fault at all, scores 85.
\<close>

theorem completed_fault_scores_at_most_half:
  assumes "engine_ok n e" "hdr_laws L" "en_sessions e (ce_SessionID ev) = Some s"
    and "ce_EventType ev = ''chaos_end''" "0 \<le> ss_chaosStartNS s" "ss_chaosStartNS s + 5000000000 \<le> ce_TimestampNS ev"
    and "in64 (ce_TimestampNS ev)"
  shows "fle (cs_ResilienceScore (Compute L log10 (ce_SessionID ev) clk (HandleChaosEvent L now ev e))) (Num False 50) \<or>
    \<not> flt f0 (ss_baselineP99NS s) \<and>
      cs_ResilienceScore (Compute L log10 (ce_SessionID ev) clk (HandleChaosEvent L now ev e)) = Num False 85"
proof -
  obtain p50 p90 p99 p999 where p: "KernelPercentiles L (ss_hdr s) = (p50, p90, p99, p999)" by (metis prod_cases4)
  let ?s = "s\<lparr>ss_chaosEndNS := ce_TimestampNS ev, ss_chaosP99NS := p99\<rparr>"
  let ?d = "ce_TimestampNS ev - ss_chaosStartNS s"
  let ?rec = "fdiv (f_of_int (wrap64 ?d)) (Num False 1000000)" and ?deg = "fdiv p99 (ss_baselineP99NS s)"
  have s: "en_sessions (HandleChaosEvent L now ev e) (ce_SessionID ev) = Some ?s"
    using assms(3,4) by (simp add: HandleChaosEvent_def getOrCreateSession_def p Let_def)
  have d: "in64 ?d" "5000000000 \<le> ?d" "0 < ce_TimestampNS ev" using assms(5-7) by (auto simp: in64_def)
  have res: "cs_ResilienceScore (Compute L log10 (ce_SessionID ev) clk (HandleChaosEvent L now ev e)) =
      (if flt f0 (ss_baselineP99NS s) then normalizeResilience ?rec ?deg else normalizeResilience f0 (Num False 1))"
    using s d(3) by (simp add: Compute_def score_of_def Let_def split: prod.split)
  show ?thesis
  proof (cases "flt f0 (ss_baselineP99NS s)")
    case True
    have "fle (f_of_int 5000000000) (f_of_int ?d)" using d(2) by (rule f_of_int_mono)
    then have "fle (fdiv (f_of_int 5000000000) (Num False 1000000)) (fdiv (f_of_int ?d) (Num False 1000000))"
      by (rule fscale_mono(3)) simp
    moreover have "fdiv (f_of_int 5000000000) (Num False 1000000) = Num False 5000"
      by (simp add: f_of_int_def)
    ultimately have "is_fin ?rec" "5000 \<le> fval ?rec"
      using million_fin [OF d(1)] d(1) by (cases "fdiv (f_of_int ?d) (Num False 1000000)"; simp add: wrap64_id)+
    moreover have "?deg \<noteq> NaN"
      using ratio_fin [OF is_ns_percentiles(3) [OF assms(2) p] _ True] assms(1,3)
      by (auto simp: engine_ok_def session_ok_def)
    ultimately have "fbetween 0 50 (normalizeResilience ?rec ?deg)" by (rule normalizeResilience_slow)
    with True show ?thesis unfolding res by (cases "normalizeResilience ?rec ?deg") (auto simp: fbetween_def)
  next
    case False
    then show ?thesis unfolding res by (simp add: normalizeResilience_def f0_def)
  qed
qed

definition sample_faulted :: "int list Engine" where
  "sample_faulted = (NewEngine None)\<lparr>en_sessions :=
     [''s1'' \<mapsto> (new_session list_hdr 0)\<lparr>ss_chaosStartNS := 1000, ss_baselineP99NS := Num False 2000\<rparr>]\<rparr>"

definition sample_chaos_end :: ChaosEvent where
  "sample_chaos_end = \<lparr>ce_SessionID = ''s1'', ce_SandboxID = ''sb'', ce_EventType = ''chaos_end'',
     ce_FaultType = ''container_pause'', ce_TimestampNS = 5000001000\<rparr>"

theorem completed_fault_scores_at_most_half_witness:
  "fle (cs_ResilienceScore (Compute list_hdr step_log10 ''s1'' (0, 0) (HandleChaosEvent list_hdr 0 sample_chaos_end sample_faulted)))
     (Num False 50)"
proof -
  let ?s = "(new_session list_hdr 0)\<lparr>ss_chaosStartNS := 1000, ss_baselineP99NS := Num False 2000\<rparr>"
  have "session_ok 0 (new_session list_hdr 0)" by simp
  then have "session_ok 0 ?s" by (simp add: session_ok_def is_ns_def)
  then have e: "engine_ok 0 sample_faulted" by (simp add: sample_faulted_def engine_ok_def NewEngine_def)
  have s: "en_sessions sample_faulted (ce_SessionID sample_chaos_end) = Some ?s"
    by (simp add: sample_faulted_def sample_chaos_end_def)
  from completed_fault_scores_at_most_half [OF e list_hdr_laws s, of step_log10 "(0, 0)" 0]
  show ?thesis by (simp add: sample_chaos_end_def in64_def f0_def)
qed

end
