(* ===== verification/Leaderboard.thy ===== *)
theory Leaderboard
  imports Scorer GoText
begin

text \<open>
  \<open>leaderboard/server/main.go\<close>: the hub that keeps the latest score of every session and
  broadcasts ranked snapshots, the two Kafka loops that feed it, and the time series
  endpoint. A Go map is iterated in an arbitrary order: \<open>snapshot\<close> and \<open>broadcast\<close> take the
  order as an argument. A connection is a number; \<open>hb_sent\<close> records what was written to it.
\<close>

section \<open>State\<close>

record LeaderboardEntry =
  le_Rank :: int64
  le_ChaosActive :: bool
  le_Score :: CompositeScore

record LeaderboardSnapshot =
  ls_Entries :: "LeaderboardEntry list"
  ls_SnapshotNS :: int64

type_synonym conn = nat
type_synonym entry_sorter =
  "(LeaderboardEntry \<Rightarrow> LeaderboardEntry \<Rightarrow> bool) \<Rightarrow> LeaderboardEntry list \<Rightarrow> LeaderboardEntry list"

record Hub =
  hb_scores :: "string \<rightharpoonup> CompositeScore"
  hb_chaosActive :: "string \<rightharpoonup> bool"
  hb_clients :: "conn set"
  hb_sent :: "conn \<Rightarrow> LeaderboardSnapshot list"

definition newHub :: Hub where
  "newHub = \<lparr>hb_scores = Map.empty, hb_chaosActive = Map.empty, hb_clients = {}, hb_sent = (\<lambda>_. [])\<rparr>"

section \<open>Snapshots\<close>

definition chaos_of :: "Hub \<Rightarrow> string \<Rightarrow> bool" where
  "chaos_of h sid = (case hb_chaosActive h sid of Some b \<Rightarrow> b | None \<Rightarrow> False)"

definition entries_in :: "Hub \<Rightarrow> string list \<Rightarrow> LeaderboardEntry list" where
  "entries_in h ord =
     map (\<lambda>s. \<lparr>le_Rank = 0, le_ChaosActive = chaos_of h (cs_SessionID s), le_Score = s\<rparr>)
       (List.map_filter (hb_scores h) ord)"

definition ranks_above :: "LeaderboardEntry \<Rightarrow> LeaderboardEntry \<Rightarrow> bool" where
  "ranks_above a b \<longleftrightarrow> flt (cs_TotalScore (le_Score b)) (cs_TotalScore (le_Score a))"

definition number_ranks :: "LeaderboardEntry list \<Rightarrow> LeaderboardEntry list" where
  "number_ranks es = map (\<lambda>(i, e). e\<lparr>le_Rank := int i + 1\<rparr>) (List.enumerate 0 es)"

definition snapshot :: "entry_sorter \<Rightarrow> string list \<Rightarrow> int64 \<Rightarrow> Hub \<Rightarrow> LeaderboardSnapshot" where
  "snapshot srt ord now h =
     \<lparr>ls_Entries = number_ranks (srt ranks_above (entries_in h ord)), ls_SnapshotNS = now\<rparr>"

text \<open>An iteration order of a map, and one of a set.\<close>

definition order_of :: "('k \<rightharpoonup> 'v) \<Rightarrow> 'k list \<Rightarrow> bool" where
  "order_of m ord \<longleftrightarrow> distinct ord \<and> set ord = dom m"

definition conns_of :: "conn set \<Rightarrow> conn list \<Rightarrow> bool" where
  "conns_of cs ord \<longleftrightarrow> distinct ord \<and> set ord = cs"

section \<open>Operations\<close>

text \<open>One write of the broadcast loop; \<open>wok\<close> says whether \<open>wsjson.Write\<close> succeeds.\<close>

definition write_one :: "(conn \<Rightarrow> bool) \<Rightarrow> LeaderboardSnapshot \<Rightarrow> conn \<Rightarrow> Hub \<Rightarrow> Hub" where
  "write_one wok snap c h =
     (if wok c then h\<lparr>hb_sent := (hb_sent h)(c := hb_sent h c @ [snap])\<rparr>
      else h\<lparr>hb_clients := hb_clients h - {c}\<rparr>)"

text \<open>The map orders, the clock and the write outcomes of one broadcast.\<close>

record cast_env =
  ca_ord :: "string list"
  ca_now :: int64
  ca_conns :: "conn list"
  ca_wok :: "conn \<Rightarrow> bool"

definition broadcast :: "entry_sorter \<Rightarrow> cast_env \<Rightarrow> Hub \<Rightarrow> Hub" where
  "broadcast srt v h =
     (let snap = snapshot srt (ca_ord v) (ca_now v) h
      in foldl (\<lambda>h c. write_one (ca_wok v) snap c h) h (ca_conns v))"

definition put_score :: "CompositeScore \<Rightarrow> Hub \<Rightarrow> Hub" where
  "put_score score h = h\<lparr>hb_scores := (hb_scores h)(cs_SessionID score \<mapsto> score)\<rparr>"

definition put_chaos :: "string \<Rightarrow> bool \<Rightarrow> Hub \<Rightarrow> Hub" where
  "put_chaos sid active h = h\<lparr>hb_chaosActive := (hb_chaosActive h)(sid \<mapsto> active)\<rparr>"

definition upsert :: "entry_sorter \<Rightarrow> cast_env \<Rightarrow> CompositeScore \<Rightarrow> Hub \<Rightarrow> Hub" where
  "upsert srt v score h = broadcast srt v (put_score score h)"

definition setChaos :: "entry_sorter \<Rightarrow> cast_env \<Rightarrow> string \<Rightarrow> bool \<Rightarrow> Hub \<Rightarrow> Hub" where
  "setChaos srt v sid active h = broadcast srt v (put_chaos sid active h)"

definition put_client :: "conn \<Rightarrow> Hub \<Rightarrow> Hub" where
  "put_client c h = h\<lparr>hb_clients := insert c (hb_clients h)\<rparr>"

text \<open>\<open>addClient\<close> ignores the outcome of its write.\<close>

definition send_first :: "bool \<Rightarrow> LeaderboardSnapshot \<Rightarrow> conn \<Rightarrow> Hub \<Rightarrow> Hub" where
  "send_first ok snap c h = (if ok then h\<lparr>hb_sent := (hb_sent h)(c := hb_sent h c @ [snap])\<rparr> else h)"

definition addClient :: "entry_sorter \<Rightarrow> string list \<Rightarrow> int64 \<Rightarrow> bool \<Rightarrow> conn \<Rightarrow> Hub \<Rightarrow> Hub" where
  "addClient srt ord now ok c h =
     (let h' = put_client c h in send_first ok (snapshot srt ord now h') c h')"

definition removeClient :: "conn \<Rightarrow> Hub \<Rightarrow> Hub" where
  "removeClient c h = h\<lparr>hb_clients := hb_clients h - {c}\<rparr>"

section \<open>The Kafka loops\<close>

text \<open>What \<open>ReadMessage\<close> gives: an error with the context done or not, or a message, decoded
  or not.\<close>

datatype 'a kafka_read = ReadErr bool | Read "'a option"

fun score_loop ::
  "entry_sorter \<Rightarrow> (nat \<Rightarrow> cast_env) \<Rightarrow> nat \<Rightarrow> CompositeScore kafka_read list \<Rightarrow> Hub \<Rightarrow> Hub" where
  "score_loop srt env k [] h = h"
| "score_loop srt env k (ReadErr ctxDone # rs) h = (if ctxDone then h else score_loop srt env k rs h)"
| "score_loop srt env k (Read None # rs) h = score_loop srt env k rs h"
| "score_loop srt env k (Read (Some c) # rs) h = score_loop srt env (Suc k) rs (upsert srt (env k) c h)"

fun event_loop ::
  "entry_sorter \<Rightarrow> (nat \<Rightarrow> cast_env) \<Rightarrow> nat \<Rightarrow> (string \<times> string) kafka_read list \<Rightarrow> Hub \<Rightarrow> Hub" where
  "event_loop srt env k [] h = h"
| "event_loop srt env k (ReadErr ctxDone # rs) h = (if ctxDone then h else event_loop srt env k rs h)"
| "event_loop srt env k (Read None # rs) h = event_loop srt env k rs h"
| "event_loop srt env k (Read (Some (sid, kind)) # rs) h =
     event_loop srt env (Suc k) rs
       (if kind = ''chaos_start'' then setChaos srt (env k) sid True h
        else if kind = ''chaos_end'' then setChaos srt (env k) sid False h
        else h)"

section \<open>The time series endpoint\<close>

text \<open>\<open>strconv.Atoi\<close>: an optional sign and decimal digits, all of them, in range.\<close>

definition atoi :: "string \<Rightarrow> int64 option" where
  "atoi s =
     (let neg = (s \<noteq> [] \<and> hd s = CHR ''-'');
          ds = (if s \<noteq> [] \<and> (hd s = CHR ''-'' \<or> hd s = CHR ''+'') then tl s else s);
          v = (if neg then - int (digits_val ds) else int (digits_val ds))
      in if ds \<noteq> [] \<and> list_all is_digit ds \<and> in64 v then Some v else None)"

definition ts_limit :: "string \<Rightarrow> int64" where
  "ts_limit limitStr =
     (if limitStr \<noteq> [] then
        (case atoi limitStr of
           Some n \<Rightarrow> if 0 < n \<and> n \<le> 1000 then n else 100
         | None \<Rightarrow> 100)
      else 100)"

definition allowed :: "string \<rightharpoonup> string" where
  "allowed = map_of [(''p50'', ''p50_ns''), (''p90'', ''p90_ns''), (''p99'', ''p99_ns''), (''p999'', ''p999_ns''),
     (''tps'', ''tps''), (''total'', ''total_score'')]"

definition ts_query :: "string \<Rightarrow> string" where
  "ts_query col =
     ''SELECT extract(epoch from time)*1000 AS ts_ms, '' @ col @ '' AS value
			 FROM composite_scores
			 WHERE session_id = $1
			 ORDER BY time DESC
			 LIMIT $2''"

datatype ts_response =
    Unavailable                 \<comment> \<open>503\<close>
  | BadRequest string           \<comment> \<open>400\<close>
  | QueryFailed                 \<comment> \<open>500\<close>
  | Points string string "(float64 \<times> float64) list"

text \<open>\<open>pool\<close> is \<open>None\<close> without a database, else what its \<open>Query\<close> does with the text and the
  two arguments; a row that does not scan is \<open>None\<close>.\<close>

type_synonym db_query = "string \<Rightarrow> string \<Rightarrow> int64 \<Rightarrow> (float64 \<times> float64) option list option"

definition timeseries :: "db_query option \<Rightarrow> string \<Rightarrow> string \<Rightarrow> string \<Rightarrow> ts_response" where
  "timeseries pool sessionID metric limitStr =
     (case pool of None \<Rightarrow> Unavailable
      | Some query \<Rightarrow>
          let limit = ts_limit limitStr in
          if sessionID = [] \<or> metric = [] then BadRequest ''session_id and metric required''
          else case allowed metric of
            None \<Rightarrow> BadRequest ''unknown metric; valid: p50 p90 p99 p999 tps total''
          | Some col \<Rightarrow>
              (case query (ts_query col) sessionID limit of
                 None \<Rightarrow> QueryFailed
               | Some rows \<Rightarrow> Points sessionID metric (List.map_filter id rows)))"

section \<open>Ranking\<close>

definition scored :: "LeaderboardEntry \<Rightarrow> bool" where
  "scored e \<longleftrightarrow> cs_TotalScore (le_Score e) \<noteq> NaN"

interpretation ranking: weak_order scored ranks_above
proof
  fix x y z :: LeaderboardEntry
  assume ok: "scored x" "scored y" "scored z"
  note f = ranks_above_def scored_def flt_fle
  show "\<not> ranks_above x x" by (simp add: f)
  show "ranks_above x y \<Longrightarrow> ranks_above y z \<Longrightarrow> ranks_above x z"
    unfolding f using fle_trans by blast
  show "\<not> ranks_above x y \<Longrightarrow> \<not> ranks_above y z \<Longrightarrow> \<not> ranks_above x z"
    using ok unfolding f by (meson fle_total fle_trans)
qed

text \<open>The hub stores every score under its own session id, and no total is NaN.\<close>

definition hub_ok :: "Hub \<Rightarrow> bool" where
  "hub_ok h \<longleftrightarrow> (\<forall>k c. hb_scores h k = Some c \<longrightarrow> cs_SessionID c = k \<and> cs_TotalScore c \<noteq> NaN)"

definition well_ranked :: "LeaderboardEntry list \<Rightarrow> bool" where
  "well_ranked es \<longleftrightarrow>
     map le_Rank es = map (\<lambda>i. int i + 1) [0..<length es] \<and>
     sorted_wrt (\<lambda>a b. fle (cs_TotalScore (le_Score b)) (cs_TotalScore (le_Score a))) es \<and>
     distinct (map (\<lambda>e. cs_SessionID (le_Score e)) es)"

lemma well_ranked_alt:
  "well_ranked es \<longleftrightarrow>
     map le_Rank es = map (\<lambda>i. int i + 1) [0..<length es] \<and>
     sorted_wrt (\<lambda>c d. fle (cs_TotalScore d) (cs_TotalScore c)) (map le_Score es) \<and>
     distinct (map cs_SessionID (map le_Score es))"
  by (simp add: well_ranked_def sorted_wrt_map o_def)

text \<open>What an entry says apart from its rank.\<close>

definition shown :: "LeaderboardEntry \<Rightarrow> CompositeScore \<times> bool" where
  "shown e = (le_Score e, le_ChaosActive e)"

lemma number_ranks_simps:
  "map le_Rank (number_ranks es) = map (\<lambda>i. int i + 1) [0..<length es]"
  "map le_Score (number_ranks es) = map le_Score es"
  "map shown (number_ranks es) = map shown es"
  "length (number_ranks es) = length es"
proof -
  show "map le_Rank (number_ranks es) = map (\<lambda>i. int i + 1) [0..<length es]"
    by (rule nth_equalityI) (auto simp: number_ranks_def nth_enumerate_eq)
  show "map le_Score (number_ranks es) = map le_Score es" "map shown (number_ranks es) = map shown es"
    by (rule nth_equalityI; simp add: number_ranks_def nth_enumerate_eq shown_def)+
  show "length (number_ranks es) = length es" by (simp add: number_ranks_def)
qed

lemma set_entries:
  assumes "hub_ok h" "order_of (hb_scores h) ord"
  shows "set (map shown (entries_in h ord)) = {(c, chaos_of h k) | k c. hb_scores h k = Some c}"
    "\<forall>e \<in> set (entries_in h ord). scored e"
    "map (\<lambda>e. cs_SessionID (le_Score e)) (entries_in h ord) = ord"
proof -
  have m: "List.map_filter (hb_scores h) ord = map (\<lambda>k. the (hb_scores h k)) ord"
    using assms(2) by (auto simp: List.map_filter_def order_of_def filter_id_conv dom_def)
  have k: "cs_SessionID (the (hb_scores h k)) = k" "cs_TotalScore (the (hb_scores h k)) \<noteq> NaN" if "k \<in> set ord" for k
    using that assms by (auto simp: hub_ok_def order_of_def dom_def)
  show "map (\<lambda>e. cs_SessionID (le_Score e)) (entries_in h ord) = ord"
    using k(1) by (simp add: entries_in_def m o_def map_idI)
  show "\<forall>e \<in> set (entries_in h ord). scored e"
    using k(2) by (auto simp: entries_in_def m scored_def)
  show "set (map shown (entries_in h ord)) = {(c, chaos_of h k) | k c. hb_scores h k = Some c}"
  proof -
    have "set (map shown (entries_in h ord)) = (\<lambda>k. (the (hb_scores h k), chaos_of h k)) ` set ord"
      using k(1) by (auto simp: entries_in_def m shown_def)
    also have "\<dots> = {(c, chaos_of h k) | k c. hb_scores h k = Some c}"
      using assms(2) by (force simp: order_of_def dom_def)
    finally show ?thesis .
  qed
qed

lemma snapshot_ranked:
  assumes "sort_slice srt" "hub_ok h" "order_of (hb_scores h) ord"
  shows "well_ranked (ls_Entries (snapshot srt ord now h))"
    "set (map shown (ls_Entries (snapshot srt ord now h))) = {(c, chaos_of h k) | k c. hb_scores h k = Some c}"
proof -
  let ?es = "entries_in h ord" and ?xs = "srt ranks_above (entries_in h ord)"
  note e = set_entries [OF assms(2,3)]
  have ms: "mset ?xs = mset ?es" by (rule sort_slice.srt_mset [OF assms(1)])
  then have st: "set ?xs = set ?es" by (metis set_mset_mset)
  have "in_order ranks_above ?xs"
    using e(2) by (intro sort_slice.srt_sorted [OF assms(1)] ranking.strict_weak)
  moreover have "\<not> ranks_above y x \<Longrightarrow> fle (cs_TotalScore (le_Score y)) (cs_TotalScore (le_Score x))"
    if "x \<in> set ?xs" "y \<in> set ?xs" for x y
    using that e(2) st fle_total [of "cs_TotalScore (le_Score x)" "cs_TotalScore (le_Score y)"]
    by (auto simp: ranks_above_def scored_def flt_fle)
  ultimately have "sorted_wrt (\<lambda>a b. fle (cs_TotalScore (le_Score b)) (cs_TotalScore (le_Score a))) ?xs"
    by (rule sorted_wrt_mono_rel [rotated]) blast
  then have "sorted_wrt (\<lambda>c d. fle (cs_TotalScore d) (cs_TotalScore c)) (map le_Score (number_ranks ?xs))"
    by (simp add: sorted_wrt_map number_ranks_simps)
  moreover have "distinct (map (\<lambda>e. cs_SessionID (le_Score e)) ?xs)"
  proof -
    have "mset (map (\<lambda>e. cs_SessionID (le_Score e)) ?xs) = mset ord" using ms e(3) by (metis mset_map)
    then show ?thesis using assms(3) by (metis mset_eq_imp_distinct_iff order_of_def)
  qed
  then have "distinct (map cs_SessionID (map le_Score (number_ranks ?xs)))"
    by (simp add: number_ranks_simps o_def)
  moreover have "map le_Rank (number_ranks ?xs) = map (\<lambda>i. int i + 1) [0..<length (number_ranks ?xs)]"
    by (simp only: number_ranks_simps)
  ultimately show "well_ranked (ls_Entries (snapshot srt ord now h))"
    by (simp only: well_ranked_alt snapshot_def LeaderboardSnapshot.select_convs)
  show "set (map shown (ls_Entries (snapshot srt ord now h))) = {(c, chaos_of h k) | k c. hb_scores h k = Some c}"
    using e(1) st by (simp add: snapshot_def number_ranks_simps)
qed

section \<open>Broadcasting\<close>

lemma write_one_frame [simp]:
  "hb_scores (write_one wok snap c h) = hb_scores h" "hb_chaosActive (write_one wok snap c h) = hb_chaosActive h"
  by (simp_all add: write_one_def)

lemma writes_frame [simp]:
  "hb_scores (foldl (\<lambda>h c. write_one wok snap c h) h cs) = hb_scores h"
  "hb_chaosActive (foldl (\<lambda>h c. write_one wok snap c h) h cs) = hb_chaosActive h"
  by (induction cs arbitrary: h) simp_all

lemma writes_clients:
  "hb_clients (foldl (\<lambda>h c. write_one wok snap c h) h cs) = hb_clients h - {c \<in> set cs. \<not> wok c}"
  by (induction cs arbitrary: h) (auto simp: write_one_def)

lemma writes_sent:
  "distinct cs \<Longrightarrow> hb_sent (foldl (\<lambda>h c. write_one wok snap c h) h cs) x =
     (if x \<in> set cs \<and> wok x then hb_sent h x @ [snap] else hb_sent h x)"
  by (induction cs arbitrary: h) (auto simp: write_one_def)

lemma hub_ok_puts [simp]:
  "hub_ok (put_chaos sid b h) = hub_ok h" "hub_ok (put_client c h) = hub_ok h" "hub_ok (removeClient c h) = hub_ok h"
  "hub_ok (write_one wok snap c h) = hub_ok h" "hub_ok (send_first ok snap c h) = hub_ok h"
  "hub_ok h \<Longrightarrow> cs_TotalScore c0 \<noteq> NaN \<Longrightarrow> hub_ok (put_score c0 h)"
  by (auto simp: hub_ok_def put_chaos_def put_client_def removeClient_def write_one_def send_first_def put_score_def)

lemma hub_ok_new [simp]: "hub_ok newHub"
  by (simp add: hub_ok_def newHub_def)

section \<open>Interleaved broadcasts\<close>

text \<open>
  The score loop, the event loop and one goroutine per connection run concurrently. The
  lock protects single updates, not a whole broadcast: between updating the state, taking
  the snapshot, listing the connections and each write the others can run.
\<close>

datatype actor = Scores | Events | Accept conn

datatype pc = Idle | Updated | Snapped LeaderboardSnapshot | Writing LeaderboardSnapshot "conn list"

record world =
  w_hub :: Hub
  w_pc :: "actor \<Rightarrow> pc"

definition at_pc :: "world \<Rightarrow> actor \<Rightarrow> pc \<Rightarrow> Hub \<Rightarrow> world" where
  "at_pc w a p h = \<lparr>w_hub = h, w_pc = (w_pc w)(a := p)\<rparr>"

inductive hub_step :: "entry_sorter \<Rightarrow> world \<Rightarrow> world \<Rightarrow> bool" for srt where
  score: "w_pc w Scores = Idle \<Longrightarrow> cs_TotalScore c \<noteq> NaN \<Longrightarrow>
    hub_step srt w (at_pc w Scores Updated (put_score c (w_hub w)))"
| chaos: "w_pc w Events = Idle \<Longrightarrow> hub_step srt w (at_pc w Events Updated (put_chaos sid b (w_hub w)))"
| accept: "w_pc w (Accept c) = Idle \<Longrightarrow> hub_step srt w (at_pc w (Accept c) Updated (put_client c (w_hub w)))"
| snap: "w_pc w a = Updated \<Longrightarrow> order_of (hb_scores (w_hub w)) ord \<Longrightarrow>
    hub_step srt w (at_pc w a (Snapped (snapshot srt ord now (w_hub w))) (w_hub w))"
| conns: "w_pc w a = Snapped s \<Longrightarrow> a \<in> {Scores, Events} \<Longrightarrow> conns_of (hb_clients (w_hub w)) cs \<Longrightarrow>
    hub_step srt w (at_pc w a (Writing s cs) (w_hub w))"
| wrote: "w_pc w a = Writing s (c # cs) \<Longrightarrow> hub_step srt w (at_pc w a (Writing s cs) (write_one wok s c (w_hub w)))"
| finish: "w_pc w a = Writing s [] \<Longrightarrow> hub_step srt w (at_pc w a Idle (w_hub w))"
| greet: "w_pc w (Accept c) = Snapped s \<Longrightarrow> hub_step srt w (at_pc w (Accept c) Idle (send_first ok s c (w_hub w)))"
| leave: "w_pc w (Accept c) = Idle \<Longrightarrow> hub_step srt w (at_pc w (Accept c) Idle (removeClient c (w_hub w)))"

definition start :: world where
  "start = \<lparr>w_hub = newHub, w_pc = (\<lambda>_. Idle)\<rparr>"

inductive hub_reach :: "entry_sorter \<Rightarrow> world \<Rightarrow> bool" for srt where
  init: "hub_reach srt start"
| step: "hub_reach srt w \<Longrightarrow> hub_step srt w w' \<Longrightarrow> hub_reach srt w'"

inductive_cases hub_stepE: "hub_step srt w w'"

fun pc_ok :: "pc \<Rightarrow> bool" where
  "pc_ok (Snapped s) = well_ranked (ls_Entries s)"
| "pc_ok (Writing s cs) = well_ranked (ls_Entries s)"
| "pc_ok _ = True"

definition world_inv :: "world \<Rightarrow> bool" where
  "world_inv w \<longleftrightarrow> hub_ok (w_hub w) \<and> (\<forall>a. pc_ok (w_pc w a)) \<and>
     (\<forall>c. \<forall>s \<in> set (hb_sent (w_hub w) c). well_ranked (ls_Entries s))"

lemma world_inv_at_pc:
  assumes "world_inv w" "pc_ok p" "hub_ok h"
    and "\<forall>c. \<forall>s \<in> set (hb_sent h c). well_ranked (ls_Entries s)"
  shows "world_inv (at_pc w a p h)"
  using assms by (simp add: world_inv_def at_pc_def)

lemma world_inv_pc: "world_inv w \<Longrightarrow> w_pc w a = p \<Longrightarrow> pc_ok p"
  by (auto simp: world_inv_def)

lemma sent_puts:
  "hb_sent (put_score c h) = hb_sent h" "hb_sent (put_chaos sid b h) = hb_sent h"
  "hb_sent (put_client x h) = hb_sent h" "hb_sent (removeClient x h) = hb_sent h"
  by (simp_all add: put_score_def put_chaos_def put_client_def removeClient_def)

lemma hub_step_inv:
  assumes "hub_step srt w w'" "sort_slice srt" "world_inv w"
  shows "world_inv w'"
proof -
  have h: "hub_ok (w_hub w)" and s: "\<forall>c. \<forall>s \<in> set (hb_sent (w_hub w) c). well_ranked (ls_Entries s)"
    using assms(3) by (simp_all add: world_inv_def)
  from assms(1) show ?thesis
  proof cases
    case (snap a ord now)
    have "well_ranked (ls_Entries (snapshot srt ord now (w_hub w)))"
      using snap by (intro snapshot_ranked(1) assms(2) h)
    with snap s h assms(3) show ?thesis by (auto intro!: world_inv_at_pc)
  next
    case (wrote a sn c cs wok)
    with world_inv_pc [OF assms(3), of a] have "well_ranked (ls_Entries sn)" by simp
    with wrote s h assms(3) show ?thesis
      by (auto intro!: world_inv_at_pc simp: write_one_def hub_ok_def split: if_splits)
  next
    case (greet c sn ok)
    with world_inv_pc [OF assms(3), of "Accept c"] have "well_ranked (ls_Entries sn)" by simp
    with greet s h assms(3) show ?thesis
      by (auto intro!: world_inv_at_pc simp: send_first_def hub_ok_def split: if_splits)
  next
    case (conns a sn cs)
    with world_inv_pc [OF assms(3), of a] h s assms(3) show ?thesis by (auto intro!: world_inv_at_pc)
  qed (use h s assms(3) in \<open>auto intro!: world_inv_at_pc simp: sent_puts\<close>)
qed

lemma hub_reach_inv: "hub_reach srt w \<Longrightarrow> sort_slice srt \<Longrightarrow> world_inv w"
proof (induction rule: hub_reach.induct)
  case init
  show ?case by (simp add: world_inv_def start_def newHub_def hub_ok_def)
next
  case (step w w')
  then show ?case by (blast intro: hub_step_inv)
qed

section \<open>The loops keep the latest score\<close>

fun read_scores :: "'a kafka_read list \<Rightarrow> 'a list" where
  "read_scores [] = []"
| "read_scores (ReadErr ctxDone # rs) = (if ctxDone then [] else read_scores rs)"
| "read_scores (Read None # rs) = read_scores rs"
| "read_scores (Read (Some c) # rs) = c # read_scores rs"

lemma broadcast_frame [simp]:
  "hb_scores (broadcast srt v h) = hb_scores h" "hb_chaosActive (broadcast srt v h) = hb_chaosActive h"
  by (simp_all add: broadcast_def Let_def)

lemma score_loop_scores:
  "hb_scores (score_loop srt env k rs h) =
     hb_scores h ++ map_of (rev (map (\<lambda>c. (cs_SessionID c, c)) (read_scores rs)))"
proof (induction srt env k rs h rule: score_loop.induct)
  case (4 srt env k c rs h)
  then show ?case by (auto simp: upsert_def put_score_def map_add_def fun_eq_iff split: option.split)
qed simp_all

section \<open>Samples\<close>

definition test_entry :: CompositeScore where
  "test_entry = blank_score ''s1''"

definition test_cast :: cast_env where
  "test_cast = \<lparr>ca_ord = [''s1''], ca_now = 0, ca_conns = [7], ca_wok = (\<lambda>_. True)\<rparr>"

section \<open>A run in which one broadcast overtakes another\<close>

text \<open>
  A client connects; a score arrives and its snapshot is taken; before it is sent, a chaos
  event arrives and is broadcast; then the older snapshot is sent.
\<close>

definition hub_joined :: "entry_sorter \<Rightarrow> Hub" where
  "hub_joined srt = (let h = put_client 7 newHub in send_first True (snapshot srt [] 0 h) 7 h)"

definition hub_scored :: "entry_sorter \<Rightarrow> Hub" where
  "hub_scored srt = put_score test_entry (hub_joined srt)"

definition hub_chaotic :: "entry_sorter \<Rightarrow> Hub" where
  "hub_chaotic srt = put_chaos ''s1'' True (hub_scored srt)"

definition older_snap :: "entry_sorter \<Rightarrow> LeaderboardSnapshot" where
  "older_snap srt = snapshot srt [''s1''] 0 (hub_scored srt)"

definition newer_snap :: "entry_sorter \<Rightarrow> LeaderboardSnapshot" where
  "newer_snap srt = snapshot srt [''s1''] 0 (hub_chaotic srt)"

definition hub_informed :: "entry_sorter \<Rightarrow> Hub" where
  "hub_informed srt = write_one (\<lambda>_. True) (newer_snap srt) 7 (hub_chaotic srt)"

definition hub_stale :: "entry_sorter \<Rightarrow> Hub" where
  "hub_stale srt = write_one (\<lambda>_. True) (older_snap srt) 7 (hub_informed srt)"

lemmas hub_run_defs = hub_joined_def hub_scored_def hub_chaotic_def hub_informed_def hub_stale_def
  newHub_def put_client_def send_first_def put_score_def put_chaos_def write_one_def Let_def

lemma test_entry_sel [simp]: "cs_SessionID test_entry = ''s1''" "cs_TotalScore test_entry \<noteq> NaN"
  by (simp_all add: test_entry_def blank_score_def f0_def)

lemma hub_run_clients: "hb_clients (hub_chaotic srt) = {7}" "hb_clients (hub_informed srt) = {7}"
  by (simp_all add: hub_run_defs)

lemma hub_run_orders:
  "order_of (hb_scores (put_client 7 newHub)) []"
  "order_of (hb_scores (hub_scored srt)) [''s1'']" "order_of (hb_scores (hub_chaotic srt)) [''s1'']"
  by (simp_all add: hub_run_defs order_of_def)

lemma idle_upd [simp]: "(\<lambda>_. Idle)(a := Idle) = (\<lambda>_. Idle)"
  by auto

lemma reach_joined: "hub_reach srt \<lparr>w_hub = hub_joined srt, w_pc = (\<lambda>_. Idle)\<rparr>"
proof -
  have r1: "hub_reach srt \<lparr>w_hub = put_client 7 newHub, w_pc = (\<lambda>_. Idle)(Accept 7 := Updated)\<rparr>"
    using hub_reach.step [OF hub_reach.init hub_step.accept [of start 7 srt]] by (simp add: at_pc_def start_def)
  have r2: "hub_reach srt \<lparr>w_hub = put_client 7 newHub,
      w_pc = (\<lambda>_. Idle)(Accept 7 := Snapped (snapshot srt [] 0 (put_client 7 newHub)))\<rparr>"
    using hub_reach.step [OF r1 hub_step.snap [of _ "Accept 7" "[]" srt 0]] hub_run_orders(1)
    by (simp add: at_pc_def)
  from hub_reach.step [OF r2 hub_step.greet [of _ 7 _ srt True]] show ?thesis
    by (simp add: at_pc_def hub_joined_def Let_def)
qed

lemma reach_informed:
  "hub_reach srt \<lparr>w_hub = hub_informed srt, w_pc = (\<lambda>_. Idle)(Scores := Snapped (older_snap srt))\<rparr>"
proof -
  let ?o = "older_snap srt" and ?n = "newer_snap srt"
  have r4: "hub_reach srt \<lparr>w_hub = hub_scored srt, w_pc = (\<lambda>_. Idle)(Scores := Updated)\<rparr>"
    using hub_reach.step [OF reach_joined hub_step.score [of _ test_entry]] by (simp add: at_pc_def hub_scored_def)
  have r5: "hub_reach srt \<lparr>w_hub = hub_scored srt, w_pc = (\<lambda>_. Idle)(Scores := Snapped ?o)\<rparr>"
    using hub_reach.step [OF r4 hub_step.snap [of _ Scores "[''s1'']" srt 0]] hub_run_orders(2)
    by (simp add: at_pc_def older_snap_def)
  have r6: "hub_reach srt \<lparr>w_hub = hub_chaotic srt, w_pc = (\<lambda>_. Idle)(Scores := Snapped ?o, Events := Updated)\<rparr>"
    using hub_reach.step [OF r5 hub_step.chaos [of _ srt "''s1''" True]] by (simp add: at_pc_def hub_chaotic_def)
  have r7: "hub_reach srt \<lparr>w_hub = hub_chaotic srt, w_pc = (\<lambda>_. Idle)(Scores := Snapped ?o, Events := Snapped ?n)\<rparr>"
    using hub_reach.step [OF r6 hub_step.snap [of _ Events "[''s1'']" srt 0]] hub_run_orders(3)
    by (simp add: at_pc_def newer_snap_def)
  have r8: "hub_reach srt \<lparr>w_hub = hub_chaotic srt, w_pc = (\<lambda>_. Idle)(Scores := Snapped ?o, Events := Writing ?n [7])\<rparr>"
    using hub_reach.step [OF r7 hub_step.conns [of _ Events ?n "[7]"]] hub_run_clients
    by (simp add: at_pc_def conns_of_def)
  have r9: "hub_reach srt \<lparr>w_hub = hub_informed srt, w_pc = (\<lambda>_. Idle)(Scores := Snapped ?o, Events := Writing ?n [])\<rparr>"
    using hub_reach.step [OF r8 hub_step.wrote [of _ Events ?n 7 "[]" srt "\<lambda>_. True"]]
    by (simp add: at_pc_def hub_informed_def)
  have "(\<lambda>_. Idle)(Scores := Snapped ?o, Events := Idle) = (\<lambda>_. Idle)(Scores := Snapped ?o)" by auto
  with hub_reach.step [OF r9 hub_step.finish [of _ Events ?n]] show ?thesis by (simp add: at_pc_def)
qed

lemma reach_stale: "hub_reach srt \<lparr>w_hub = hub_stale srt, w_pc = (\<lambda>_. Idle)\<rparr>"
proof -
  let ?o = "older_snap srt"
  have r11: "hub_reach srt \<lparr>w_hub = hub_informed srt, w_pc = (\<lambda>_. Idle)(Scores := Writing ?o [7])\<rparr>"
    using hub_reach.step [OF reach_informed hub_step.conns [of _ Scores ?o "[7]"]] hub_run_clients
    by (simp add: at_pc_def conns_of_def)
  have r12: "hub_reach srt \<lparr>w_hub = hub_stale srt, w_pc = (\<lambda>_. Idle)(Scores := Writing ?o [])\<rparr>"
    using hub_reach.step [OF r11 hub_step.wrote [of _ Scores ?o 7 "[]" srt "\<lambda>_. True"]]
    by (simp add: at_pc_def hub_stale_def)
  from hub_reach.step [OF r12 hub_step.finish [of _ Scores ?o]] show ?thesis by (simp add: at_pc_def)
qed

section \<open>Properties\<close>

text \<open>
  C10. Every snapshot a browser is ever sent is a correct ranking, however the score loop, the
  event loop, the broadcasts and the connections interleave: ranks are 1, 2, 3 and so on,
  the total scores never increase down the list, and no session occurs twice.
\<close>

theorem sent_snapshots_are_ranked:
  assumes "sort_slice srt" "hub_reach srt w" "snap \<in> set (hb_sent (w_hub w) c)"
  shows "map le_Rank (ls_Entries snap) = map (\<lambda>i. int i + 1) [0..<length (ls_Entries snap)] \<and>
    sorted_wrt (\<lambda>a b. fle (cs_TotalScore (le_Score b)) (cs_TotalScore (le_Score a))) (ls_Entries snap) \<and>
    distinct (map (\<lambda>e. cs_SessionID (le_Score e)) (ls_Entries snap))"
  using hub_reach_inv [OF assms(2,1)] assms(3) unfolding world_inv_def well_ranked_def by blast

theorem sent_snapshots_are_ranked_witness:
  "distinct (map (\<lambda>e. cs_SessionID (le_Score e)) (ls_Entries (older_snap insertion_sort)))"
proof -
  have "older_snap insertion_sort \<in> set (hb_sent (w_hub \<lparr>w_hub = hub_stale insertion_sort, w_pc = (\<lambda>_. Idle)\<rparr>) 7)"
    by (simp add: hub_stale_def write_one_def)
  from sent_snapshots_are_ranked [OF insertion.sort_slice_axioms reach_stale this] show ?thesis by simp
qed

text \<open>
  An update that runs undisturbed informs every client: after \<open>upsert\<close> the session has the
  new score, each client that can be written to got exactly one more message, a ranking
  that shows exactly the current scores and chaos flags, and the clients that cannot are
  dropped.
\<close>

theorem upsert_informs_every_client:
  assumes "sort_slice srt" "hub_ok h" "cs_TotalScore c \<noteq> NaN"
    and "order_of (hb_scores (put_score c h)) (ca_ord v)" "conns_of (hb_clients h) (ca_conns v)"
  defines "h' \<equiv> upsert srt v c h"
  shows "hb_scores h' (cs_SessionID c) = Some c \<and>
    hb_clients h' = {x \<in> hb_clients h. ca_wok v x} \<and>
    (\<forall>x \<in> hb_clients h'. \<exists>snap. hb_sent h' x = hb_sent h x @ [snap] \<and> well_ranked (ls_Entries snap) \<and>
       set (map shown (ls_Entries snap)) = {(s, chaos_of h' k) | k s. hb_scores h' k = Some s})"
proof -
  let ?snap = "snapshot srt (ca_ord v) (ca_now v) (put_score c h)"
  have ok: "hub_ok (put_score c h)" using assms(2,3) by simp
  note r = snapshot_ranked [OF assms(1) ok assms(4), of "ca_now v"]
  have cl: "hb_clients h' = {x \<in> hb_clients h. ca_wok v x}"
    using assms(5) by (auto simp: h'_def upsert_def broadcast_def Let_def writes_clients put_score_def conns_of_def)
  have fr: "hb_scores h' = hb_scores (put_score c h)" "chaos_of h' = chaos_of (put_score c h)"
    by (simp_all add: h'_def upsert_def chaos_of_def fun_eq_iff)
  have "hb_sent h' x = hb_sent h x @ [?snap]" if "x \<in> hb_clients h'" for x
    using that assms(5) cl
    by (simp add: h'_def upsert_def broadcast_def Let_def writes_sent conns_of_def sent_puts)
  moreover have "hb_scores h' (cs_SessionID c) = Some c" by (simp add: fr put_score_def)
  ultimately show ?thesis using cl r unfolding fr by blast
qed

theorem upsert_informs_every_client_witness:
  "hb_scores (upsert insertion_sort test_cast test_entry (put_client 7 newHub)) (cs_SessionID test_entry) = Some test_entry"
proof -
  have "order_of (hb_scores (put_score test_entry (put_client 7 newHub))) (ca_ord test_cast)"
    "conns_of (hb_clients (put_client 7 newHub)) (ca_conns test_cast)"
    by (simp_all add: order_of_def conns_of_def test_cast_def put_score_def put_client_def newHub_def test_entry_def blank_score_def)
  from upsert_informs_every_client [OF insertion.sort_slice_axioms _ _ this]
  show ?thesis by (simp add: test_entry_def blank_score_def f0_def)
qed

text \<open>
  But two broadcasts can overtake each other: there is a run after which everything is
  idle, the hub has the session's chaos flag set, and a connected client's last message
  still shows it cleared, and nothing is under way that would correct it.
\<close>

theorem overtaken_broadcast_leaves_stale_client:
  assumes "sort_slice srt"
  shows "\<exists>w. hub_reach srt w \<and> (\<forall>a. w_pc w a = Idle) \<and> 7 \<in> hb_clients (w_hub w) \<and>
    hb_scores (w_hub w) ''s1'' = Some test_entry \<and> hb_chaosActive (w_hub w) ''s1'' = Some True \<and>
    hb_sent (w_hub w) 7 \<noteq> [] \<and>
    map shown (ls_Entries (last (hb_sent (w_hub w) 7))) = [(test_entry, False)]"
proof (intro exI conjI)
  let ?w = "\<lparr>w_hub = hub_stale srt, w_pc = (\<lambda>_. Idle)\<rparr>"
  show "hub_reach srt ?w" by (rule reach_stale)
  show "\<forall>a. w_pc ?w a = Idle" by simp
  show "7 \<in> hb_clients (w_hub ?w)" "hb_scores (w_hub ?w) ''s1'' = Some test_entry"
    "hb_chaosActive (w_hub ?w) ''s1'' = Some True" "hb_sent (w_hub ?w) 7 \<noteq> []"
    by (simp_all add: hub_run_defs)
  have l: "last (hb_sent (hub_stale srt) 7) = older_snap srt" by (simp add: hub_stale_def write_one_def)
  have e: "entries_in (hub_scored srt) [''s1''] = [\<lparr>le_Rank = 0, le_ChaosActive = False, le_Score = test_entry\<rparr>]"
    by (simp add: entries_in_def List.map_filter_def hub_run_defs chaos_of_def)
  have "mset (srt ranks_above (entries_in (hub_scored srt) [''s1''])) = mset (entries_in (hub_scored srt) [''s1''])"
    by (rule sort_slice.srt_mset [OF assms])
  then have "srt ranks_above (entries_in (hub_scored srt) [''s1'']) = entries_in (hub_scored srt) [''s1'']"
    unfolding e by (metis mset_single_iff_right)
  then show "map shown (ls_Entries (last (hb_sent (w_hub ?w) 7))) = [(test_entry, False)]"
    by (simp add: l older_snap_def snapshot_def number_ranks_simps e shown_def)
qed

theorem overtaken_broadcast_leaves_stale_client_witness:
  "\<exists>w. hub_reach insertion_sort w \<and> (\<forall>a. w_pc w a = Idle) \<and> 7 \<in> hb_clients (w_hub w) \<and>
    hb_scores (w_hub w) ''s1'' = Some test_entry \<and> hb_chaosActive (w_hub w) ''s1'' = Some True \<and>
    hb_sent (w_hub w) 7 \<noteq> [] \<and> map shown (ls_Entries (last (hb_sent (w_hub w) 7))) = [(test_entry, False)]"
  by (rule overtaken_broadcast_leaves_stale_client [OF insertion.sort_slice_axioms])

text \<open>
  The score loop keeps the latest score: whatever is read, each session's score is the
  last one decoded for it before the context ended, or the one it had.
\<close>

theorem score_loop_keeps_latest:
  "hb_scores (score_loop srt env k rs h) sid =
     (let cs = filter (\<lambda>c. cs_SessionID c = sid) (read_scores rs)
      in if cs = [] then hb_scores h sid else Some (last cs))"
proof -
  have m: "map_of (rev (map (\<lambda>c. (cs_SessionID c, c)) xs)) sid =
      (let cs = filter (\<lambda>c. cs_SessionID c = sid) xs in if cs = [] then None else Some (last cs))" for xs
    by (induction xs rule: rev_induct) (simp_all add: Let_def)
  show ?thesis unfolding score_loop_scores map_add_def m Let_def by simp
qed

text \<open>
  The time series endpoint is safe from injection through the column name: whatever the
  client sends, the database is asked at most for one of six fixed statements, with the
  session id as a bound argument and a limit from 1 to 1000. Two databases that agree on
  these requests give the same response.
\<close>

theorem timeseries_only_asks_fixed_queries:
  assumes "\<And>col n. col \<in> {''p50_ns'', ''p90_ns'', ''p99_ns'', ''p999_ns'', ''tps'', ''total_score''} \<Longrightarrow> 1 \<le> n \<Longrightarrow> n \<le> 1000 \<Longrightarrow>
    query (ts_query col) sid n = query' (ts_query col) sid n"
  shows "timeseries (Some query) sid metric limitStr = timeseries (Some query') sid metric limitStr"
proof (cases "allowed metric")
  case (Some col)
  then have "col \<in> {''p50_ns'', ''p90_ns'', ''p99_ns'', ''p999_ns'', ''tps'', ''total_score''}"
    by (auto simp: allowed_def split: if_splits)
  moreover have "1 \<le> ts_limit limitStr" "ts_limit limitStr \<le> 1000"
    by (auto simp: ts_limit_def split: option.split)
  ultimately have "query (ts_query col) sid (ts_limit limitStr) = query' (ts_query col) sid (ts_limit limitStr)"
    by (rule assms)
  then show ?thesis by (simp add: timeseries_def Some Let_def)
qed (simp add: timeseries_def Let_def)

theorem timeseries_only_asks_fixed_queries_witness:
  "timeseries (Some (\<lambda>q s n. None)) ''s1'' ''p99'' ''50'' =
   timeseries (Some (\<lambda>q s n. if q = ''DROP TABLE'' then Some [] else None)) ''s1'' ''p99'' ''50''"
  by (rule timeseries_only_asks_fixed_queries) (simp add: ts_query_def)

end
