(* ===== verification/Ebpf.thy ===== *)
theory Ebpf
  imports Consumer GoText
begin

text \<open>
  \<open>sandbox/internal/ebpf\<close>: decoding the records of the eBPF ring buffer (\<open>prober.go\<close>), the
  bytecode reader (\<open>reader.go\<close>), and the kernel side that fills the ring buffer
  (\<open>bpf/tc_latency.c\<close>): its flow map and the memory layout of its events. Attaching the
  programs and the ring buffer itself belong to third-party packages.
\<close>

unbundle bit_operations_syntax

section \<open>Go byte slices\<close>

text \<open>A slice has a length and the memory up to its capacity: slicing is checked against
  the capacity, indexing against the length. \<open>None\<close> is the run-time panic.\<close>

record gslice =
  gs_len :: nat
  gs_mem :: "8 word list"

definition gs_ok :: "gslice \<Rightarrow> bool" where
  "gs_ok b \<longleftrightarrow> gs_len b \<le> length (gs_mem b)"

definition sub_slice :: "gslice \<Rightarrow> nat \<Rightarrow> nat \<Rightarrow> 8 word list option" where
  "sub_slice b lo hi =
     (if lo \<le> hi \<and> hi \<le> length (gs_mem b) then Some (take (hi - lo) (drop lo (gs_mem b))) else None)"

definition at_index :: "gslice \<Rightarrow> nat \<Rightarrow> 8 word option" where
  "at_index b i = (if i < gs_len b then Some (gs_mem b ! i) else None)"

section \<open>Little-endian numbers and addresses\<close>

definition leUint16 :: "8 word list \<Rightarrow> 16 word" where
  "leUint16 b = ucast (b ! 0) OR push_bit 8 (ucast (b ! 1))"

definition leUint32 :: "8 word list \<Rightarrow> 32 word" where
  "leUint32 b =
     ucast (b ! 0) OR push_bit 8 (ucast (b ! 1)) OR push_bit 16 (ucast (b ! 2)) OR push_bit 24 (ucast (b ! 3))"

definition leUint64 :: "8 word list \<Rightarrow> 64 word" where
  "leUint64 b = ucast (leUint32 (take 4 b)) OR push_bit 32 (ucast (leUint32 (take 4 (drop 4 b))))"

definition show_byte :: "32 word \<Rightarrow> string" where
  "show_byte n = nat_digits (unat n)"

definition uint32ToIP :: "32 word \<Rightarrow> string" where
  "uint32ToIP n =
     show_byte (n AND 255) @ ''.'' @ show_byte (drop_bit 8 n AND 255) @ ''.'' @
     show_byte (drop_bit 16 n AND 255) @ ''.'' @ show_byte (drop_bit 24 n AND 255)"

section \<open>Decoding a record\<close>

record rawEvent =
  re_Saddr :: "32 word"
  re_Daddr :: "32 word"
  re_Sport :: "16 word"
  re_Dport :: "16 word"
  re_Proto :: "8 word"
  re_RTTNS :: "64 word"
  re_IngressNS :: "64 word"
  re_EgressNS :: "64 word"

record LatencyEvent =
  lv_SrcIP :: string
  lv_DstIP :: string
  lv_SrcPort :: "16 word"
  lv_DstPort :: "16 word"
  lv_Proto :: "8 word"
  lv_RTTNS :: "64 word"
  lv_IngressNS :: "64 word"
  lv_EgressNS :: "64 word"
  lv_SessionID :: string
  lv_SandboxID :: string

record Prober =
  pb_sessionID :: string
  pb_sandboxID :: string

datatype parse_error = ShortRecord nat | SlicePanic

definition decode_raw :: "gslice \<Rightarrow> rawEvent option" where
  "decode_raw raw =
     Option.bind (sub_slice raw 0 4) (\<lambda>sa. Option.bind (sub_slice raw 4 8) (\<lambda>da.
     Option.bind (sub_slice raw 8 10) (\<lambda>sp. Option.bind (sub_slice raw 10 12) (\<lambda>dp.
     Option.bind (at_index raw 12) (\<lambda>pr. Option.bind (sub_slice raw 16 24) (\<lambda>rt.
     Option.bind (sub_slice raw 24 32) (\<lambda>ig. Option.bind (sub_slice raw 32 40) (\<lambda>eg.
       Some \<lparr>re_Saddr = leUint32 sa, re_Daddr = leUint32 da, re_Sport = leUint16 sp, re_Dport = leUint16 dp,
             re_Proto = pr, re_RTTNS = leUint64 rt, re_IngressNS = leUint64 ig, re_EgressNS = leUint64 eg\<rparr>))))))))"

definition parseEvent :: "Prober \<Rightarrow> gslice \<Rightarrow> (parse_error, LatencyEvent) result" where
  "parseEvent p raw =
     (if gs_len raw < 32 then Inl (ShortRecord (gs_len raw))
      else case decode_raw raw of
        None \<Rightarrow> Inl SlicePanic
      | Some r \<Rightarrow>
          Inr \<lparr>lv_SrcIP = uint32ToIP (re_Saddr r), lv_DstIP = uint32ToIP (re_Daddr r), lv_SrcPort = re_Sport r,
               lv_DstPort = re_Dport r, lv_Proto = re_Proto r, lv_RTTNS = re_RTTNS r, lv_IngressNS = re_IngressNS r,
               lv_EgressNS = re_EgressNS r, lv_SessionID = pb_sessionID p, lv_SandboxID = pb_sandboxID p\<rparr>)"

text \<open>The loop: what \<open>Read\<close> returns, \<open>None\<close> being an error. The result is the list of
  published events and how the loop ended.\<close>

datatype prober_end = Running | Stopped | ReadError | Panicked

fun prober_run :: "Prober \<Rightarrow> bool \<Rightarrow> gslice option list \<Rightarrow> LatencyEvent list \<times> prober_end" where
  "prober_run p ctxDone [] = ([], Running)"
| "prober_run p ctxDone (None # rs) = ([], if ctxDone then Stopped else ReadError)"
| "prober_run p ctxDone (Some raw # rs) =
     (case parseEvent p raw of
        Inl (ShortRecord n) \<Rightarrow> prober_run p ctxDone rs
      | Inl SlicePanic \<Rightarrow> ([], Panicked)
      | Inr ev \<Rightarrow> (case prober_run p ctxDone rs of (evs, e) \<Rightarrow> (ev # evs, e)))"

section \<open>The bytecode reader\<close>

text \<open>\<open>ReadAt\<close> copies into the start of \<open>p\<close>; the flag is \<open>io.EOF\<close>. A negative offset panics.\<close>

definition ReadAt :: "8 word list \<Rightarrow> 8 word list \<Rightarrow> int \<Rightarrow> (8 word list \<times> nat \<times> bool) option" where
  "ReadAt b p off =
     (if int (length b) \<le> off then Some (p, 0, True)
      else if off < 0 then None
      else let src = drop (nat off) b; n = min (length p) (length src)
           in Some (take n src @ drop n p, n, n < length p))"

section \<open>The kernel side\<close>

record flow_key =
  fk_saddr :: "32 word"
  fk_daddr :: "32 word"
  fk_sport :: "16 word"
  fk_dport :: "16 word"
  fk_proto :: "8 word"

definition tc_ingress :: "flow_key \<Rightarrow> 64 word \<Rightarrow> (flow_key \<rightharpoonup> 64 word) \<Rightarrow> (flow_key \<rightharpoonup> 64 word)" where
  "tc_ingress key ts m = m(key \<mapsto> ts)"

definition rev_key :: "flow_key \<Rightarrow> flow_key" where
  "rev_key k = \<lparr>fk_saddr = fk_daddr k, fk_daddr = fk_saddr k, fk_sport = fk_dport k, fk_dport = fk_sport k,
     fk_proto = fk_proto k\<rparr>"

text \<open>\<open>room\<close>: whether the ring buffer has space for the event.\<close>

definition tc_egress ::
  "flow_key \<Rightarrow> 64 word \<Rightarrow> bool \<Rightarrow> (flow_key \<rightharpoonup> 64 word) \<Rightarrow> (flow_key \<rightharpoonup> 64 word) \<times> rawEvent option" where
  "tc_egress key now room m =
     (case m (rev_key key) of
        None \<Rightarrow> (m, None)
      | Some ingress \<Rightarrow>
          let rtt = now - ingress in
          if 5000000000 < rtt then (m(rev_key key := None), None)
          else if \<not> room then (m, None)
          else (m(rev_key key := None),
            Some \<lparr>re_Saddr = fk_saddr (rev_key key), re_Daddr = fk_daddr (rev_key key), re_Sport = fk_sport (rev_key key),
                  re_Dport = fk_dport (rev_key key), re_Proto = fk_proto (rev_key key), re_RTTNS = rtt,
                  re_IngressNS = ingress, re_EgressNS = now\<rparr>))"

text \<open>The event in memory: the fields of the C struct in order, little-endian.\<close>

definition le_bytes :: "nat \<Rightarrow> 'a::len word \<Rightarrow> 8 word list" where
  "le_bytes n w = map (\<lambda>i. ucast (drop_bit (8 * i) w)) [0..<n]"

definition event_bytes :: "8 word list \<Rightarrow> rawEvent \<Rightarrow> 8 word list" where
  "event_bytes pad r =
     le_bytes 4 (re_Saddr r) @ le_bytes 4 (re_Daddr r) @ le_bytes 2 (re_Sport r) @ le_bytes 2 (re_Dport r) @
     [re_Proto r] @ pad @ le_bytes 8 (re_RTTNS r) @ le_bytes 8 (re_IngressNS r) @ le_bytes 8 (re_EgressNS r)"

section \<open>Encoding and decoding\<close>

lemma length_le_bytes [simp]: "length (le_bytes n w) = n"
  by (simp add: le_bytes_def)

lemma leUint16_bytes: "leUint16 (le_bytes 2 w) = w"
  by (rule bit_word_eqI) (auto simp: leUint16_def le_bytes_def upt_conv_Cons bit_simps)

lemma leUint32_bytes: "leUint32 (le_bytes 4 w) = w"
proof (rule bit_word_eqI)
  fix n
  assume n: "n < LENGTH(32)"
  have b: "bit (leUint32 (le_bytes 4 w)) n \<longleftrightarrow> n < 32 \<and>
      (n < 8 \<and> bit w n \<or> 8 \<le> n \<and> n < 16 \<and> bit w n \<or> 16 \<le> n \<and> n < 24 \<and> bit w n \<or> 24 \<le> n \<and> bit w n)"
    by (auto simp: leUint32_def le_bytes_def upt_conv_Cons bit_simps less_diff_conv2)
  show "bit (leUint32 (le_bytes 4 w)) n = bit w n" unfolding b using n by auto
qed

lemma le_bytes_halves:
  "take 4 (le_bytes 8 (w :: 64 word)) = le_bytes 4 (ucast w :: 32 word)"
  "take 4 (drop 4 (le_bytes 8 w)) = le_bytes 4 (ucast (drop_bit 32 w) :: 32 word)"
  by (simp_all add: le_bytes_def upt_conv_Cons; intro conjI bit_word_eqI; auto simp: bit_simps)+

lemma leUint64_bytes: "leUint64 (le_bytes 8 w) = w"
  by (rule bit_word_eqI) (auto simp: leUint64_def le_bytes_halves leUint32_bytes bit_simps)

lemma event_bytes_slices:
  assumes "length pad = 3"
  shows "length (event_bytes pad r) = 40"
    "take 4 (event_bytes pad r) = le_bytes 4 (re_Saddr r)"
    "take 4 (drop 4 (event_bytes pad r)) = le_bytes 4 (re_Daddr r)"
    "take 2 (drop 8 (event_bytes pad r)) = le_bytes 2 (re_Sport r)"
    "take 2 (drop 10 (event_bytes pad r)) = le_bytes 2 (re_Dport r)"
    "event_bytes pad r ! 12 = re_Proto r"
    "take 8 (drop 16 (event_bytes pad r)) = le_bytes 8 (re_RTTNS r)"
    "take 8 (drop 24 (event_bytes pad r)) = le_bytes 8 (re_IngressNS r)"
    "take 8 (drop 32 (event_bytes pad r)) = le_bytes 8 (re_EgressNS r)"
  using assms by (simp_all add: event_bytes_def nth_append)

lemma decode_event_bytes:
  assumes "length pad = 3" "gs_mem raw = event_bytes pad r @ t" "13 \<le> gs_len raw"
  shows "decode_raw raw = Some r"
proof -
  note e = event_bytes_slices [OF assms(1), of r]
  have s: "sub_slice raw 0 4 = Some (le_bytes 4 (re_Saddr r))" "sub_slice raw 4 8 = Some (le_bytes 4 (re_Daddr r))"
    "sub_slice raw 8 10 = Some (le_bytes 2 (re_Sport r))" "sub_slice raw 10 12 = Some (le_bytes 2 (re_Dport r))"
    "sub_slice raw 16 24 = Some (le_bytes 8 (re_RTTNS r))" "sub_slice raw 24 32 = Some (le_bytes 8 (re_IngressNS r))"
    "sub_slice raw 32 40 = Some (le_bytes 8 (re_EgressNS r))"
    by (simp_all add: sub_slice_def assms(2) e)
  have "at_index raw 12 = Some (re_Proto r)" using assms(3) by (simp add: at_index_def assms(2) nth_append e)
  then show ?thesis by (simp add: decode_raw_def s leUint16_bytes leUint32_bytes leUint64_bytes)
qed

text \<open>The event as it is published.\<close>

definition event_of :: "Prober \<Rightarrow> rawEvent \<Rightarrow> LatencyEvent" where
  "event_of p r =
     \<lparr>lv_SrcIP = uint32ToIP (re_Saddr r), lv_DstIP = uint32ToIP (re_Daddr r), lv_SrcPort = re_Sport r,
      lv_DstPort = re_Dport r, lv_Proto = re_Proto r, lv_RTTNS = re_RTTNS r, lv_IngressNS = re_IngressNS r,
      lv_EgressNS = re_EgressNS r, lv_SessionID = pb_sessionID p, lv_SandboxID = pb_sandboxID p\<rparr>"

lemma parse_event_bytes:
  assumes "length pad = 3" "gs_mem raw = event_bytes pad r @ t" "gs_len raw = 40"
  shows "parseEvent p raw = Inr (event_of p r)"
  using decode_event_bytes [OF assms(1,2)] assms(3) by (simp add: parseEvent_def event_of_def)

text \<open>An address in memory.\<close>

lemma address_bytes:
  fixes a b c d :: "8 word"
  defines "n \<equiv> leUint32 [a, b, c, d]"
  shows "n AND 255 = ucast a" "drop_bit 8 n AND 255 = ucast b" "drop_bit 16 n AND 255 = ucast c"
    "drop_bit 24 n AND 255 = ucast d"
proof -
  have m: "(255 :: 32 word) = mask 8" by (simp add: mask_eq_exp_minus_1)
  have z: "\<not> bit x k" if "8 \<le> k" for x :: "8 word" and k using that bit_imp_le_length [of x k] by auto
  show "n AND 255 = ucast a" unfolding m n_def leUint32_def
    by (rule bit_word_eqI) (auto simp: bit_simps z dest: bit_imp_le_length)
  show "drop_bit 8 n AND 255 = ucast b" unfolding m n_def leUint32_def
    by (rule bit_word_eqI) (auto simp: bit_simps z dest: bit_imp_le_length)
  show "drop_bit 16 n AND 255 = ucast c" unfolding m n_def leUint32_def
    by (rule bit_word_eqI) (auto simp: bit_simps z dest: bit_imp_le_length)
  show "drop_bit 24 n AND 255 = ucast d" unfolding m n_def leUint32_def
    by (rule bit_word_eqI) (auto simp: bit_simps z dest: bit_imp_le_length)
qed

lemma unat_byte: "unat (ucast (a :: 8 word) :: 32 word) = unat a"
proof -
  have "unat a < 2 ^ 8" using unsigned_less [of a] by simp
  then have "unat a < 2 ^ 32" by simp
  then show ?thesis by (simp add: unsigned_ucast_eq take_bit_nat_eq_self_iff)
qed

section \<open>From the kernel to the consumer\<close>

text \<open>The consumer decodes the published JSON object by the same field tags.\<close>

definition to_kernel_event :: "LatencyEvent \<Rightarrow> KernelEvent" where
  "to_kernel_event ev =
     \<lparr>ke_SessionID = lv_SessionID ev, ke_SandboxID = lv_SandboxID ev, ke_RTTNS = lv_RTTNS ev,
      ke_IngressNS = lv_IngressNS ev, ke_EgressNS = lv_EgressNS ev, ke_SrcIP = lv_SrcIP ev, ke_DstIP = lv_DstIP ev,
      ke_SrcPort = int (unat (lv_SrcPort ev)), ke_DstPort = int (unat (lv_DstPort ev))\<rparr>"

lemma rev_rev_key [simp]: "rev_key (rev_key k) = k"
  by (simp add: rev_key_def)

lemma int64_of_small: "x \<le> 5000000000 \<Longrightarrow> int64_of x = int (unat x)"
proof -
  assume "x \<le> 5000000000"
  then have "uint x \<le> 5000000000" by (simp add: word_le_def)
  moreover have "0 \<le> uint x" by simp
  moreover have "- (2 ^ 63) \<le> (0 :: int)" "(5000000000 :: int) < 2 ^ 63" by simp_all
  ultimately have "- (2 ^ 63) \<le> uint x" "uint x < 2 ^ 63" by linarith+
  then have "signed_take_bit 63 (uint x) = uint x" by (rule signed_take_bit_int_eq_self)
  then show ?thesis by (simp add: int64_of_def sint_uint)
qed

definition test_prober :: Prober where
  "test_prober = \<lparr>pb_sessionID = ''s1'', pb_sandboxID = ''sb''\<rparr>"

definition test_raw_event :: rawEvent where
  "test_raw_event = \<lparr>re_Saddr = 1, re_Daddr = 2, re_Sport = 3, re_Dport = 4, re_Proto = 6, re_RTTNS = 5, re_IngressNS = 7,
     re_EgressNS = 12\<rparr>"

definition test_flow :: flow_key where
  "test_flow = \<lparr>fk_saddr = leUint32 [10, 0, 0, 1], fk_daddr = leUint32 [10, 0, 0, 2], fk_sport = 4000, fk_dport = 8080,
     fk_proto = 6\<rparr>"

section \<open>Properties\<close>

text \<open>
  Decoding is the inverse of the layout the kernel program writes: for any event, any
  padding bytes and whatever memory follows the record, the prober parses the 40 bytes of
  the C struct into exactly the event's fields, tagged with the prober's session.
\<close>

theorem parseEvent_inverts_layout:
  assumes "length pad = 3" "gs_mem raw = event_bytes pad r @ t" "gs_len raw = 40"
  shows "parseEvent p raw = Inr (event_of p r)"
  using assms by (rule parse_event_bytes)

theorem parseEvent_inverts_layout_witness:
  "parseEvent test_prober \<lparr>gs_len = 40, gs_mem = event_bytes [0, 0, 0] test_raw_event @ [9]\<rparr> =
     Inr (event_of test_prober test_raw_event)"
  by (rule parseEvent_inverts_layout [where pad = "[0, 0, 0]" and t = "[9]"]) simp_all

text \<open>
  An address whose bytes in memory are a, b, c, d prints as the dotted quad a.b.c.d.
\<close>

theorem uint32ToIP_dotted_quad:
  "uint32ToIP (leUint32 [a, b, c, d]) =
     nat_digits (unat a) @ ''.'' @ nat_digits (unat b) @ ''.'' @ nat_digits (unat c) @ ''.'' @ nat_digits (unat d)"
  unfolding uint32ToIP_def show_byte_def address_bytes by (simp add: unat_byte)

text \<open>
  The length check is too weak: a record of 32 to 39 bytes passes it, and the slice that
  decodes the last field reaches beyond the memory of the record, which panics and ends the
  prober's loop.
\<close>

theorem parseEvent_panics_on_short_record:
  assumes "gs_ok raw" "32 \<le> gs_len raw" "length (gs_mem raw) < 40"
  shows "parseEvent p raw = Inl SlicePanic \<and> prober_run p ctxDone (Some raw # rs) = ([], Panicked)"
proof -
  have "sub_slice raw 32 40 = None" using assms(3) by (simp add: sub_slice_def)
  then have "decode_raw raw = None"
    by (auto simp: decode_raw_def bind_eq_None_conv)
  with assms(2) show ?thesis by (simp add: parseEvent_def)
qed

theorem parseEvent_panics_on_short_record_witness:
  "parseEvent test_prober \<lparr>gs_len = 32, gs_mem = replicate 32 0\<rparr> = Inl SlicePanic \<and>
   prober_run test_prober False (Some \<lparr>gs_len = 32, gs_mem = replicate 32 0\<rparr> # []) = ([], Panicked)"
  by (rule parseEvent_panics_on_short_record) (simp_all add: gs_ok_def)

text \<open>
  C30. The latency that reaches the scorer is the one the kernel measured: when a request of a
  flow arrives at \<open>ts\<close> and a reply leaves at \<open>now\<close>, the event the kernel program emits has
  the addresses and ports of the request, and after the record is parsed, published and
  consumed, the row stored and the metric scored carry exactly \<open>now - ts\<close>, at most five
  seconds; the flow's entry is gone, so the next reply of the flow emits nothing.
\<close>

theorem kernel_latency_reaches_scorer:
  assumes "tc_egress (rev_key key) now room (tc_ingress key ts m) = (m', Some r)"
    and "length pad = 3" "gs_mem raw = event_bytes pad r @ t" "gs_len raw = 40"
  shows "\<exists>ev. parseEvent p raw = Inr ev \<and>
    kr_RTTNS (kernel_row (to_kernel_event ev)) = int (unat (now - ts)) \<and>
    rm_KernelRTTNS (kernel_metric (to_kernel_event ev)) = int (unat (now - ts)) \<and>
    int (unat (now - ts)) \<le> 5000000000 \<and>
    lv_SrcIP ev = uint32ToIP (fk_saddr key) \<and> lv_SrcPort ev = fk_sport key \<and> lv_DstPort ev = fk_dport key \<and>
    m' key = None \<and> tc_egress (rev_key key) later room' m' = (m', None)"
proof -
  have r: "re_RTTNS r = now - ts" "re_Saddr r = fk_saddr key" "re_Sport r = fk_sport key" "re_Dport r = fk_dport key"
    "m' key = None" and le: "now - ts \<le> 5000000000"
    using assms(1) by (auto simp: tc_egress_def tc_ingress_def Let_def split: if_splits)
  have "uint (now - ts) \<le> 5000000000" using le by (simp add: word_le_def)
  moreover have "tc_egress (rev_key key) later room' m' = (m', None)" by (simp add: tc_egress_def r(5))
  ultimately show ?thesis
    using parse_event_bytes [OF assms(2-4), of p] r int64_of_small [OF le]
    by (simp add: event_of_def to_kernel_event_def kernel_row_def kernel_metric_def)
qed

theorem kernel_latency_reaches_scorer_witness:
  "\<exists>r ev. tc_egress (rev_key test_flow) 2500 True (tc_ingress test_flow 1000 Map.empty) = (Map.empty, Some r) \<and>
     parseEvent test_prober \<lparr>gs_len = 40, gs_mem = event_bytes [0, 0, 0] r @ []\<rparr> = Inr ev \<and>
     kr_RTTNS (kernel_row (to_kernel_event ev)) = 1500"
proof -
  define r where "r = \<lparr>re_Saddr = fk_saddr test_flow, re_Daddr = fk_daddr test_flow, re_Sport = fk_sport test_flow,
    re_Dport = fk_dport test_flow, re_Proto = fk_proto test_flow, re_RTTNS = 1500, re_IngressNS = 1000, re_EgressNS = 2500\<rparr>"
  have e: "tc_egress (rev_key test_flow) 2500 True (tc_ingress test_flow 1000 Map.empty) = (Map.empty, Some r)"
    by (simp add: tc_egress_def tc_ingress_def r_def)
  have "unat (2500 - 1000 :: 64 word) = 1500" by simp
  with kernel_latency_reaches_scorer [OF e, of "[0, 0, 0]" "\<lparr>gs_len = 40, gs_mem = event_bytes [0, 0, 0] r @ []\<rparr>" "[]" test_prober]
  have "\<exists>ev. parseEvent test_prober \<lparr>gs_len = 40, gs_mem = event_bytes [0, 0, 0] r @ []\<rparr> = Inr ev \<and>
      kr_RTTNS (kernel_row (to_kernel_event ev)) = 1500" by auto
  with e show ?thesis by blast
qed

text \<open>
  \<open>ReadAt\<close> keeps the contract of \<open>io.ReaderAt\<close>: at any offset from 0 it fills the start of the
  buffer with the bytes from that offset, as many as there are and fit, leaves the rest of
  the buffer alone, and reports the end of the data exactly when it fills less than a
  non-empty buffer.
\<close>

theorem ReadAt_contract:
  assumes "0 \<le> off" "p \<noteq> []"
  shows "\<exists>q n eof. ReadAt b p off = Some (q, n, eof) \<and> length q = length p \<and>
    n = min (length p) (length b - nat off) \<and>
    take n q = take n (drop (nat off) b) \<and> drop n q = drop n p \<and> (eof \<longleftrightarrow> n < length p)"
proof (cases "int (length b) \<le> off")
  case True
  with assms show ?thesis by (auto simp: ReadAt_def)
next
  case False
  with assms show ?thesis by (auto simp: ReadAt_def Let_def min_def)
qed

theorem ReadAt_contract_witness:
  "\<exists>q n eof. ReadAt [1, 2, 3] [0, 0] 2 = Some (q, n, eof) \<and> n = 1 \<and> eof"
  using ReadAt_contract [of 2 "[0, 0]" "[1, 2, 3]"] by auto

end
