(* ===== verification/Bots.thy ===== *)
theory Bots
  imports OrderBook Fix
begin

text \<open>
  \<open>botfleet/internal/worker\<close>: the order types (\<open>types.go\<close>), the REST client
  (\<open>http_client.go\<close>) and one round of each bot (\<open>archetypes.go\<close>, \<open>fix_client.go\<close>). Drawn
  random numbers, order ids and clock readings are arguments; so are \<open>math.Log\<close> and
  \<open>math.Exp\<close> and the answer of the endpoint. The two structs of an order request have the
  same JSON tags, so the bots build the engine's \<open>OrderRequest\<close>.
\<close>

section \<open>Types\<close>

datatype Archetype = NoiseTrader | MarketMaker | Momentum | InstitutionalSlicer | LatencyArb | FIXNoise

fun archetype_string :: "Archetype \<Rightarrow> string" where
  "archetype_string NoiseTrader = ''NoiseTrader''"
| "archetype_string MarketMaker = ''MarketMaker''"
| "archetype_string Momentum = ''Momentum''"
| "archetype_string InstitutionalSlicer = ''InstitutionalSlicer''"
| "archetype_string LatencyArb = ''LatencyArb''"
| "archetype_string FIXNoise = ''FIXNoise''"

record bot_order = fix_order +
  fo_Archetype :: Archetype
  fo_EmittedAt :: int64

record Metrics =
  mt_OrderID :: string
  mt_Archetype :: Archetype
  mt_AppRTTNS :: int64
  mt_Correct :: bool
  mt_FillPrice :: float64
  mt_FillQty :: int64
  mt_EmittedNS :: int64

record BotConfig =
  bc_Symbol :: string
  bc_TargetTPS :: int64
  bc_SessionID :: string
  bc_SandboxID :: string
  bc_FIXEndpoint :: string

section \<open>The REST client\<close>

definition sideStr :: "worker_side \<Rightarrow> string" where
  "sideStr s = (if s = SideBuy then ''BUY'' else ''SELL'')"

fun typeStr :: "order_type \<Rightarrow> string" where
  "typeStr Limit = ''LIMIT''"
| "typeStr Market = ''MARKET''"
| "typeStr Cancel = ''CANCEL''"

text \<open>What \<open>client.Do\<close> gives: an error, or a status and the body, decoded or not.\<close>

datatype post_result = DoFailed | Answer nat "OrderResponse option"

datatype send_error = SendMarshal | SendRequest | SendFailed | SendStatus nat | SendDecode

definition empty_response :: OrderResponse where
  "empty_response = \<lparr>resp_OrderID = [], resp_FillPrice = Num False 0, resp_FillQty = 0, resp_Status = []\<rparr>"

text \<open>A price that is zero is omitted from the JSON text and decodes as zero.\<close>

definition wire_request :: "'a fix_order_scheme \<Rightarrow> OrderRequest" where
  "wire_request o1 =
     \<lparr>req_OrderID = fo_ID o1, req_Symbol = fo_Symbol o1, req_Side = sideStr (fo_Side o1),
      req_Type = typeStr (fo_Type o1),
      req_Price = (if feq (fo_Price o1) (Num False 0) then Num False 0 else fo_Price o1),
      req_Quantity = fo_Quantity o1\<rparr>"

text \<open>\<open>url_ok\<close>: whether the request can be built from the endpoint's URL.\<close>

definition sendOrder ::
  "bool \<Rightarrow> (OrderRequest \<Rightarrow> post_result) \<Rightarrow> int64 \<Rightarrow> 'a fix_order_scheme
     \<Rightarrow> int64 \<times> (send_error, OrderResponse) result" where
  "sendOrder url_ok post rtt o1 =
     (if \<not> is_fin (fo_Price o1) then (0, Inl SendMarshal)
      else if \<not> url_ok then (0, Inl SendRequest)
      else case post (wire_request o1) of
        DoFailed \<Rightarrow> (rtt, Inl SendFailed)
      | Answer code body \<Rightarrow>
          if code \<noteq> 200 \<and> code \<noteq> 201 then (rtt, Inl (SendStatus code))
          else (case body of None \<Rightarrow> (rtt, Inl SendDecode) | Some fill \<Rightarrow> (rtt, Inr fill)))"

section \<open>Helpers\<close>

definition newOrderID :: "string \<Rightarrow> string" where
  "newOrderID uuid = ''ord-'' @ take 8 uuid"

definition rateToInterval :: "int64 \<Rightarrow> int64" where
  "rateToInterval tps =
     (if tps \<le> 0 then 1000000000 else f_to_int64 (fdiv (f_of_int 1000000000) (f_of_int tps)))"

definition avg :: "float64 list \<Rightarrow> float64" where
  "avg vals =
     (if length vals = 0 then Num False 0
      else fdiv (foldl fadd (Num False 0) vals) (f_of_int (int (length vals))))"

definition side_of :: "int \<Rightarrow> worker_side" where
  "side_of k = (if k = 0 then SideBuy else SideSell)"

section \<open>The bots\<close>

text \<open>What one round draws from its environment.\<close>

record draw =
  dr_uuid :: string
  dr_side :: int        \<comment> \<open>\<open>Intn(2)\<close>\<close>
  dr_unit :: float64    \<comment> \<open>\<open>Float64()\<close>\<close>
  dr_qty :: int         \<comment> \<open>\<open>Intn\<close> of the bot's range\<close>
  dr_now :: int64       \<comment> \<open>\<open>EmittedAt\<close>\<close>
  dr_rtt :: int64       \<comment> \<open>the time \<open>client.Do\<close> took\<close>
  dr_url :: bool
  dr_post :: "OrderRequest \<Rightarrow> post_result"

definition send_by :: "draw \<Rightarrow> 'a fix_order_scheme \<Rightarrow> int64 \<times> (send_error, OrderResponse) result" where
  "send_by d o1 = sendOrder (dr_url d) (dr_post d) (dr_rtt d) o1"

definition report :: "bot_order \<Rightarrow> int64 \<Rightarrow> bool \<Rightarrow> OrderResponse \<Rightarrow> Metrics" where
  "report o1 rtt correct fill =
     \<lparr>mt_OrderID = fo_ID o1, mt_Archetype = fo_Archetype o1, mt_AppRTTNS = rtt, mt_Correct = correct,
      mt_FillPrice = resp_FillPrice fill, mt_FillQty = resp_FillQty fill, mt_EmittedNS = fo_EmittedAt o1\<rparr>"

text \<open>\<open>midPrice * (1 + (u - 0.5) * spread)\<close> with \<open>midPrice = 100.0\<close>\<close>

definition noisy_price :: "float64 \<Rightarrow> rat \<Rightarrow> float64" where
  "noisy_price u spread =
     fmul (Num False 100) (fadd (Num False 1) (fmul (fsub u (Num False (1/2))) (fconst spread)))"

text \<open>The noise bot, and the FIX noise bot when it falls back to REST.\<close>

definition noise_order :: "Archetype \<Rightarrow> BotConfig \<Rightarrow> draw \<Rightarrow> bot_order" where
  "noise_order a cfg d =
     \<lparr>fo_ID = newOrderID (dr_uuid d), fo_Symbol = bc_Symbol cfg, fo_Side = side_of (dr_side d), fo_Type = Limit,
      fo_Price = noisy_price (dr_unit d) (2/100), fo_Quantity = wrap64 (dr_qty d + 1), fo_Archetype = a,
      fo_EmittedAt = dr_now d\<rparr>"

definition priced_or_pending :: "OrderResponse \<Rightarrow> bool" where
  "priced_or_pending fill \<longleftrightarrow> flt (Num False 0) (resp_FillPrice fill) \<or> resp_Status fill = ''PENDING''"

definition filled_or_pending :: "OrderResponse \<Rightarrow> bool" where
  "filled_or_pending fill \<longleftrightarrow> 0 < resp_FillQty fill \<or> resp_Status fill = ''PENDING''"

definition noise_tick :: "Archetype \<Rightarrow> BotConfig \<Rightarrow> draw \<Rightarrow> Metrics list" where
  "noise_tick a cfg d =
     (let o1 = noise_order a cfg d in
      case send_by d o1 of
        (rtt, Inl err) \<Rightarrow> []
      | (rtt, Inr fill) \<Rightarrow> [report o1 rtt (priced_or_pending fill) fill])"

text \<open>The market maker.\<close>

record maker =
  mk_inventory :: int64
  mk_mid :: float64
  mk_t :: float64

definition mk_gamma :: float64 where "mk_gamma = fconst (1/10)"
definition mk_sigma :: float64 where "mk_sigma = fconst (2/100)"
definition mk_kappa :: float64 where "mk_kappa = fconst (15/10)"

definition NewMaker :: maker where
  "NewMaker = \<lparr>mk_inventory = 0, mk_mid = Num False 100, mk_t = Num False 0\<rparr>"

definition maker_clock :: "float64 \<Rightarrow> float64" where
  "maker_clock t = (let t' = fadd t (fconst (1/1000)) in if fle (Num False 1) t' then Num False 0 else t')"

definition maker_quotes :: "(float64 \<Rightarrow> float64) \<Rightarrow> maker \<Rightarrow> float64 \<times> float64" where
  "maker_quotes logf b =
     (let dt = fsub (Num False 1) (mk_t b);
          q = f_of_int (mk_inventory b);
          reservation = fsub (mk_mid b) (fmul (fmul (fmul (fmul q mk_gamma) mk_sigma) mk_sigma) dt);
          spread = fadd (fmul (fmul (fmul mk_gamma mk_sigma) mk_sigma) dt)
            (fmul (fdiv (Num False 2) mk_gamma) (logf (fadd (Num False 1) (fdiv mk_gamma mk_kappa))));
          halfSpread = fdiv spread (Num False 2)
      in (fsub reservation halfSpread, fadd reservation halfSpread))"

definition maker_order :: "BotConfig \<Rightarrow> worker_side \<Rightarrow> float64 \<Rightarrow> draw \<Rightarrow> bot_order" where
  "maker_order cfg sd price d =
     \<lparr>fo_ID = newOrderID (dr_uuid d), fo_Symbol = bc_Symbol cfg, fo_Side = sd, fo_Type = Limit, fo_Price = price,
      fo_Quantity = 1, fo_Archetype = MarketMaker, fo_EmittedAt = dr_now d\<rparr>"

text \<open>One of the two orders: the inventory moves by \<open>sign\<close> times the filled quantity.\<close>

definition maker_send :: "BotConfig \<Rightarrow> worker_side \<Rightarrow> int \<Rightarrow> float64 \<Rightarrow> draw \<Rightarrow> int64 \<Rightarrow> int64 \<times> Metrics list" where
  "maker_send cfg sd sign price d held =
     (let o1 = maker_order cfg sd price d in
      case send_by d o1 of
        (rtt, Inl err) \<Rightarrow> (held, [])
      | (rtt, Inr fill) \<Rightarrow>
          ((if 0 < resp_FillQty fill then wrap64 (held + sign * resp_FillQty fill) else held),
           [report o1 rtt True fill]))"

definition maker_tick ::
  "(float64 \<Rightarrow> float64) \<Rightarrow> (float64 \<Rightarrow> float64) \<Rightarrow> BotConfig \<Rightarrow> draw \<Rightarrow> draw \<Rightarrow> maker \<Rightarrow> maker \<times> Metrics list" where
  "maker_tick logf expf cfg d1 d2 b0 =
     (let b = b0\<lparr>mk_t := maker_clock (mk_t b0)\<rparr>;
          (bidPrice, askPrice) = maker_quotes logf b;
          (held1, ms1) = maker_send cfg SideBuy 1 bidPrice d1 (mk_inventory b);
          (held2, ms2) = maker_send cfg SideSell (- 1) askPrice d2 held1;
          mid = fmul (mk_mid b) (expf (fmul (fmul (fsub (dr_unit d2) (Num False (1/2))) mk_sigma) (fconst (1/1000))))
      in (b\<lparr>mk_inventory := held2, mk_mid := mid\<rparr>, ms1 @ ms2))"

text \<open>The momentum bot: \<open>mo_prices\<close> is the window, \<open>None\<close> of the side no signal.\<close>

record momentum =
  mo_prices :: "float64 list"
  mo_mid :: float64

definition mo_window :: nat where "mo_window = 20"

definition NewMomentum :: momentum where
  "NewMomentum = \<lparr>mo_prices = [], mo_mid = Num False 100\<rparr>"

definition momentum_push :: "(float64 \<Rightarrow> float64) \<Rightarrow> float64 \<Rightarrow> momentum \<Rightarrow> momentum" where
  "momentum_push expf u b =
     (let mid = fmul (mo_mid b) (expf (fmul (fsub u (Num False (1/2))) (fconst (1/100))));
          ps = mo_prices b @ [mid]
      in \<lparr>mo_prices = (if mo_window * 2 < length ps then tl ps else ps), mo_mid = mid\<rparr>)"

definition momentum_side :: "momentum \<Rightarrow> worker_side option" where
  "momentum_side b =
     (let ps = mo_prices b in
      if length ps < mo_window then None
      else
        let shortMA = avg (drop (length ps - 5) ps); longMA = avg (drop (length ps - mo_window) ps)
        in if flt (fmul longMA (fconst (1001/1000))) shortMA then Some SideBuy
           else if flt shortMA (fmul longMA (fconst (999/1000))) then Some SideSell
           else None)"

definition market_order :: "Archetype \<Rightarrow> BotConfig \<Rightarrow> worker_side \<Rightarrow> draw \<Rightarrow> bot_order" where
  "market_order a cfg sd d =
     \<lparr>fo_ID = newOrderID (dr_uuid d), fo_Symbol = bc_Symbol cfg, fo_Side = sd, fo_Type = Market,
      fo_Price = Num False 0, fo_Quantity = wrap64 (dr_qty d + 1), fo_Archetype = a, fo_EmittedAt = dr_now d\<rparr>"

definition market_send :: "Archetype \<Rightarrow> BotConfig \<Rightarrow> worker_side \<Rightarrow> draw \<Rightarrow> Metrics list" where
  "market_send a cfg sd d =
     (let o1 = market_order a cfg sd d in
      case send_by d o1 of
        (rtt, Inl err) \<Rightarrow> []
      | (rtt, Inr fill) \<Rightarrow> [report o1 rtt (filled_or_pending fill) fill])"

definition momentum_tick :: "(float64 \<Rightarrow> float64) \<Rightarrow> BotConfig \<Rightarrow> draw \<Rightarrow> momentum \<Rightarrow> momentum \<times> Metrics list" where
  "momentum_tick expf cfg d b =
     (let b' = momentum_push expf (dr_unit d) b in
      (b', case momentum_side b' of None \<Rightarrow> [] | Some sd \<Rightarrow> market_send Momentum cfg sd d))"

text \<open>The institutional slicer: the child quantities of one parent order, and the parent's
  round; \<open>ds ! i\<close> is what the \<open>i\<close>-th slice draws.\<close>

definition parentSize :: int64 where "parentSize = 500"
definition sliceSize :: int64 where "sliceSize = 10"

function slices :: "int64 \<Rightarrow> int64 list" where
  "slices remaining =
     (if 0 < remaining then
        let qty = (if remaining < sliceSize then remaining else sliceSize) in qty # slices (remaining - qty)
      else [])"
  by pat_completeness auto
termination
  by (relation "measure nat") (auto simp: sliceSize_def)

declare slices.simps [simp del]

definition slice_order :: "BotConfig \<Rightarrow> worker_side \<Rightarrow> float64 \<Rightarrow> int64 \<Rightarrow> draw \<Rightarrow> bot_order" where
  "slice_order cfg sd price qty d =
     \<lparr>fo_ID = newOrderID (dr_uuid d), fo_Symbol = bc_Symbol cfg, fo_Side = sd, fo_Type = Limit, fo_Price = price,
      fo_Quantity = qty, fo_Archetype = InstitutionalSlicer, fo_EmittedAt = dr_now d\<rparr>"

definition slice_send :: "BotConfig \<Rightarrow> worker_side \<Rightarrow> float64 \<Rightarrow> int64 \<Rightarrow> draw \<Rightarrow> Metrics list" where
  "slice_send cfg sd price qty d =
     (let o1 = slice_order cfg sd price qty d in
      case send_by d o1 of
        (rtt, Inl err) \<Rightarrow> []
      | (rtt, Inr fill) \<Rightarrow> [report o1 rtt True fill])"

definition slicer_round :: "BotConfig \<Rightarrow> int \<Rightarrow> float64 \<Rightarrow> (nat \<Rightarrow> draw) \<Rightarrow> Metrics list" where
  "slicer_round cfg side_draw u ds =
     (let sd = side_of side_draw; price = noisy_price u (5/1000)
      in concat (map (\<lambda>(i, qty). slice_send cfg sd price qty (ds i)) (List.enumerate 0 (slices parentSize))))"

text \<open>The latency arbitrageur; its ticker runs at 5000 per second whatever the target.\<close>

definition arb_tick :: "BotConfig \<Rightarrow> draw \<Rightarrow> Metrics list" where
  "arb_tick cfg d = market_send LatencyArb cfg (side_of (dr_side d)) d"

definition bot_interval :: "Archetype \<Rightarrow> BotConfig \<Rightarrow> int64 option" where
  "bot_interval a cfg =
     (if a = InstitutionalSlicer then None
      else if a = LatencyArb then Some (rateToInterval 5000)
      else Some (rateToInterval (bc_TargetTPS cfg)))"

text \<open>The FIX bot over its connection: the stream read so far is consumed by \<open>SendNOS\<close>.\<close>

definition fix_tick ::
  "BotConfig \<Rightarrow> draw \<Rightarrow> (nat \<Rightarrow> bool) \<Rightarrow> bool \<Rightarrow> string \<Rightarrow> string \<Rightarrow> string \<Rightarrow> FIXClient
     \<Rightarrow> FIXClient \<times> string \<times> Metrics list" where
  "fix_tick cfg d ctxDone written now now' s c =
     (let o1 = noise_order FIXNoise cfg d in
      case SendNOS ctxDone written now now' (fix_order.truncate o1) s c of
        (c', wire, Inl err) \<Rightarrow> (c', wire, [])
      | (c', wire, Inr s') \<Rightarrow>
          (c', wire, [\<lparr>mt_OrderID = fo_ID o1, mt_Archetype = FIXNoise, mt_AppRTTNS = dr_rtt d, mt_Correct = True,
             mt_FillPrice = Num False 0, mt_FillQty = 0, mt_EmittedNS = fo_EmittedAt o1\<rparr>]))"

text \<open>\<open>Run\<close> of the FIX bot picks the transport: \<open>None\<close> is REST.\<close>

definition fix_transport ::
  "BotConfig \<Rightarrow> int \<Rightarrow> bool \<Rightarrow> bool \<Rightarrow> string \<Rightarrow> (FIXClient \<times> string) option" where
  "fix_transport cfg k dialed written now =
     (if bc_FIXEndpoint cfg = [] then None
      else case DialFIX dialed written now (''BOT'' @ pad_digits 4 (nat k)) ''EXCHANGE'' of
        Inl err \<Rightarrow> None
      | Inr cm \<Rightarrow> Some cm)"

section \<open>Slices\<close>

lemma slices_step: "0 < n \<Longrightarrow> slices n = min n sliceSize # slices (n - min n sliceSize)"
  by (subst slices.simps) (simp add: min_def Let_def)

lemma slices_done [simp]: "n \<le> 0 \<Longrightarrow> slices n = []"
  by (subst slices.simps) simp

lemma slices_partition:
  "sum_list (slices n) = max 0 n \<and> (\<forall>q \<in> set (slices n). 0 < q \<and> q \<le> sliceSize)"
proof (induction n rule: slices.induct)
  case (1 n)
  show ?case
  proof (cases "0 < n")
    case True
    define q r where "q = (if n < sliceSize then n else sliceSize)" and "r = slices (n - q)"
    have "slices n = q # r" using True by (subst slices.simps) (simp add: q_def r_def Let_def)
    moreover from "1.IH" [OF True refl, folded q_def, folded r_def]
    have "sum_list r = max 0 (n - q)" "\<forall>q \<in> set r. 0 < q \<and> q \<le> sliceSize" by blast+
    moreover have "0 < q" "q \<le> n" "q \<le> sliceSize" using True by (simp_all add: q_def sliceSize_def)
    ultimately show ?thesis by simp
  qed simp
qed

lemma slices_whole: "slices (int k * sliceSize) = replicate k sliceSize"
proof (induction k)
  case (Suc k)
  have pos: "0 < int (Suc k) * sliceSize" and least: "min (int (Suc k) * sliceSize) sliceSize = sliceSize"
    and rest: "int (Suc k) * sliceSize - sliceSize = int k * sliceSize"
    by (simp_all add: sliceSize_def algebra_simps)
  show ?case unfolding slices_step [OF pos] least rest Suc replicate_Suc ..
qed simp

lemma slices_parent: "slices parentSize = replicate 50 sliceSize"
  using slices_whole [of 50] by (simp add: parentSize_def sliceSize_def)

lemma enumerate_replicate: "List.enumerate n (replicate k x) = map (\<lambda>i. (i, x)) [n..<n + k]"
  by (induction k arbitrary: n) (simp_all add: upt_conv_Cons)

section \<open>Intervals\<close>

lemma rateToInterval_value:
  assumes "0 < tps" "tps \<le> 2 ^ 53"
  shows "rateToInterval tps = f_to_int64 (rnd (1000000000 / of_int tps))"
proof -
  have t: "f_of_int tps = Num False (of_int tps)" using rnd_int [of tps] assms by (simp add: f_of_int_def)
  have b: "f_of_int 1000000000 = Num False 1000000000" using rnd_int [of 1000000000] by (simp add: f_of_int_def)
  have "(1000000000 :: rat) / of_int tps > 0" using assms by simp
  then have "fdiv (f_of_int 1000000000) (f_of_int tps) = rnd (1000000000 / of_int tps)"
    using assms by (simp add: t b rnd_def)
  with assms show ?thesis by (simp add: rateToInterval_def)
qed

lemma f_to_int64_between:
  assumes "fbetween a b x" "0 \<le> a" "b < 2 ^ 63"
  shows "\<lfloor>a\<rfloor> \<le> f_to_int64 x \<and> f_to_int64 x \<le> \<lfloor>b\<rfloor>"
proof -
  have x: "is_fin x" "a \<le> fval x" "fval x \<le> b" using assms(1) by (auto simp: fbetween_def)
  then have "\<lfloor>a\<rfloor> \<le> \<lfloor>fval x\<rfloor>" "\<lfloor>fval x\<rfloor> \<le> \<lfloor>b\<rfloor>" "0 \<le> \<lfloor>fval x\<rfloor>"
    using assms(2) by (auto intro: floor_mono)
  moreover have "\<lfloor>b\<rfloor> < 2 ^ 63" using assms(3) by (simp add: floor_less_iff)
  ultimately show ?thesis using x assms(2) by (simp add: f_to_int64_def in64_def)
qed

lemma rateToInterval_between:
  assumes "0 < tps" "tps \<le> 1000000000"
  shows "1 \<le> rateToInterval tps \<and> rateToInterval tps \<le> 1000000000"
proof -
  have one: "rnd 1 = Num False 1" and big: "rnd 1000000000 = Num False 1000000000"
    using rnd_int [of 1] rnd_int [of 1000000000] by simp_all
  have "(1 :: rat) \<le> 1000000000 / of_int tps" "1000000000 / of_int tps \<le> (1000000000 :: rat)"
    using assms by (simp_all add: field_simps)
  from rnd_between [OF this] have "fbetween 1 1000000000 (rnd (1000000000 / of_int tps))"
    by (simp add: one big)
  from f_to_int64_between [OF this] show ?thesis
    using assms by (simp add: rateToInterval_value)
qed

lemma rateToInterval_zero:
  assumes "1000000000 < tps" "tps \<le> 2 ^ 53"
  shows "rateToInterval tps = 0"
proof -
  let ?v = "1000000000 / of_int tps :: rat" and ?w = "1000000000 / 1000000001 :: rat"
  have "(1000000001 :: rat) \<le> of_int tps" using assms(1) by linarith
  then have "0 \<le> ?v" "?v \<le> ?w" by (simp_all add: field_simps)
  from rnd_between [OF this] have b: "fbetween 0 (fval (rnd ?w)) (rnd ?v)"
    by (simp add: float_eval)
  have w: "fval (rnd ?w) < 1" by (simp add: float_eval)
  then have "\<lfloor>fval (rnd ?w)\<rfloor> \<le> 0" using floor_less_iff [of "fval (rnd ?w)" 1] by simp
  moreover have "0 \<le> f_to_int64 (rnd ?v) \<and> f_to_int64 (rnd ?v) \<le> \<lfloor>fval (rnd ?w)\<rfloor>"
    using f_to_int64_between [OF b] w by simp
  ultimately have "f_to_int64 (rnd ?v) = 0" by linarith
  then show ?thesis using assms by (simp add: rateToInterval_value)
qed

section \<open>The price of a noise order\<close>

lemma noisy_price_between:
  assumes "fbetween 0 1 u"
  shows "fbetween (989/10) (1011/10) (noisy_price u (2/100))"
proof -
  have half: "fbetween (1/2) (1/2) (Num False (1/2))" and one: "fbetween 1 1 (Num False 1)"
    and mid: "fbetween 100 100 (Num False 100)" by (simp_all add: fbetween_def)
  have c: "is_fin (fconst (2/100))" "0 \<le> fval (fconst (2/100))" "fval (fconst (2/100)) \<le> 21/1000"
    by (simp_all add: fconst_def float_eval)
  have d: "fbetween (- (1/2)) (1/2) (fsub u (Num False (1/2)))"
    using fsub_between [OF assms half] by (simp add: float_eval)
  let ?x = "fsub u (Num False (1/2))"
  have "\<bar>fval ?x * fval (fconst (2/100))\<bar> \<le> 1/2 * (21/1000)"
    unfolding abs_mult using d c by (intro mult_mono) (auto simp: fbetween_def)
  then have "- (21/2000) \<le> fval ?x * fval (fconst (2/100))" "fval ?x * fval (fconst (2/100)) \<le> 21/2000"
    by (simp_all add: abs_le_iff)
  from fmul_between_exact [OF _ c(1) this] d
  have m: "fbetween (- (1051/100000)) (1051/100000) (fmul ?x (fconst (2/100)))"
    by (rule_tac fbetween_weaken) (auto simp: fbetween_def float_eval)
  from fadd_between [OF one m]
  have a: "fbetween (9894/10000) (10106/10000) (fadd (Num False 1) (fmul ?x (fconst (2/100))))"
    by (rule_tac fbetween_weaken; simp add: float_eval; linarith?)
  from fmul_between [OF mid a]
  show ?thesis unfolding noisy_price_def
    by (rule_tac fbetween_weaken; simp add: float_eval; linarith?)
qed

section \<open>The momentum window\<close>

definition momentum_run :: "(float64 \<Rightarrow> float64) \<Rightarrow> float64 list \<Rightarrow> momentum \<Rightarrow> momentum" where
  "momentum_run expf us b = foldl (\<lambda>b u. momentum_push expf u b) b us"

text \<open>The prices the random walk goes through from \<open>m\<close>.\<close>

fun mid_path :: "(float64 \<Rightarrow> float64) \<Rightarrow> float64 \<Rightarrow> float64 list \<Rightarrow> float64 list" where
  "mid_path expf m [] = []"
| "mid_path expf m (u # us) =
     (let m' = fmul m (expf (fmul (fsub u (Num False (1/2))) (fconst (1/100)))) in m' # mid_path expf m' us)"

lemma keep_last_snoc:
  "0 < n \<Longrightarrow> keep_last n (xs @ [x]) = (if n < Suc (length (keep_last n xs)) then tl (keep_last n xs) else keep_last n xs) @ [x]"
  by (auto simp: keep_last_def drop_Suc tl_drop [symmetric] Suc_diff_le min_def)

lemma momentum_push_keeps_last:
  assumes "mo_prices b = keep_last 40 ps"
  shows "mo_prices (momentum_push expf u b) = keep_last 40 (ps @ [mo_mid (momentum_push expf u b)])"
proof -
  show ?thesis
    by (cases "keep_last 40 ps")
      (simp_all add: momentum_push_def Let_def mo_window_def assms keep_last_snoc del: length_keep_last)
qed

lemma momentum_run_prices:
  "mo_prices b = keep_last 40 ps \<Longrightarrow>
     mo_prices (momentum_run expf us b) = keep_last 40 (ps @ mid_path expf (mo_mid b) us)"
proof (induction us arbitrary: b ps)
  case (Cons u us)
  let ?b = "momentum_push expf u b"
  have m: "mid_path expf (mo_mid b) (u # us) = mo_mid ?b # mid_path expf (mo_mid ?b) us"
    by (simp add: momentum_push_def Let_def)
  from Cons.IH [OF momentum_push_keeps_last [OF Cons.prems]]
  show ?case by (simp only: m momentum_run_def foldl_Cons append_assoc append_Cons append_Nil)
qed (simp add: momentum_run_def)

section \<open>The bundled engine as the endpoint\<close>

definition engine_post :: "sorter \<Rightarrow> int \<Rightarrow> books \<Rightarrow> OrderRequest \<Rightarrow> post_result" where
  "engine_post srt now bs req =
     (case fst (handleOrder srt POST (Some req) now bs) of
        HttpOrder r \<Rightarrow> Answer 200 (Some r)
      | HttpError code msg \<Rightarrow> Answer code None
      | _ \<Rightarrow> Answer 200 None)"

text \<open>The reported price is the price of an order that rested in the book.\<close>

lemma matchLoop_price:
  "matchLoop stop xs q fp fq = (xs', q', fp', fq') \<Longrightarrow>
     (fp' = fp \<and> fq' = fq) \<or> (\<exists>x \<in> set xs. fp' = o_price x)"
proof (induction stop xs q fp fq arbitrary: xs' q' fp' fq' rule: matchLoop.induct)
  case (2 stop best rest q fp fq)
  let ?fill = "min64 q (o_qty best)"
  show ?case
  proof (cases "0 < q \<and> \<not> stop (o_price best)")
    case False
    with "2.prems" show ?thesis by (auto split: if_splits)
  next
    case True
    then have c: "\<not> \<not> 0 < q" "\<not> stop (o_price best)" by auto
    show ?thesis
    proof (cases "wrap64 (o_qty best - ?fill) = 0")
      case z: True
      with "2.prems" c have "matchLoop stop rest (wrap64 (q - ?fill)) (o_price best) (wrap64 (fq + ?fill)) = (xs', q', fp', fq')"
        by (simp add: Let_def)
      from "2.IH"(1) [OF c refl refl refl refl z this] show ?thesis by auto
    next
      case nz: False
      with "2.prems" c have "matchLoop stop (best\<lparr>o_qty := wrap64 (o_qty best - ?fill)\<rparr> # rest)
          (wrap64 (q - ?fill)) (o_price best) (wrap64 (fq + ?fill)) = (xs', q', fp', fq')"
        by (simp add: Let_def)
      from "2.IH"(2) [OF c refl refl refl refl nz this] show ?thesis by auto
    qed
  qed
qed simp

lemma match_price:
  "match srt ob o1 = (fp, fq, ob') \<Longrightarrow>
     fq = 0 \<or> (\<exists>x \<in> set (ob_bids ob) \<union> set (ob_asks ob). fp = o_price x)"
  by (auto simp: match_def Let_def split: if_splits prod.splits dest!: matchLoop_price)

definition resting_at :: "books \<Rightarrow> float64 set" where
  "resting_at bs = (\<Union>ob \<in> ran bs. o_price ` (set (ob_bids ob) \<union> set (ob_asks ob)))"

lemma handleOrder_judged:
  assumes h: "fst (handleOrder srt POST (Some req) now bs) = HttpOrder resp"
  shows "filled_or_pending resp \<and> (resp_Status resp = ''PENDING'' \<or> resp_FillPrice resp \<in> resting_at bs)"
proof -
  obtain ob bs1 where g: "getBook (req_Symbol req) bs = (ob, bs1)" by force
  let ?o = "\<lparr>o_id = req_OrderID req, o_price = req_Price req, o_qty = req_Quantity req,
            o_side = req_Side req, o_arrivedAt = now\<rparr>"
  obtain fp fq ob' where m: "match srt ob ?o = (fp, fq, ob')" by (metis prod_cases3)
  have r: "resp_FillPrice resp = fp" "resp_FillQty resp = fq"
    "resp_Status resp = (if 0 < fq then ''FILLED'' else ''PENDING'')"
    using h by (auto simp: handleOrder_def g m Let_def split: if_splits)
  have "fp \<in> resting_at bs" if "0 < fq"
  proof -
    from match_price [OF m] that obtain x where x: "x \<in> set (ob_bids ob) \<union> set (ob_asks ob)" "fp = o_price x"
      by auto
    then have "ob \<in> ran bs"
      using g by (auto simp: getBook_def emptyBook_def ran_def split: option.splits)
    with x show ?thesis by (auto simp: resting_at_def)
  qed
  with r show ?thesis by (auto simp: filled_or_pending_def)
qed

text \<open>After an unfilled market sell, the book holds it at price zero.\<close>

lemma market_sell_rests:
  assumes "sort_slice srt" "bs (bc_Symbol cfg) \<in> {None, Some emptyBook}" "0 \<le> dr_qty d" "dr_qty d < 5"
  shows "snd (handleOrder srt POST (Some (wire_request (market_order a cfg SideSell d))) now bs) (bc_Symbol cfg) =
    Some \<lparr>ob_bids = [], ob_asks = [\<lparr>o_id = newOrderID (dr_uuid d), o_price = Num False 0, o_qty = dr_qty d + 1,
      o_side = ''SELL'', o_arrivedAt = now\<rparr>]\<rparr>"
proof -
  have q: "wrap64 (dr_qty d + 1) = dr_qty d + 1" by (rule wrap64_id) (use assms in \<open>auto simp: in64_def\<close>)
  have g: "fst (getBook (bc_Symbol cfg) bs) = emptyBook"
    using assms(2) by (auto simp: getBook_def)
  have "srt lt [x] = [x]" for lt :: "order \<Rightarrow> order \<Rightarrow> bool" and x
    using sort_slice.srt_mset [OF assms(1), of lt "[x]"] by simp
  with g assms(3) show ?thesis
    by (cases "getBook (bc_Symbol cfg) bs")
      (simp add: handleOrder_def wire_request_def market_order_def q match_def emptyBook_def Buy_def sideStr_def
        Let_def sortAsks_def)
qed

lemma buy_hits_zero:
  assumes "0 < q" "in64 q" "0 < n" "n \<le> 5" "flt (Num False 0) p"
  shows "\<exists>ob'. match srt \<lparr>ob_bids = [], ob_asks = [\<lparr>o_id = i, o_price = Num False 0, o_qty = n, o_side = sd, o_arrivedAt = t\<rparr>]\<rparr>
      \<lparr>o_id = j, o_price = p, o_qty = q, o_side = ''BUY'', o_arrivedAt = t'\<rparr> = (Num False 0, min q n, ob')"
proof -
  have b: "in64 (n - min q n)" "in64 (q - min q n)" "in64 (min q n)"
    using assms by (auto simp: in64_def)
  have "\<not> flt p (Num False 0)" using assms(5) by (cases p) auto
  with assms b show ?thesis
    by (auto simp: match_def Buy_def Let_def min64_def wrap64_id min_def split: if_splits)
qed

definition sample_cfg :: BotConfig where
  "sample_cfg = \<lparr>bc_Symbol = ''AAPL'', bc_TargetTPS = 10, bc_SessionID = ''s'', bc_SandboxID = [], bc_FIXEndpoint = []\<rparr>"

definition sample_draw :: "int \<Rightarrow> int64 \<Rightarrow> (OrderRequest \<Rightarrow> post_result) \<Rightarrow> draw" where
  "sample_draw k now post =
     \<lparr>dr_uuid = ''0123456789'', dr_side = k, dr_unit = Num False (1/2), dr_qty = 1, dr_now = now, dr_rtt = 1000,
      dr_url = True, dr_post = post\<rparr>"

text \<open>The endpoint of the sample: one resting ask.\<close>

definition sample_books :: books where
  "sample_books = Map.empty(''AAPL'' \<mapsto> \<lparr>ob_bids = [], ob_asks = [\<lparr>o_id = ''a'', o_price = Num False 99, o_qty = 5,
     o_side = ''SELL'', o_arrivedAt = 0\<rparr>]\<rparr>)"

section \<open>Properties\<close>

text \<open>
  One round of the institutional slicer sends the whole parent order and nothing more:
  fifty slices of ten, all on the side and at the price drawn for the parent, and the loop
  that cuts them ends. What is reported is exactly the slices that were answered.
\<close>

theorem slicer_round_sends_fifty_slices:
  "slicer_round cfg k u ds =
     concat (map (\<lambda>i. slice_send cfg (side_of k) (noisy_price u (5/1000)) 10 (ds i)) [0..<50])"
  unfolding slicer_round_def Let_def slices_parent enumerate_replicate sliceSize_def by (simp add: comp_def)

text \<open>
  Every child order has a positive quantity of at most the slice size and the children of
  any parent add up to it.
\<close>

theorem slices_add_up: "sum_list (slices n) = max 0 n \<and> (\<forall>q \<in> set (slices n). 0 < q \<and> q \<le> 10)"
  using slices_partition [of n] by (simp add: sliceSize_def)

text \<open>
  The ticker interval of a bot: for a rate of one to a thousand million orders per second
  it is between one nanosecond and one second, without a rate it is a second, and for a
  larger rate it is zero, for which \<open>time.NewTicker\<close> panics.
\<close>

theorem ticker_interval_range:
  assumes "in32 tps"
  shows "rateToInterval tps = 0 \<and> 1000000000 < tps \<or>
    1 \<le> rateToInterval tps \<and> rateToInterval tps \<le> 1000000000 \<and> tps \<le> 1000000000"
proof (cases "0 < tps \<and> tps \<le> 1000000000")
  case True
  then show ?thesis using rateToInterval_between [of tps] by simp
next
  case False
  then consider "tps \<le> 0" | "1000000000 < tps" by linarith
  then show ?thesis
  proof cases
    case 1
    then show ?thesis by (simp add: rateToInterval_def)
  next
    case 2
    then show ?thesis using rateToInterval_zero [of tps] assms by (simp add: in32_def)
  qed
qed

theorem ticker_interval_range_witness:
  "rateToInterval 2000000000 = 0 \<and> 1 \<le> rateToInterval 5000"
  using ticker_interval_range [of 2000000000] ticker_interval_range [of 5000] by (simp add: in32_def)

text \<open>
  The momentum bot's price slice is a window: after any number of ticks it holds the last
  forty prices of the random walk, all of them while there are fewer, so re-slicing its head
  never loses a price the averages need.
\<close>

theorem momentum_window_holds_last_forty:
  "mo_prices (momentum_run expf us NewMomentum) = keep_last 40 (mid_path expf (Num False 100) us)"
  using momentum_run_prices [of NewMomentum "[]" expf us] by (simp add: NewMomentum_def keep_last_def)

text \<open>
  C34. Against the bundled engine the bots' own verdicts are right as long as every order
  resting in its books has a positive price: whatever the noise bots and the market-order bots
  report is marked correct.
\<close>

theorem engine_fills_are_judged_correct:
  assumes "\<forall>p \<in> resting_at bs. flt (Num False 0) p"
    and "dr_post d = engine_post srt now bs"
    and "m \<in> set (noise_tick a cfg d) \<union> set (market_send a cfg sd d)"
  shows "mt_Correct m"
proof -
  have *: "priced_or_pending fill \<and> filled_or_pending fill" if "send_by d o1 = (rtt, Inr fill)"
    for rtt fill and o1 :: bot_order
  proof -
    from that assms(2) have "fst (handleOrder srt POST (Some (wire_request o1)) now bs) = HttpOrder fill"
      by (auto simp: send_by_def sendOrder_def engine_post_def split: if_splits http_response.splits option.splits)
    from handleOrder_judged [OF this] assms(1) show ?thesis by (auto simp: priced_or_pending_def)
  qed
  from assms(3) show ?thesis
    by (auto simp: noise_tick_def market_send_def Let_def report_def split: prod.splits sum.splits dest!: * [OF sym])
qed

theorem engine_fills_are_judged_correct_witness:
  "\<exists>m. market_send LatencyArb sample_cfg SideBuy (sample_draw 0 5 (engine_post insertion_sort 7 sample_books)) = [m] \<and>
     mt_FillQty m = 2 \<and> mt_Correct m"
proof -
  let ?d = "sample_draw 0 5 (engine_post insertion_sort 7 sample_books)"
  let ?ms = "market_send LatencyArb sample_cfg SideBuy ?d"
  have "length ?ms = 1" "mt_FillQty (hd ?ms) = 2" by code_simp+
  then obtain m where m: "?ms = [m]" "mt_FillQty m = 2" by (cases ?ms) auto
  have "mt_Correct m"
    by (rule engine_fills_are_judged_correct [where bs = sample_books and d = ?d and srt = insertion_sort and now = 7
          and a = LatencyArb and cfg = sample_cfg and sd = SideBuy])
      (simp_all add: m, simp_all add: resting_at_def sample_books_def ran_def sample_draw_def)
  with m show ?thesis by blast
qed

text \<open>
  Why the hypothesis of the previous property matters: a market sell that finds no bid is
  not dropped but rests at price zero, so the next buy of a noise bot is answered as filled
  at price zero and its bot marks the fill as incorrect. The bundled engine loses fill
  accuracy through its own handling of market orders.
\<close>

theorem unfilled_market_sell_spoils_next_buy:
  assumes "sort_slice srt" and "bs (bc_Symbol cfg) \<in> {None, Some emptyBook}"
    and "0 \<le> dr_qty d1" and "dr_qty d1 < 5"
    and "bs' = snd (handleOrder srt POST (Some (wire_request (market_order a cfg SideSell d1))) t1 bs)"
    and "fbetween 0 1 (dr_unit d2)" and "0 \<le> dr_qty d2" and "dr_qty d2 < 10" and "dr_side d2 = 0" and "dr_url d2"
    and "dr_post d2 = engine_post srt t2 bs'"
  shows "\<exists>m. noise_tick NoiseTrader cfg d2 = [m] \<and> mt_FillPrice m = Num False 0 \<and> 0 < mt_FillQty m \<and> \<not> mt_Correct m"
proof -
  let ?o = "noise_order NoiseTrader cfg d2" and ?n = "min (dr_qty d2 + 1) (dr_qty d1 + 1)"
  have p: "fbetween (989/10) (1011/10) (fo_Price ?o)"
    using noisy_price_between [OF assms(6)] by (simp add: noise_order_def)
  then have fin: "is_fin (fo_Price ?o)" "flt (Num False 0) (fo_Price ?o)" "\<not> feq (fo_Price ?o) (Num False 0)"
    by (cases "fo_Price ?o"; auto simp: fbetween_def)+
  have q: "fo_Quantity ?o = dr_qty d2 + 1" "in64 (dr_qty d2 + 1)"
    using assms(7,8) by (auto simp: noise_order_def in64_def wrap64_id)
  have w: "wire_request ?o = \<lparr>req_OrderID = fo_ID ?o, req_Symbol = bc_Symbol cfg, req_Side = ''BUY'', req_Type = ''LIMIT'',
      req_Price = fo_Price ?o, req_Quantity = dr_qty d2 + 1\<rparr>"
    using fin(3) assms(9) q(1) by (simp add: wire_request_def sideStr_def noise_order_def side_of_def)
  obtain ob' where mt: "match srt \<lparr>ob_bids = [], ob_asks = [\<lparr>o_id = newOrderID (dr_uuid d1), o_price = Num False 0,
        o_qty = dr_qty d1 + 1, o_side = ''SELL'', o_arrivedAt = t1\<rparr>]\<rparr>
      \<lparr>o_id = fo_ID ?o, o_price = fo_Price ?o, o_qty = dr_qty d2 + 1, o_side = ''BUY'', o_arrivedAt = t2\<rparr> =
      (Num False 0, ?n, ob')"
    using buy_hits_zero [where n = "dr_qty d1 + 1", OF _ q(2) _ _ fin(2)] assms(3,4,7) by force
  have book: "bs' (bc_Symbol cfg) = Some \<lparr>ob_bids = [], ob_asks = [\<lparr>o_id = newOrderID (dr_uuid d1),
      o_price = Num False 0, o_qty = dr_qty d1 + 1, o_side = ''SELL'', o_arrivedAt = t1\<rparr>]\<rparr>"
    unfolding assms(5) by (rule market_sell_rests [where bs = bs and cfg = cfg and d = d1, OF assms(1-4)])
  let ?r = "\<lparr>resp_OrderID = fo_ID ?o, resp_FillPrice = Num False 0, resp_FillQty = ?n, resp_Status = ''FILLED''\<rparr>"
  have "fst (handleOrder srt POST (Some (wire_request ?o)) t2 bs') = HttpOrder ?r"
    using assms(3,7) by (simp add: handleOrder_def getBook_def book w mt)
  then have "send_by d2 ?o = (dr_rtt d2, Inr ?r)"
    using fin(1) assms(10,11) by (simp add: send_by_def sendOrder_def engine_post_def)
  with assms(3,7) show ?thesis
    by (simp add: noise_tick_def report_def priced_or_pending_def Let_def)
qed

theorem unfilled_market_sell_spoils_next_buy_witness:
  "let bs' = snd (handleOrder insertion_sort POST
        (Some (wire_request (market_order Momentum sample_cfg SideSell (sample_draw 1 5 (\<lambda>_. DoFailed))))) 6 Map.empty);
       ms = noise_tick NoiseTrader sample_cfg (sample_draw 0 8 (engine_post insertion_sort 9 bs'))
   in \<exists>m. ms = [m] \<and> \<not> mt_Correct m"
  unfolding Let_def
  using unfilled_market_sell_spoils_next_buy [OF insertion.sort_slice_axioms, of Map.empty sample_cfg
      "sample_draw 1 5 (\<lambda>_. DoFailed)" _ Momentum 6 "sample_draw 0 8 (engine_post insertion_sort 9 (snd
        (handleOrder insertion_sort POST (Some (wire_request (market_order Momentum sample_cfg SideSell
          (sample_draw 1 5 (\<lambda>_. DoFailed))))) 6 Map.empty)))" 9, OF _ _ _ refl]
  by (force simp: sample_draw_def fbetween_def)

end
