(* ===== verification/BotRuns.thy ===== *)
theory BotRuns
  imports Bots
begin

text \<open>
  The loops of the bots, \<open>Run\<close> in \<open>archetypes.go\<close> and \<open>fix_client.go\<close>, around the rounds of \<open>Bots\<close>.
  A run is the sequence of what its \<open>select\<close> meets: a tick with what the round draws, or the
  context that is done. The Go interface \<open>Bot\<close> is the locale \<open>bot\<close>.
\<close>

section \<open>The interface\<close>

datatype 'd bot_input = Tick 'd | Done

text \<open>\<open>for { select { case <-ctx.Done(): return; case <-ticker.C: ... } }\<close>; a run whose input ends
  is still waiting.\<close>

fun bot_loop :: "('d \<Rightarrow> 's \<Rightarrow> 's \<times> Metrics list) \<Rightarrow> 'd bot_input list \<Rightarrow> 's \<Rightarrow> 's \<times> Metrics list" where
  "bot_loop tick [] b = (b, [])"
| "bot_loop tick (Done # xs) b = (b, [])"
| "bot_loop tick (Tick d # xs) b =
     (let r = tick d b; rest = bot_loop tick xs (fst r) in (fst rest, snd r @ snd rest))"

text \<open>The rounds before the context is done.\<close>

fun ticks :: "'d bot_input list \<Rightarrow> 'd list" where
  "ticks [] = []"
| "ticks (Done # xs) = []"
| "ticks (Tick d # xs) = d # ticks xs"

locale bot =
  fixes tick :: "'d \<Rightarrow> 's \<Rightarrow> 's \<times> Metrics list"
    and archetype :: Archetype
    and orders :: nat           \<comment> \<open>at most so many orders a round\<close>
    and inv :: "'s \<Rightarrow> bool"
  assumes tick_archetype: "m \<in> set (snd (tick d b)) \<Longrightarrow> mt_Archetype m = archetype"
    and tick_orders: "length (snd (tick d b)) \<le> orders"
    and tick_inv: "inv b \<Longrightarrow> inv (fst (tick d b))"
begin

lemma run_archetype: "m \<in> set (snd (bot_loop tick xs b)) \<Longrightarrow> mt_Archetype m = archetype"
proof (induction xs arbitrary: b)
  case (Cons x xs)
  then show ?case by (cases x) (auto simp: Let_def dest: tick_archetype)
qed simp

lemma run_orders: "length (snd (bot_loop tick xs b)) \<le> orders * length (ticks xs)"
proof (induction xs arbitrary: b)
  case (Cons x xs)
  show ?case
  proof (cases x)
    case (Tick d)
    with Cons [of "fst (tick d b)"] tick_orders [of d b] show ?thesis by (simp add: Let_def)
  qed simp
qed simp

lemma run_inv: "inv b \<Longrightarrow> inv (fst (bot_loop tick xs b))"
proof (induction xs arbitrary: b)
  case (Cons x xs)
  then show ?case by (cases x) (auto simp: Let_def tick_inv)
qed simp

end

section \<open>The runs\<close>

definition NoiseRun :: "BotConfig \<Rightarrow> draw bot_input list \<Rightarrow> Metrics list" where
  "NoiseRun cfg xs = snd (bot_loop (\<lambda>d b. (b, noise_tick NoiseTrader cfg d)) xs ())"

definition MakerRun :: "(float64 \<Rightarrow> float64) \<Rightarrow> (float64 \<Rightarrow> float64) \<Rightarrow> BotConfig \<Rightarrow> (draw \<times> draw) bot_input list \<Rightarrow> maker \<times> Metrics list" where
  "MakerRun logf expf cfg xs = bot_loop (\<lambda>d. maker_tick logf expf cfg (fst d) (snd d)) xs NewMaker"

definition MomentumRun :: "(float64 \<Rightarrow> float64) \<Rightarrow> BotConfig \<Rightarrow> draw bot_input list \<Rightarrow> momentum \<times> Metrics list" where
  "MomentumRun expf cfg xs = bot_loop (momentum_tick expf cfg) xs NewMomentum"

definition ArbRun :: "BotConfig \<Rightarrow> draw bot_input list \<Rightarrow> Metrics list" where
  "ArbRun cfg xs = snd (bot_loop (\<lambda>d b. (b, arb_tick cfg d)) xs ())"

text \<open>The FIX bot over REST, over FIX, and its choice; \<open>fd_stream\<close> is what the acceptor sent by
  the time of the round.\<close>

definition runREST :: "BotConfig \<Rightarrow> draw bot_input list \<Rightarrow> Metrics list" where
  "runREST cfg xs = snd (bot_loop (\<lambda>d b. (b, noise_tick FIXNoise cfg d)) xs ())"

record fix_draw =
  fd_draw :: draw
  fd_ctx :: "nat \<Rightarrow> bool"
  fd_written :: bool
  fd_transact :: string
  fd_sending :: string
  fd_stream :: string

definition fix_round :: "BotConfig \<Rightarrow> fix_draw \<Rightarrow> FIXClient \<Rightarrow> FIXClient \<times> Metrics list" where
  "fix_round cfg d c =
     (case fix_tick cfg (fd_draw d) (fd_ctx d) (fd_written d) (fd_transact d) (fd_sending d) (fd_stream d) c of
        (c', wire, ms) \<Rightarrow> (c', ms))"

definition runFIX :: "BotConfig \<Rightarrow> fix_draw bot_input list \<Rightarrow> FIXClient \<Rightarrow> Metrics list" where
  "runFIX cfg xs c = snd (bot_loop (fix_round cfg) xs c)"

definition FIXRun :: "BotConfig \<Rightarrow> int \<Rightarrow> bool \<Rightarrow> bool \<Rightarrow> string \<Rightarrow> draw bot_input list \<Rightarrow> fix_draw bot_input list \<Rightarrow> Metrics list" where
  "FIXRun cfg k dialed written now rest fix_ins =
     (case fix_transport cfg k dialed written now of None \<Rightarrow> runREST cfg rest | Some cw \<Rightarrow> runFIX cfg fix_ins (fst cw))"

text \<open>The slicer: the waits before a slice, or the context that is done instead; the flag says
  whether all slices were reached. A parent order is followed by a pause, in which the context may
  be done too.\<close>

fun slice_loop :: "BotConfig \<Rightarrow> worker_side \<Rightarrow> float64 \<Rightarrow> int64 list \<Rightarrow> draw bot_input list \<Rightarrow> Metrics list \<times> bool" where
  "slice_loop cfg sd price [] xs = ([], True)"
| "slice_loop cfg sd price (q # qs) (Tick d # xs) =
     (let rest = slice_loop cfg sd price qs xs in (slice_send cfg sd price q d @ fst rest, snd rest))"
| "slice_loop cfg sd price (q # qs) xs = ([], False)"

record parent =
  pt_side :: int
  pt_unit :: float64
  pt_slices :: "draw bot_input list"
  pt_done :: bool

fun SlicerRun :: "BotConfig \<Rightarrow> parent list \<Rightarrow> Metrics list" where
  "SlicerRun cfg [] = []"
| "SlicerRun cfg (p # ps) =
     (let r = slice_loop cfg (side_of (pt_side p)) (noisy_price (pt_unit p) (5/1000)) (slices parentSize) (pt_slices p)
      in if snd r \<and> \<not> pt_done p then fst r @ SlicerRun cfg ps else fst r)"

section \<open>The bots provide the interface\<close>

lemma noise_tick_reports: "m \<in> set (noise_tick a cfg d) \<Longrightarrow> mt_Archetype m = a" "length (noise_tick a cfg d) \<le> 1"
  by (auto simp: noise_tick_def report_def noise_order_def Let_def split: prod.splits sum.splits)

lemma market_send_reports: "m \<in> set (market_send a cfg sd d) \<Longrightarrow> mt_Archetype m = a" "length (market_send a cfg sd d) \<le> 1"
  by (auto simp: market_send_def report_def market_order_def Let_def split: prod.splits sum.splits)

lemma maker_send_reports:
  "maker_send cfg sd sign price d held = (held', ms) \<Longrightarrow>
     (\<forall>m \<in> set ms. mt_Archetype m = MarketMaker) \<and> length ms \<le> 1 \<and> (in64 held \<longrightarrow> in64 held')"
  by (auto simp: maker_send_def report_def maker_order_def Let_def split: prod.splits sum.splits)

lemma slice_send_reports: "m \<in> set (slice_send cfg sd price q d) \<Longrightarrow> mt_Archetype m = InstitutionalSlicer"
  "length (slice_send cfg sd price q d) \<le> 1"
  by (auto simp: slice_send_def report_def slice_order_def Let_def split: prod.splits sum.splits)

interpretation noise: bot "\<lambda>d b. (b :: unit, noise_tick a cfg d)" a 1 "\<lambda>_. True"
  by unfold_locales (use noise_tick_reports in auto)

interpretation arb: bot "\<lambda>d b. (b :: unit, arb_tick cfg d)" LatencyArb 1 "\<lambda>_. True"
  by unfold_locales (use market_send_reports in \<open>auto simp: arb_tick_def\<close>)

interpretation momentum_bot: bot "momentum_tick expf cfg" Momentum 1 "\<lambda>b. length (mo_prices b) \<le> 40"
  by unfold_locales
    (use market_send_reports in \<open>auto simp: momentum_tick_def momentum_push_def mo_window_def Let_def split: option.splits\<close>)

interpretation maker_bot: bot "\<lambda>d. maker_tick logf expf cfg (fst d) (snd d)" MarketMaker 2 "\<lambda>b. in64 (mk_inventory b)"
proof
  fix m b and d :: "draw \<times> draw"
  obtain bid ask where q: "maker_quotes logf (b\<lparr>mk_t := maker_clock (mk_t b)\<rparr>) = (bid, ask)" by force
  obtain h1 ms1 where s1: "maker_send cfg SideBuy 1 bid (fst d) (mk_inventory b) = (h1, ms1)" by force
  obtain h2 ms2 where s2: "maker_send cfg SideSell (- 1) ask (snd d) h1 = (h2, ms2)" by force
  note r = maker_send_reports [OF s1] maker_send_reports [OF s2]
  have t: "snd (maker_tick logf expf cfg (fst d) (snd d) b) = ms1 @ ms2"
    "mk_inventory (fst (maker_tick logf expf cfg (fst d) (snd d) b)) = h2"
    by (simp_all add: maker_tick_def q s1 s2 Let_def)
  show "m \<in> set (snd (maker_tick logf expf cfg (fst d) (snd d) b)) \<Longrightarrow> mt_Archetype m = MarketMaker"
    "length (snd (maker_tick logf expf cfg (fst d) (snd d) b)) \<le> 2"
    "in64 (mk_inventory b) \<Longrightarrow> in64 (mk_inventory (fst (maker_tick logf expf cfg (fst d) (snd d) b)))"
    unfolding t using r by auto
qed

interpretation fix_bot: bot "fix_round cfg" FIXNoise 1 "\<lambda>_. True"
  by unfold_locales (auto simp: fix_round_def fix_tick_def Let_def split: prod.splits sum.splits)

lemma slice_loop_reports:
  "(\<forall>m \<in> set (fst (slice_loop cfg sd price qs xs)). mt_Archetype m = InstitutionalSlicer) \<and>
   length (fst (slice_loop cfg sd price qs xs)) \<le> length qs"
proof (induction cfg sd price qs xs rule: slice_loop.induct)
  case (2 cfg sd price q qs d xs)
  then show ?case using slice_send_reports [where q = q and cfg = cfg and sd = sd and price = price and d = d]
    by (auto simp: Let_def)
qed simp_all

lemma SlicerRun_reports:
  "(\<forall>m \<in> set (SlicerRun cfg ps). mt_Archetype m = InstitutionalSlicer) \<and> length (SlicerRun cfg ps) \<le> 50 * length ps"
proof (induction ps)
  case (Cons p ps)
  have "length (slices parentSize) = 50" by (simp add: slices_parent)
  with Cons slice_loop_reports [of cfg "side_of (pt_side p)" "noisy_price (pt_unit p) (5/1000)" "slices parentSize" "pt_slices p"]
  show ?case by (auto simp: Let_def)
qed simp

section \<open>The market maker's quotes\<close>

lemma around_ordered:
  assumes "is_fin r" "is_fin h" "0 \<le> fval h"
  shows "fle (fsub r h) (fadd r h)"
  using assms by (simp add: fsub_def fadd_le_iff rnd_mono)

lemma mk_constants: "fbetween (9/100) (11/100) mk_gamma" "fbetween (19/1000) (21/1000) mk_sigma" "fbetween 1 2 mk_kappa"
  by (simp_all add: mk_gamma_def mk_sigma_def mk_kappa_def fbetween_def fconst_def float_eval)

lemma maker_clock_range: "fbetween 0 1 t \<Longrightarrow> fbetween 0 1 (maker_clock t)"
proof -
  assume t: "fbetween 0 1 t"
  have "fbetween 0 (1/500) (fconst (1/1000))" by (simp add: fbetween_def fconst_def float_eval)
  from fbetween_weaken [OF fadd_between [OF t this], of 0 2] have "fbetween 0 2 (fadd t (fconst (1/1000)))"
    by (simp add: float_eval)
  then show ?thesis by (cases "fadd t (fconst (1/1000))") (auto simp: maker_clock_def Let_def fbetween_def)
qed

lemma half_spread:
  assumes dt: "fbetween 0 1 dt" and l: "fbetween 0 1 l"
  shows "fbetween 0 100 (fdiv (fadd (fmul (fmul (fmul mk_gamma mk_sigma) mk_sigma) dt) (fmul (fdiv (Num False 2) mk_gamma) l)) (Num False 2))"
proof -
  have g: "fbetween 0 1 mk_gamma" "fbetween 0 1 mk_sigma" using mk_constants by (auto intro: fbetween_weaken)
  from fmul_between [OF g] have "fbetween 0 1 (fmul mk_gamma mk_sigma)" by (simp add: float_eval)
  from fmul_between [OF this g(2)] have "fbetween 0 1 (fmul (fmul mk_gamma mk_sigma) mk_sigma)" by (simp add: float_eval)
  from fmul_between [OF this dt] have a: "fbetween 0 1 (fmul (fmul (fmul mk_gamma mk_sigma) mk_sigma) dt)" by (simp add: float_eval)
  have "fbetween 0 30 (fdiv (Num False 2) mk_gamma)"
    by (simp add: mk_gamma_def fbetween_def fconst_def float_eval)
  from fmul_between [OF this l] have b: "fbetween 0 30 (fmul (fdiv (Num False 2) mk_gamma) l)" by (simp add: float_eval)
  from fadd_between [OF a b] have "fbetween 0 31 (fadd (fmul (fmul (fmul mk_gamma mk_sigma) mk_sigma) dt) (fmul (fdiv (Num False 2) mk_gamma) l))"
    by (simp add: float_eval)
  then have "fbetween (fval (rnd 0)) (fval (rnd (31/2))) (fdiv (fadd (fmul (fmul (fmul mk_gamma mk_sigma) mk_sigma) dt)
      (fmul (fdiv (Num False 2) mk_gamma) l)) (Num False 2))"
    by (intro fdiv_between_exact) (simp_all add: fbetween_def float_eval)
  then show ?thesis by (rule fbetween_weaken) (simp_all add: float_eval)
qed

lemma fmul_shrinks:
  assumes "fbetween (- (2 ^ 63)) (2 ^ 63) x" "fbetween 0 1 y"
  shows "fbetween (- (2 ^ 63)) (2 ^ 63) (fmul x y)"
proof -
  have r: "rnd (2 ^ 63) = Num False (2 ^ 63)" "rnd (- (2 ^ 63)) = Num True (2 ^ 63)" by (simp_all add: rnd_def fround_def float_eval)
  have "\<bar>fval x\<bar> * \<bar>fval y\<bar> \<le> 2 ^ 63 * 1" using assms by (intro mult_mono) (auto simp: fbetween_def)
  then have "\<bar>fval x * fval y\<bar> \<le> 2 ^ 63" by (simp add: abs_mult)
  then have "- (2 ^ 63) \<le> fval x * fval y" "fval x * fval y \<le> 2 ^ 63" by linarith+
  from fmul_between_exact [OF _ _ this] assms show ?thesis by (simp add: r [simplified] fbetween_def)
qed

lemma f_of_int_range: "in64 q \<Longrightarrow> fbetween (- (2 ^ 63)) (2 ^ 63) (f_of_int q)"
proof -
  assume q: "in64 q"
  have r: "f_of_int (2 ^ 63) = Num False (2 ^ 63)" "f_of_int (- (2 ^ 63)) = Num True (2 ^ 63)"
    by (simp_all add: f_of_int_def rnd_def fround_def float_eval)
  have "fle (f_of_int (- (2 ^ 63))) (f_of_int q)" "fle (f_of_int q) (f_of_int (2 ^ 63))"
    using q by (intro f_of_int_mono; simp add: in64_def)+
  with f_of_int_is_num [OF q] show ?thesis unfolding r by (cases "f_of_int q") (auto simp: fbetween_def)
qed

lemma reservation_fin:
  assumes "fbetween 0 (2 ^ 60) mid" "in64 q" "fbetween 0 1 dt"
  shows "is_fin (fsub mid (fmul (fmul (fmul (fmul (f_of_int q) mk_gamma) mk_sigma) mk_sigma) dt))"
proof -
  have g: "fbetween 0 1 mk_gamma" "fbetween 0 1 mk_sigma" using mk_constants by (auto intro: fbetween_weaken)
  have "fbetween (- (2 ^ 63)) (2 ^ 63) (fmul (fmul (fmul (fmul (f_of_int q) mk_gamma) mk_sigma) mk_sigma) dt)"
    by (intro fmul_shrinks f_of_int_range assms g)
  from fsub_between [OF assms(1) this] have "is_fin (rnd (0 - 2 ^ 63)) \<longrightarrow> is_fin (rnd (2 ^ 60 - - (2 ^ 63))) \<longrightarrow> ?thesis"
    by (simp add: fbetween_def)
  moreover have "is_fin (rnd (0 - 2 ^ 63))" "is_fin (rnd (2 ^ 60 - - (2 ^ 63)))" by (rule rnd_num_bounded, simp)+
  ultimately show ?thesis by blast
qed

section \<open>Properties\<close>

text \<open>Every bot reports under its own archetype, and reports no more than it sends: over any run
  one report a round at most, two for the market maker, and fifty for each parent order of the
  slicer; the FIX bot does so over either transport. Whatever is filled, the market maker's
  inventory stays an \<open>int64\<close> and the momentum bot's window within forty prices.\<close>

theorem bots_report_under_their_archetype:
  "list_all (\<lambda>m. mt_Archetype m = NoiseTrader) (NoiseRun cfg xs) \<and> length (NoiseRun cfg xs) \<le> length (ticks xs) \<and>
   list_all (\<lambda>m. mt_Archetype m = LatencyArb) (ArbRun cfg xs) \<and> length (ArbRun cfg xs) \<le> length (ticks xs) \<and>
   list_all (\<lambda>m. mt_Archetype m = Momentum) (snd (MomentumRun expf cfg xs)) \<and>
     length (snd (MomentumRun expf cfg xs)) \<le> length (ticks xs) \<and> length (mo_prices (fst (MomentumRun expf cfg xs))) \<le> 40 \<and>
   list_all (\<lambda>m. mt_Archetype m = MarketMaker) (snd (MakerRun logf expf cfg ys)) \<and>
     length (snd (MakerRun logf expf cfg ys)) \<le> 2 * length (ticks ys) \<and> in64 (mk_inventory (fst (MakerRun logf expf cfg ys))) \<and>
   list_all (\<lambda>m. mt_Archetype m = FIXNoise) (FIXRun cfg k dialed written now xs zs) \<and>
     length (FIXRun cfg k dialed written now xs zs) \<le> max (length (ticks xs)) (length (ticks zs)) \<and>
   list_all (\<lambda>m. mt_Archetype m = InstitutionalSlicer) (SlicerRun cfg ps) \<and> length (SlicerRun cfg ps) \<le> 50 * length ps"
proof -
  have rest: "(\<forall>m \<in> set (runREST cfg xs). mt_Archetype m = FIXNoise) \<and> length (runREST cfg xs) \<le> length (ticks xs)"
    unfolding runREST_def using noise.run_archetype [of _ FIXNoise cfg xs "()"] noise.run_orders [of FIXNoise cfg xs "()"] by auto
  have wire: "(\<forall>m \<in> set (runFIX cfg zs c). mt_Archetype m = FIXNoise) \<and> length (runFIX cfg zs c) \<le> length (ticks zs)" for c
    unfolding runFIX_def using fix_bot.run_archetype [of _ cfg zs c] fix_bot.run_orders [of cfg zs c] by auto
  have fix_run: "(\<forall>m \<in> set (FIXRun cfg k dialed written now xs zs). mt_Archetype m = FIXNoise) \<and>
     length (FIXRun cfg k dialed written now xs zs) \<le> max (length (ticks xs)) (length (ticks zs))"
    using rest wire by (auto simp: FIXRun_def max_def split: option.split) (meson le_trans nat_le_linear)+
  show ?thesis
    using noise.run_archetype [of _ NoiseTrader cfg xs "()"] noise.run_orders [of NoiseTrader cfg xs "()"]
      arb.run_archetype [of _ cfg xs "()"] arb.run_orders [of cfg xs "()"]
      momentum_bot.run_archetype [of _ expf cfg xs NewMomentum] momentum_bot.run_orders [of expf cfg xs NewMomentum]
      momentum_bot.run_inv [of NewMomentum expf cfg xs]
      maker_bot.run_archetype [of _ logf expf cfg ys NewMaker] maker_bot.run_orders [of logf expf cfg ys NewMaker]
      maker_bot.run_inv [of NewMaker logf expf cfg ys] fix_run SlicerRun_reports [of cfg ps]
    by (simp add: NoiseRun_def ArbRun_def MomentumRun_def MakerRun_def NewMomentum_def NewMaker_def in64_def list_all_iff)
qed

text \<open>C37. The market maker never quotes against itself: with its clock in the unit interval, a mid price
  from 0 to 2^60 and any inventory, its bid is at most its ask, and after the round the clock is in
  the unit interval again. Of the logarithm only this is used: at the one point it is taken, it is
  from 0 to 1.\<close>

theorem maker_never_crosses_itself:
  assumes "fbetween 0 1 (mk_t b)" "fbetween 0 (2 ^ 60) (mk_mid b)" "in64 (mk_inventory b)"
    and "fbetween 0 1 (logf (fadd (Num False 1) (fdiv mk_gamma mk_kappa)))"
  shows "fle (fst (maker_quotes logf b)) (snd (maker_quotes logf b)) \<and>
    fbetween 0 1 (mk_t (fst (maker_tick logf expf cfg d1 d2 b)))"
proof -
  have dt: "fbetween 0 1 (fsub (Num False 1) (mk_t b))"
    using fsub_between [of 1 1 "Num False 1" 0 1 "mk_t b"] assms(1) by (simp add: fbetween_def float_eval)
  have h: "fbetween 0 100 (fdiv (fadd (fmul (fmul (fmul mk_gamma mk_sigma) mk_sigma) (fsub (Num False 1) (mk_t b)))
      (fmul (fdiv (Num False 2) mk_gamma) (logf (fadd (Num False 1) (fdiv mk_gamma mk_kappa))))) (Num False 2))"
    by (rule half_spread [OF dt assms(4)])
  have "fle (fst (maker_quotes logf b)) (snd (maker_quotes logf b))"
    unfolding maker_quotes_def Let_def fst_conv snd_conv
    by (rule around_ordered) (use reservation_fin [OF assms(2,3) dt] h in \<open>auto simp: fbetween_def\<close>)
  moreover have "mk_t (fst (maker_tick logf expf cfg d1 d2 b)) = maker_clock (mk_t b)"
    by (simp add: maker_tick_def Let_def split: prod.split)
  ultimately show ?thesis using maker_clock_range [OF assms(1)] by simp
qed

theorem maker_never_crosses_itself_witness:
  "fle (fst (maker_quotes (\<lambda>_. fconst (645/10000)) NewMaker)) (snd (maker_quotes (\<lambda>_. fconst (645/10000)) NewMaker))"
  using maker_never_crosses_itself [of NewMaker "\<lambda>_. fconst (645/10000)"]
  by (simp add: NewMaker_def fbetween_def in64_def fconst_def float_eval)

end
