(* ===== verification/Fleet.thy ===== *)
theory Fleet
  imports Bots Consumer
begin

text \<open>
  \<open>botfleet/internal/worker/fleet.go\<close>: the swarm of a benchmark run, which bots are started
  at which rate, and the publisher that numbers their reports and batches them to Kafka.
  A run of the publisher is the sequence of what its \<open>select\<close> meets, interleaved with the
  ends of bots; the outcome of each \<open>WriteMessages\<close> is an argument.
\<close>

section \<open>Configuration\<close>

record ArchetypeMix =
  mx_MarketMakers :: int64
  mx_MomentumTraders :: int64
  mx_NoiseTraders :: int64
  mx_InstitutionalSlicers :: int64
  mx_LatencyArbs :: int64
  mx_FIXNoise :: int64

record FleetConfig =
  fg_FleetID :: string
  fg_SessionID :: string
  fg_TeamName :: string
  fg_Symbol :: string
  fg_EndpointURL :: string
  fg_FIXEndpoint :: string
  fg_Mix :: ArchetypeMix
  fg_TargetTPS :: int64
  fg_DurationSec :: int64
  fg_KafkaBroker :: string
  fg_MetricsTopic :: string
  fg_ReplayTopic :: string

record Fleet =
  fl_cfg :: FleetConfig
  fl_activeCount :: int32
  fl_ordersSent :: int64
  fl_replaySeq :: int64

definition NewFleet :: "FleetConfig \<Rightarrow> Fleet" where
  "NewFleet cfg = \<lparr>fl_cfg = cfg, fl_activeCount = 0, fl_ordersSent = 0, fl_replaySeq = 0\<rparr>"

definition max_int :: "int64 \<Rightarrow> int64 \<Rightarrow> int64" where
  "max_int a b = (if b < a then a else b)"

definition totalBots :: "FleetConfig \<Rightarrow> int64" where
  "totalBots cfg =
     (let m = fg_Mix cfg in
      wrap64 (mx_MarketMakers m + mx_MomentumTraders m + mx_NoiseTraders m + mx_InstitutionalSlicers m +
        mx_LatencyArbs m + mx_FIXNoise m))"

text \<open>The deadline of a run: seconds to nanoseconds in \<open>int64\<close>.\<close>

definition run_timeout :: "FleetConfig \<Rightarrow> int64" where
  "run_timeout cfg = wrap64 (fg_DurationSec cfg * 1000000000)"

section \<open>Spawning\<close>

definition perBotTPS :: "FleetConfig \<Rightarrow> int64" where
  "perBotTPS cfg = go_div (fg_TargetTPS cfg) (max_int (totalBots cfg) 1)"

definition botCfg :: "FleetConfig \<Rightarrow> BotConfig" where
  "botCfg cfg =
     \<lparr>bc_Symbol = fg_Symbol cfg, bc_TargetTPS = perBotTPS cfg, bc_SessionID = fg_SessionID cfg, bc_SandboxID = [],
      bc_FIXEndpoint = fg_FIXEndpoint cfg\<rparr>"

text \<open>\<open>for i := 0; i < n; i++\<close> starts none when \<open>n\<close> is negative.\<close>

definition roster :: "ArchetypeMix \<Rightarrow> Archetype list" where
  "roster m =
     replicate (nat (mx_MarketMakers m)) MarketMaker @ replicate (nat (mx_MomentumTraders m)) Momentum @
     replicate (nat (mx_NoiseTraders m)) NoiseTrader @ replicate (nat (mx_InstitutionalSlicers m)) InstitutionalSlicer @
     replicate (nat (mx_LatencyArbs m)) LatencyArb @ replicate (nat (mx_FIXNoise m)) FIXNoise"

definition spawn_one :: "BotConfig \<Rightarrow> Archetype \<Rightarrow> (Archetype \<times> BotConfig) list \<times> Fleet \<Rightarrow> (Archetype \<times> BotConfig) list \<times> Fleet" where
  "spawn_one bc a s = (fst s @ [(a, bc)], (snd s)\<lparr>fl_activeCount := wrap32 (fl_activeCount (snd s) + 1)\<rparr>)"

definition spawnBots :: "Fleet \<Rightarrow> (Archetype \<times> BotConfig) list \<times> Fleet" where
  "spawnBots f =
     foldl (\<lambda>s a. spawn_one (botCfg (fl_cfg f)) a s) ([], f) (roster (fg_Mix (fl_cfg f)))"

definition bot_done :: "Fleet \<Rightarrow> Fleet" where
  "bot_done f = f\<lparr>fl_activeCount := wrap32 (fl_activeCount f - 1)\<rparr>"

section \<open>Publishing\<close>

text \<open>The JSON object of a report.\<close>

record payload =
  pl_session_id :: string
  pl_team_name :: string
  pl_fleet_id :: string
  pl_order_id :: string
  pl_archetype :: string
  pl_app_rtt_ns :: int64
  pl_correct :: bool
  pl_fill_price :: float64
  pl_fill_qty :: int64
  pl_emitted_ns :: int64
  pl_replay_seq :: int64
  pl_active_bots :: int32

record kafka_message =
  km_Topic :: string
  km_Key :: string
  km_Value :: payload

definition report_payload :: "FleetConfig \<Rightarrow> int64 \<Rightarrow> int32 \<Rightarrow> Metrics \<Rightarrow> payload" where
  "report_payload cfg sq act m =
     \<lparr>pl_session_id = fg_SessionID cfg, pl_team_name = fg_TeamName cfg, pl_fleet_id = fg_FleetID cfg,
      pl_order_id = mt_OrderID m, pl_archetype = archetype_string (mt_Archetype m), pl_app_rtt_ns = mt_AppRTTNS m,
      pl_correct = mt_Correct m, pl_fill_price = mt_FillPrice m, pl_fill_qty = mt_FillQty m,
      pl_emitted_ns = mt_EmittedNS m, pl_replay_seq = sq, pl_active_bots = act\<rparr>"

definition message_pair :: "FleetConfig \<Rightarrow> int64 \<Rightarrow> int32 \<Rightarrow> Metrics \<Rightarrow> kafka_message list" where
  "message_pair cfg sq act m =
     (let pl = report_payload cfg sq act m in
      [\<lparr>km_Topic = fg_MetricsTopic cfg, km_Key = fg_SessionID cfg, km_Value = pl\<rparr>,
       \<lparr>km_Topic = fg_ReplayTopic cfg, km_Key = itoa sq, km_Value = pl\<rparr>])"

text \<open>\<open>pb_calls\<close>: the \<open>WriteMessages\<close> calls so far, each with its outcome.\<close>

record Publisher =
  pb_fleet :: Fleet
  pb_batch :: "kafka_message list"
  pb_calls :: "(kafka_message list \<times> bool) list"

definition pub_cap :: nat where "pub_cap = 256"

definition pub_flush :: "(nat \<Rightarrow> bool) \<Rightarrow> Publisher \<Rightarrow> Publisher" where
  "pub_flush kafka p =
     (if length (pb_batch p) = 0 then p
      else p\<lparr>pb_calls := pb_calls p @ [(pb_batch p, kafka (length (pb_calls p)))], pb_batch := []\<rparr>)"

text \<open>One report: both counters grow before the payload is marshalled, which fails for a price
  that is not finite.\<close>

definition pub_recv :: "(nat \<Rightarrow> bool) \<Rightarrow> Metrics \<Rightarrow> Publisher \<Rightarrow> Publisher" where
  "pub_recv kafka m p =
     (let f = pb_fleet p; sq = wrap64 (fl_replaySeq f + 1);
          p1 = p\<lparr>pb_fleet := f\<lparr>fl_ordersSent := wrap64 (fl_ordersSent f + 1), fl_replaySeq := sq\<rparr>\<rparr>
      in if \<not> is_fin (mt_FillPrice m) then p1
         else
           let p2 = p1\<lparr>pb_batch := pb_batch p1 @ message_pair (fl_cfg f) sq (fl_activeCount f) m\<rparr>
           in if pub_cap \<le> length (pb_batch p2) then pub_flush kafka p2 else p2)"

datatype pub_input = Recv Metrics | PubTick | BotDone | ChanClosed

fun publishMetrics :: "(nat \<Rightarrow> bool) \<Rightarrow> pub_input list \<Rightarrow> Publisher \<Rightarrow> Publisher" where
  "publishMetrics kafka [] p = p"
| "publishMetrics kafka (ChanClosed # es) p = pub_flush kafka p"
| "publishMetrics kafka (PubTick # es) p = publishMetrics kafka es (pub_flush kafka p)"
| "publishMetrics kafka (BotDone # es) p = publishMetrics kafka es (p\<lparr>pb_fleet := bot_done (pb_fleet p)\<rparr>)"
| "publishMetrics kafka (Recv m # es) p = publishMetrics kafka es (pub_recv kafka m p)"

definition NewPublisher :: "Fleet \<Rightarrow> Publisher" where
  "NewPublisher f = \<lparr>pb_fleet = f, pb_batch = [], pb_calls = []\<rparr>"

text \<open>\<open>Run\<close>: the bots are started, their reports are published, and the channel is closed when
  the last one has ended.\<close>

definition run_fleet :: "(nat \<Rightarrow> bool) \<Rightarrow> pub_input list \<Rightarrow> Fleet \<Rightarrow> (Archetype \<times> BotConfig) list \<times> Publisher" where
  "run_fleet kafka es f =
     (case spawnBots f of (bots, f') \<Rightarrow> (bots, publishMetrics kafka (es @ [ChanClosed]) (NewPublisher f')))"

text \<open>The consumer's view of a payload: the fields it has tags for.\<close>

definition metric_of_payload :: "payload \<Rightarrow> RawMetric" where
  "metric_of_payload pl =
     \<lparr>rm_SessionID = pl_session_id pl, rm_TeamName = pl_team_name pl, rm_SandboxID = [], rm_OrderID = pl_order_id pl,
      rm_Archetype = pl_archetype pl, rm_AppRTTNS = pl_app_rtt_ns pl, rm_KernelRTTNS = 0, rm_Correct = pl_correct pl,
      rm_FillPrice = pl_fill_price pl, rm_FillQty = pl_fill_qty pl, rm_EmittedNS = pl_emitted_ns pl,
      rm_ReplaySeq = pl_replay_seq pl, rm_ActiveBots = pl_active_bots pl\<rparr>"

section \<open>Which bots are started\<close>

lemma spawn_fold:
  "foldl (\<lambda>s a. spawn_one bc a s) (bs, f) as =
     (bs @ map (\<lambda>a. (a, bc)) as, f\<lparr>fl_activeCount := (if as = [] then fl_activeCount f
        else wrap32 (fl_activeCount f + int (length as)))\<rparr>)"
proof (induction as arbitrary: bs f)
  case (Cons a as)
  have "spawn_one bc a (bs, f) = (bs @ [(a, bc)], f\<lparr>fl_activeCount := wrap32 (fl_activeCount f + 1)\<rparr>)"
    by (simp add: spawn_one_def)
  with Cons show ?case by (auto simp: algebra_simps)
qed simp

lemma spawnBots_bots: "fst (spawnBots f) = map (\<lambda>a. (a, botCfg (fl_cfg f))) (roster (fg_Mix (fl_cfg f)))"
  by (simp add: spawnBots_def spawn_fold)

lemma spawnBots_fleet:
  "snd (spawnBots f) = f\<lparr>fl_activeCount := (if roster (fg_Mix (fl_cfg f)) = [] then fl_activeCount f
     else wrap32 (fl_activeCount f + int (length (roster (fg_Mix (fl_cfg f))))))\<rparr>"
  by (simp add: spawnBots_def spawn_fold)

section \<open>What is published\<close>

text \<open>The two messages of every report received before the channel is closed, numbered from
  \<open>sq + 1\<close>, with the number of bots still active.\<close>

fun numbered :: "FleetConfig \<Rightarrow> int64 \<Rightarrow> int32 \<Rightarrow> pub_input list \<Rightarrow> kafka_message list" where
  "numbered cfg sq act [] = []"
| "numbered cfg sq act (ChanClosed # es) = []"
| "numbered cfg sq act (PubTick # es) = numbered cfg sq act es"
| "numbered cfg sq act (BotDone # es) = numbered cfg sq (wrap32 (act - 1)) es"
| "numbered cfg sq act (Recv m # es) = message_pair cfg (sq + 1) act m @ numbered cfg (sq + 1) act es"

fun reports_in :: "pub_input list \<Rightarrow> Metrics list" where
  "reports_in [] = []"
| "reports_in (Recv m # es) = m # reports_in es"
| "reports_in (ChanClosed # es) = []"
| "reports_in (PubTick # es) = reports_in es"
| "reports_in (BotDone # es) = reports_in es"

definition attempted :: "Publisher \<Rightarrow> kafka_message list" where
  "attempted p = concat (map fst (pb_calls p)) @ pb_batch p"

definition pub_ok :: "Publisher \<Rightarrow> bool" where
  "pub_ok p \<longleftrightarrow> even (length (pb_batch p)) \<and> length (pb_batch p) < pub_cap \<and>
     (\<forall>c \<in> set (pb_calls p). 0 < length (fst c) \<and> length (fst c) \<le> pub_cap)"

lemma pub_flush_keeps [simp]:
  "attempted (pub_flush kafka p) = attempted p" "pb_fleet (pub_flush kafka p) = pb_fleet p"
  "pb_batch (pub_flush kafka p) = []"
  by (auto simp: pub_flush_def attempted_def)

lemma pub_flush_ok: "pub_ok p \<Longrightarrow> pub_ok (pub_flush kafka p)"
  by (auto simp: pub_ok_def pub_flush_def pub_cap_def)

lemma pub_recv_frame:
  "fl_cfg (pb_fleet (pub_recv kafka m p)) = fl_cfg (pb_fleet p)"
  "fl_activeCount (pb_fleet (pub_recv kafka m p)) = fl_activeCount (pb_fleet p)"
  "fl_replaySeq (pb_fleet (pub_recv kafka m p)) = wrap64 (fl_replaySeq (pb_fleet p) + 1)"
  "fl_ordersSent (pb_fleet (pub_recv kafka m p)) = wrap64 (fl_ordersSent (pb_fleet p) + 1)"
  by (simp_all add: pub_recv_def Let_def)

lemma pub_recv_attempted:
  "is_fin (mt_FillPrice m) \<Longrightarrow> attempted (pub_recv kafka m p) =
     attempted p @ message_pair (fl_cfg (pb_fleet p)) (wrap64 (fl_replaySeq (pb_fleet p) + 1)) (fl_activeCount (pb_fleet p)) m"
  by (simp add: pub_recv_def Let_def) (simp add: attempted_def)

lemma pub_recv_ok: "pub_ok p \<Longrightarrow> pub_ok (pub_recv kafka m p)"
  by (auto simp: pub_recv_def Let_def pub_ok_def pub_flush_def message_pair_def pub_cap_def)

lemma publish_run:
  assumes "pub_ok p" "0 \<le> fl_replaySeq (pb_fleet p)" "fl_ordersSent (pb_fleet p) = fl_replaySeq (pb_fleet p)"
    and "fl_replaySeq (pb_fleet p) + int (length es) < 2 ^ 62" and "\<forall>m \<in> set (reports_in es). is_fin (mt_FillPrice m)"
  shows "pub_ok (publishMetrics kafka es p) \<and>
    attempted (publishMetrics kafka es p) = attempted p @
      numbered (fl_cfg (pb_fleet p)) (fl_replaySeq (pb_fleet p)) (fl_activeCount (pb_fleet p)) es \<and>
    fl_ordersSent (pb_fleet (publishMetrics kafka es p)) =
      fl_replaySeq (pb_fleet p) + int (length (reports_in es)) \<and>
    (ChanClosed \<in> set es \<longrightarrow> pb_batch (publishMetrics kafka es p) = [])"
  using assms
proof (induction es arbitrary: p)
  case (Cons e es)
  show ?case
  proof (cases e)
    case (Recv m)
    let ?p = "pub_recv kafka m p"
    have w: "wrap64 (fl_replaySeq (pb_fleet p) + 1) = fl_replaySeq (pb_fleet p) + 1"
      by (rule wrap64_id) (use Cons.prems in \<open>auto simp: in64_def\<close>)
    note f = pub_recv_frame [of kafka m p, unfolded Cons.prems(3) w]
    have fin: "is_fin (mt_FillPrice m)" using Cons.prems(5) Recv by simp
    from pub_recv_attempted [OF fin, of kafka p]
    have a: "attempted ?p = attempted p @ message_pair (fl_cfg (pb_fleet p)) (fl_replaySeq (pb_fleet p) + 1)
        (fl_activeCount (pb_fleet p)) m" unfolding w .
    have "pub_ok (publishMetrics kafka es ?p) \<and>
      attempted (publishMetrics kafka es ?p) = attempted ?p @
        numbered (fl_cfg (pb_fleet ?p)) (fl_replaySeq (pb_fleet ?p)) (fl_activeCount (pb_fleet ?p)) es \<and>
      fl_ordersSent (pb_fleet (publishMetrics kafka es ?p)) =
        fl_replaySeq (pb_fleet ?p) + int (length (reports_in es)) \<and>
      (ChanClosed \<in> set es \<longrightarrow> pb_batch (publishMetrics kafka es ?p) = [])"
      using Cons.prems Recv pub_recv_ok [OF Cons.prems(1)] by (intro Cons.IH) (simp_all add: f)
    then show ?thesis by (simp add: Recv f a)
  next
    case PubTick
    with Cons.prems Cons.IH [of "pub_flush kafka p"] pub_flush_ok show ?thesis by simp
  next
    case BotDone
    have "attempted (p\<lparr>pb_fleet := bot_done (pb_fleet p)\<rparr>) = attempted p"
      "pub_ok (p\<lparr>pb_fleet := bot_done (pb_fleet p)\<rparr>) = pub_ok p"
      by (simp_all add: attempted_def pub_ok_def)
    with BotDone Cons.prems Cons.IH [of "p\<lparr>pb_fleet := bot_done (pb_fleet p)\<rparr>"] show ?thesis
      by (simp add: bot_done_def)
  next
    case ChanClosed
    with Cons.prems pub_flush_ok show ?thesis by simp
  qed
qed simp

definition on_topic :: "string \<Rightarrow> kafka_message list \<Rightarrow> payload list" where
  "on_topic t ks = map km_Value (filter (\<lambda>k. km_Topic k = t) ks)"

lemma on_topic_simps [simp]:
  "on_topic t [] = []" "on_topic t (ks @ ks') = on_topic t ks @ on_topic t ks'"
  by (simp_all add: on_topic_def)

lemma on_topic_pair:
  assumes "fg_MetricsTopic cfg \<noteq> fg_ReplayTopic cfg"
  shows "on_topic (fg_MetricsTopic cfg) (message_pair cfg sq act m) = [report_payload cfg sq act m]"
    "on_topic (fg_ReplayTopic cfg) (message_pair cfg sq act m) = [report_payload cfg sq act m]"
  using assms by (simp_all add: on_topic_def message_pair_def Let_def)

lemma numbered_topics:
  assumes "fg_MetricsTopic cfg \<noteq> fg_ReplayTopic cfg"
  shows "on_topic (fg_ReplayTopic cfg) (numbered cfg sq act es) = on_topic (fg_MetricsTopic cfg) (numbered cfg sq act es) \<and>
    map pl_order_id (on_topic (fg_MetricsTopic cfg) (numbered cfg sq act es)) = map mt_OrderID (reports_in es) \<and>
    map pl_replay_seq (on_topic (fg_MetricsTopic cfg) (numbered cfg sq act es)) =
      map (\<lambda>i. sq + 1 + int i) [0..<length (reports_in es)]"
proof (induction es arbitrary: sq act)
  case (Cons e es)
  have up: "map (\<lambda>i. sq + (1 + int i)) [0..<Suc n] = (sq + 1) # map (\<lambda>i. sq + (2 + int i)) [0..<n]" for n
    by (simp add: upt_conv_Cons map_Suc_upt [symmetric] del: upt_Suc)
  from Cons show ?case
    by (cases e) (simp_all add: on_topic_pair [OF assms] report_payload_def up add.assoc del: upt_Suc)
qed simp

lemma roster_length:
  assumes "mx_MarketMakers m \<ge> 0" "mx_MomentumTraders m \<ge> 0" "mx_NoiseTraders m \<ge> 0"
    "mx_InstitutionalSlicers m \<ge> 0" "mx_LatencyArbs m \<ge> 0" "mx_FIXNoise m \<ge> 0"
  shows "int (length (roster m)) = mx_MarketMakers m + mx_MomentumTraders m + mx_NoiseTraders m +
    mx_InstitutionalSlicers m + mx_LatencyArbs m + mx_FIXNoise m"
  using assms by (simp add: roster_def)

text \<open>A mix without negative counts whose total is a machine number.\<close>

definition mix_ok :: "ArchetypeMix \<Rightarrow> bool" where
  "mix_ok m \<longleftrightarrow> 0 \<le> mx_MarketMakers m \<and> 0 \<le> mx_MomentumTraders m \<and> 0 \<le> mx_NoiseTraders m \<and>
     0 \<le> mx_InstitutionalSlicers m \<and> 0 \<le> mx_LatencyArbs m \<and> 0 \<le> mx_FIXNoise m \<and>
     in32 (mx_MarketMakers m + mx_MomentumTraders m + mx_NoiseTraders m + mx_InstitutionalSlicers m +
       mx_LatencyArbs m + mx_FIXNoise m)"

lemma totalBots_roster: "mix_ok (fg_Mix cfg) \<Longrightarrow> totalBots cfg = int (length (roster (fg_Mix cfg)))"
  by (simp add: totalBots_def Let_def roster_length mix_ok_def wrap64_id in32_in64)

lemma perBotTPS_pos:
  "0 \<le> fg_TargetTPS cfg \<Longrightarrow> 1 \<le> totalBots cfg \<Longrightarrow> perBotTPS cfg = fg_TargetTPS cfg div totalBots cfg"
  by (simp add: perBotTPS_def max_int_def)

definition test_fleet_cfg :: FleetConfig where
  "test_fleet_cfg = \<lparr>fg_FleetID = ''fleet-1'', fg_SessionID = ''s1'', fg_TeamName = ''t'', fg_Symbol = ''AAPL'', fg_EndpointURL = ''u'',
     fg_FIXEndpoint = [], fg_Mix = \<lparr>mx_MarketMakers = 1, mx_MomentumTraders = 0, mx_NoiseTraders = 2, mx_InstitutionalSlicers = 0,
     mx_LatencyArbs = 1, mx_FIXNoise = 0\<rparr>, fg_TargetTPS = 3, fg_DurationSec = 60, fg_KafkaBroker = ''k'', fg_MetricsTopic = ''raw'',
     fg_ReplayTopic = ''replay''\<rparr>"

definition test_report :: "string \<Rightarrow> Metrics" where
  "test_report i = \<lparr>mt_OrderID = i, mt_Archetype = NoiseTrader, mt_AppRTTNS = 5, mt_Correct = True, mt_FillPrice = Num False 100,
     mt_FillQty = 1, mt_EmittedNS = 7\<rparr>"

lemma fleet_sent:
  assumes "ChanClosed \<notin> set es" "length es < 2 ^ 60" "\<forall>m \<in> set (reports_in es). is_fin (mt_FillPrice m)"
  shows "pub_ok (snd (run_fleet kafka es (NewFleet cfg)))" "pb_batch (snd (run_fleet kafka es (NewFleet cfg))) = []"
    "\<exists>act. concat (map fst (pb_calls (snd (run_fleet kafka es (NewFleet cfg))))) = numbered cfg 0 act es"
    "fl_ordersSent (pb_fleet (snd (run_fleet kafka es (NewFleet cfg)))) = int (length (reports_in es))"
proof -
  let ?es = "es @ [ChanClosed]" and ?f = "snd (spawnBots (NewFleet cfg))"
  let ?p = "snd (run_fleet kafka es (NewFleet cfg))"
  have p: "?p = publishMetrics kafka ?es (NewPublisher ?f)"
    by (simp add: run_fleet_def split: prod.split)
  have r: "reports_in ?es = reports_in es" and n: "numbered cfg sq act ?es = numbered cfg sq act es" for sq act
    using assms(1) by (induction es arbitrary: sq act rule: reports_in.induct) auto
  have len: "int (length ?es) < 2 ^ 62"
  proof -
    have "int (length es) < 2 ^ 60" using assms(2) by (metis of_nat_less_iff of_nat_numeral of_nat_power)
    then show ?thesis by simp
  qed
  have f: "fl_replaySeq ?f = 0" "fl_ordersSent ?f = 0" "fl_cfg ?f = cfg"
    by (simp_all add: spawnBots_fleet NewFleet_def)
  have ok: "pub_ok (NewPublisher ?f)" by (simp add: pub_ok_def NewPublisher_def pub_cap_def)
  have q: "pb_fleet (NewPublisher ?f) = ?f" "attempted (NewPublisher ?f) = []"
    by (simp_all add: NewPublisher_def attempted_def)
  have run: "pub_ok ?p" "attempted ?p = numbered cfg 0 (fl_activeCount ?f) es"
    "fl_ordersSent (pb_fleet ?p) = int (length (reports_in es))" "pb_batch ?p = []"
    using publish_run [OF ok, of ?es kafka] len assms(3) unfolding p q f r n by simp_all
  then show "pub_ok ?p" "pb_batch ?p = []" "\<exists>act. concat (map fst (pb_calls ?p)) = numbered cfg 0 act es"
    "fl_ordersSent (pb_fleet ?p) = int (length (reports_in es))"
    by (auto simp: attempted_def)
qed

text \<open>The payload of every report, in order.\<close>

lemma numbered_payloads:
  assumes "fg_MetricsTopic cfg \<noteq> fg_ReplayTopic cfg"
  shows "list_all2 (\<lambda>m pl. \<exists>sq act. pl = report_payload cfg sq act m) (reports_in es)
    (on_topic (fg_MetricsTopic cfg) (numbered cfg sq act es))"
proof (induction es arbitrary: sq act)
  case (Cons e es)
  then show ?case by (cases e) (auto simp: on_topic_pair [OF assms])
qed simp

section \<open>Properties\<close>

text \<open>
  C12. A run publishes every report once to either topic: whatever the interleaving of reports,
  flush timer and ending bots, when the channel is closed nothing is left in the batch, and the
  messages handed to Kafka are, on the metrics topic and again on the replay topic, one for each
  report in the order received, numbered 1, 2, 3 and so on. No call hands over none or more
  than 256, and \<open>OrdersSent\<close> is the number of reports.
\<close>

theorem fleet_publishes_every_report:
  fixes kafka es cfg
  defines "p \<equiv> snd (run_fleet kafka es (NewFleet cfg))"
  defines "sent \<equiv> concat (map fst (pb_calls p))"
  assumes "ChanClosed \<notin> set es" and "length es < 2 ^ 60" and "\<forall>m \<in> set (reports_in es). is_fin (mt_FillPrice m)"
    and "fg_MetricsTopic cfg \<noteq> fg_ReplayTopic cfg"
  shows "pb_batch p = [] \<and> (\<forall>c \<in> set (pb_calls p). 0 < length (fst c) \<and> length (fst c) \<le> 256) \<and>
    on_topic (fg_ReplayTopic cfg) sent = on_topic (fg_MetricsTopic cfg) sent \<and>
    map pl_order_id (on_topic (fg_MetricsTopic cfg) sent) = map mt_OrderID (reports_in es) \<and>
    map pl_replay_seq (on_topic (fg_MetricsTopic cfg) sent) = map (\<lambda>i. 1 + int i) [0..<length (reports_in es)] \<and>
    fl_ordersSent (pb_fleet p) = int (length (reports_in es))"
proof -
  note f = fleet_sent [OF assms(3-5), of kafka cfg, folded p_def, folded sent_def]
  then obtain act where "sent = numbered cfg 0 act es" by blast
  with numbered_topics [OF assms(6), of 0 act es] f show ?thesis by (simp add: pub_ok_def pub_cap_def)
qed

theorem fleet_publishes_every_report_witness:
  "map pl_replay_seq (on_topic ''raw'' (concat (map fst (pb_calls (snd (run_fleet (\<lambda>_. True)
     [Recv (test_report ''o1''), BotDone, PubTick, Recv (test_report ''o2'')] (NewFleet test_fleet_cfg))))))) = [1, 2]"
  using fleet_publishes_every_report [where kafka = "\<lambda>_. True" and cfg = test_fleet_cfg
      and es = "[Recv (test_report ''o1''), BotDone, PubTick, Recv (test_report ''o2'')]"]
  by (simp add: test_report_def test_fleet_cfg_def upt_rec)

text \<open>
  What a fleet starts: as many bots as the mix says, the active count being their number,
  all with the same target rate, whose sum does not exceed the fleet's target. But when the
  target is below the number of bots the rate of each is zero, which \<open>rateToInterval\<close> takes as
  one order per second, so the rates then add up to more than the target.
\<close>

theorem fleet_rate_and_count:
  assumes "mix_ok (fg_Mix cfg)" and "0 \<le> fg_TargetTPS cfg" and "1 \<le> totalBots cfg"
    and "spawnBots (NewFleet cfg) = (bots, f)"
  shows "fl_activeCount f = int (length bots) \<and> int (length bots) = totalBots cfg \<and>
    map fst bots = roster (fg_Mix cfg) \<and> (\<Sum>b\<leftarrow>bots. bc_TargetTPS (snd b)) \<le> fg_TargetTPS cfg \<and>
    (fg_TargetTPS cfg < totalBots cfg \<longrightarrow> (\<forall>(a, bc) \<in> set bots. a \<notin> {InstitutionalSlicer, LatencyArb} \<longrightarrow>
      bot_interval a bc = Some 1000000000))"
proof -
  let ?n = "length (roster (fg_Mix cfg))" and ?r = "perBotTPS cfg"
  have b: "bots = map (\<lambda>a. (a, botCfg cfg)) (roster (fg_Mix cfg))"
    using spawnBots_bots [of "NewFleet cfg"] assms(4) by (simp add: NewFleet_def)
  have t: "totalBots cfg = int ?n" by (rule totalBots_roster [OF assms(1)])
  have "in32 (int ?n)" using assms(1) roster_length [of "fg_Mix cfg"] by (simp add: mix_ok_def)
  then have act: "fl_activeCount f = int (length bots)"
    using spawnBots_fleet [of "NewFleet cfg"] assms(4) b by (auto simp: NewFleet_def wrap32_id)
  have r: "?r = fg_TargetTPS cfg div int ?n"
    using perBotTPS_pos [OF assms(2,3)] t by simp
  have "(\<Sum>b\<leftarrow>bots. bc_TargetTPS (snd b)) = int ?n * ?r"
    by (simp add: b botCfg_def comp_def sum_list_triv)
  also have "\<dots> \<le> fg_TargetTPS cfg"
    unfolding r mult.commute [of "int ?n"] minus_mod_eq_div_mult [symmetric]
    using pos_mod_sign [of "int ?n" "fg_TargetTPS cfg"] assms(3) t by linarith
  finally have "(\<Sum>b\<leftarrow>bots. bc_TargetTPS (snd b)) \<le> fg_TargetTPS cfg" .
  moreover have "?r = 0" if "fg_TargetTPS cfg < totalBots cfg"
    using that assms(2) t unfolding r by simp
  ultimately show ?thesis
    using act b t by (auto simp: comp_def bot_interval_def botCfg_def rateToInterval_def)
qed

theorem fleet_rate_and_count_witness:
  "fst (spawnBots (NewFleet test_fleet_cfg)) \<noteq> [] \<and>
   fl_activeCount (snd (spawnBots (NewFleet test_fleet_cfg))) = 4 \<and>
   bot_interval MarketMaker (snd (hd (fst (spawnBots (NewFleet test_fleet_cfg))))) = Some 1000000000"
proof -
  have t: "totalBots test_fleet_cfg = 4" "mix_ok (fg_Mix test_fleet_cfg)" "fg_TargetTPS test_fleet_cfg = 3"
    by (simp_all add: test_fleet_cfg_def totalBots_def mix_ok_def in32_def wrap64_id in64_def)
  have h: "spawnBots (NewFleet test_fleet_cfg) = (fst (spawnBots (NewFleet test_fleet_cfg)), snd (spawnBots (NewFleet test_fleet_cfg)))"
    by simp
  note r = fleet_rate_and_count [OF t(2) _ _ h]
  have m: "hd (fst (spawnBots (NewFleet test_fleet_cfg))) = (MarketMaker, botCfg test_fleet_cfg)"
    "hd (fst (spawnBots (NewFleet test_fleet_cfg))) \<in> set (fst (spawnBots (NewFleet test_fleet_cfg)))"
    by (simp_all add: spawnBots_bots roster_def NewFleet_def test_fleet_cfg_def)
  with r t show ?thesis by (auto simp: m(1))
qed

end
