(* ===== verification/FleetServer.thy ===== *)
theory FleetServer
  imports Fleet
begin

text \<open>
  \<open>botfleet/internal/grpcserver/server.go\<close> and the spawn handler of
  \<open>botfleet/cmd/main.go\<close>: the fleets that run, kept by id. The goroutine that runs a fleet and
  removes it from the map at its end is part of the state as the multiset \<open>sv_live\<close> of the
  ids it runs under; \<open>sv_cancelled\<close> are the runs whose context was cancelled.
\<close>

section \<open>Requests\<close>

record SpawnFleetRequest =
  sr_SessionID :: string
  sr_TeamName :: string
  sr_EndpointURL :: string
  sr_FIXEndpoint :: string
  sr_Symbol :: string
  sr_BotCount :: int32
  sr_TargetTPS :: int32
  sr_DurationSec :: int64
  sr_Mix :: ArchetypeMix

definition zero_mix :: ArchetypeMix where
  "zero_mix = \<lparr>mx_MarketMakers = 0, mx_MomentumTraders = 0, mx_NoiseTraders = 0, mx_InstitutionalSlicers = 0,
     mx_LatencyArbs = 0, mx_FIXNoise = 0\<rparr>"

definition default_mix :: "int64 \<Rightarrow> ArchetypeMix" where
  "default_mix bots =
     \<lparr>mx_MarketMakers = go_div (wrap64 (bots * 30)) 100, mx_MomentumTraders = go_div (wrap64 (bots * 25)) 100,
      mx_NoiseTraders = go_div (wrap64 (bots * 30)) 100, mx_InstitutionalSlicers = go_div (wrap64 (bots * 10)) 100,
      mx_LatencyArbs = 0, mx_FIXNoise = go_div (wrap64 (bots * 5)) 100\<rparr>"

definition fleet_cfg :: "FleetConfig \<Rightarrow> string \<Rightarrow> SpawnFleetRequest \<Rightarrow> FleetConfig" where
  "fleet_cfg base fid req =
     (let cfg = base\<lparr>fg_FleetID := fid, fg_SessionID := sr_SessionID req, fg_TeamName := sr_TeamName req,
            fg_Symbol := sr_Symbol req, fg_EndpointURL := sr_EndpointURL req, fg_FIXEndpoint := sr_FIXEndpoint req,
            fg_TargetTPS := sr_TargetTPS req, fg_DurationSec := sr_DurationSec req, fg_Mix := sr_Mix req\<rparr>
      in if fg_Mix cfg = zero_mix
         then let bots = (if sr_BotCount req \<le> 0 then 1000 else sr_BotCount req) in cfg\<lparr>fg_Mix := default_mix bots\<rparr>
         else cfg)"

section \<open>The server\<close>

record FleetServer =
  sv_baseCfg :: FleetConfig
  sv_fleets :: "string \<rightharpoonup> Fleet"
  sv_live :: "string multiset"
  sv_cancelled :: "string multiset"

datatype status_error = NotFound string

record FleetStat =
  fs_FleetID :: string
  fs_SessionID :: string
  fs_ActiveBots :: int32
  fs_OrdersSent :: int64

definition NewServer :: "FleetConfig \<Rightarrow> FleetServer" where
  "NewServer base = \<lparr>sv_baseCfg = base, sv_fleets = Map.empty, sv_live = {#}, sv_cancelled = {#}\<rparr>"

definition fleet_id :: "string \<Rightarrow> string" where
  "fleet_id uuid = ''fleet-'' @ take 8 uuid"

definition SpawnFleet :: "string \<Rightarrow> SpawnFleetRequest \<Rightarrow> FleetServer \<Rightarrow> string \<times> FleetServer" where
  "SpawnFleet uuid req s =
     (let fid = fleet_id uuid in
      (fid, s\<lparr>sv_fleets := (sv_fleets s)(fid \<mapsto> NewFleet (fleet_cfg (sv_baseCfg s) fid req)),
              sv_live := add_mset fid (sv_live s)\<rparr>))"

text \<open>The end of the goroutine: \<open>Run\<close> has returned and the entry is deleted.\<close>

definition fleet_finished :: "string \<Rightarrow> FleetServer \<Rightarrow> FleetServer" where
  "fleet_finished fid s =
     s\<lparr>sv_fleets := (sv_fleets s)(fid := None), sv_live := sv_live s - {#fid#},
       sv_cancelled := sv_cancelled s - {#fid#}\<rparr>"

definition StopFleet :: "string \<Rightarrow> FleetServer \<Rightarrow> status_error option \<times> FleetServer" where
  "StopFleet fid s =
     (case sv_fleets s fid of
        None \<Rightarrow> (Some (NotFound fid), s)
      | Some f \<Rightarrow> (None, s\<lparr>sv_fleets := (sv_fleets s)(fid := None), sv_cancelled := add_mset fid (sv_cancelled s)\<rparr>))"

definition FleetStatus :: "string \<Rightarrow> FleetServer \<Rightarrow> (status_error, int32 \<times> int64) result" where
  "FleetStatus fid s =
     (case sv_fleets s fid of
        None \<Rightarrow> Inl (NotFound fid)
      | Some f \<Rightarrow> Inr (fl_activeCount f, fl_ordersSent f))"

text \<open>\<open>ord\<close> is the order in which the map is iterated.\<close>

definition AllFleets :: "string list \<Rightarrow> FleetServer \<Rightarrow> FleetStat list" where
  "AllFleets ord s =
     List.map_filter (\<lambda>fid. map_option (\<lambda>f. \<lparr>fs_FleetID = fid, fs_SessionID = fg_SessionID (fl_cfg f),
       fs_ActiveBots = fl_activeCount f, fs_OrdersSent = fl_ordersSent f\<rparr>) (sv_fleets s fid)) ord"

section \<open>The spawn endpoint\<close>

record spawn_body =
  sb_session_id :: string
  sb_team_name :: string
  sb_endpoint_url :: string
  sb_fix_endpoint :: string
  sb_symbol :: string
  sb_bot_count :: int32
  sb_target_tps :: int32
  sb_duration_secs :: int64

definition spawn_defaults :: "spawn_body \<Rightarrow> spawn_body" where
  "spawn_defaults b0 =
     (let b1 = (if sb_symbol b0 = [] then b0\<lparr>sb_symbol := ''AAPL''\<rparr> else b0);
          b2 = (if sb_bot_count b1 = 0 then b1\<lparr>sb_bot_count := 200\<rparr> else b1);
          b3 = (if sb_target_tps b2 = 0 then b2\<lparr>sb_target_tps := 1000\<rparr> else b2)
      in if sb_duration_secs b3 = 0 then b3\<lparr>sb_duration_secs := 60\<rparr> else b3)"

definition spawn_request :: "spawn_body \<Rightarrow> SpawnFleetRequest" where
  "spawn_request b =
     \<lparr>sr_SessionID = sb_session_id b, sr_TeamName = sb_team_name b, sr_EndpointURL = sb_endpoint_url b,
      sr_FIXEndpoint = sb_fix_endpoint b, sr_Symbol = sb_symbol b, sr_BotCount = sb_bot_count b,
      sr_TargetTPS = sb_target_tps b, sr_DurationSec = sb_duration_secs b, sr_Mix = zero_mix\<rparr>"

datatype spawn_response = SpawnBadRequest | Spawned string

definition handle_spawn :: "string \<Rightarrow> spawn_body option \<Rightarrow> FleetServer \<Rightarrow> spawn_response \<times> FleetServer" where
  "handle_spawn uuid body s =
     (case body of None \<Rightarrow> (SpawnBadRequest, s)
      | Some b \<Rightarrow> (case SpawnFleet uuid (spawn_request (spawn_defaults b)) s of (fid, s') \<Rightarrow> (Spawned fid, s')))"

section \<open>Steps\<close>

text \<open>The calls of the server, the progress of a running fleet's counters, and its end. A
  spawn draws an id that no running fleet has.\<close>

inductive server_step :: "FleetServer \<Rightarrow> FleetServer \<Rightarrow> bool" where
  spawn: "fleet_id uuid \<notin># sv_live s \<Longrightarrow> server_step s (snd (SpawnFleet uuid req s))"
| stop: "server_step s (snd (StopFleet fid s))"
| progress: "sv_fleets s fid = Some f \<Longrightarrow> fl_cfg f' = fl_cfg f \<Longrightarrow>
    server_step s (s\<lparr>sv_fleets := (sv_fleets s)(fid \<mapsto> f')\<rparr>)"
| finished: "fid \<in># sv_live s \<Longrightarrow> server_step s (fleet_finished fid s)"

inductive server_reach :: "FleetConfig \<Rightarrow> FleetServer \<Rightarrow> bool" for base where
  init: "server_reach base (NewServer base)"
| step: "server_reach base s \<Longrightarrow> server_step s s' \<Longrightarrow> server_reach base s'"

text \<open>A running fleet is listed or cancelled, and never twice under one id.\<close>

definition server_inv :: "FleetServer \<Rightarrow> bool" where
  "server_inv s \<longleftrightarrow>
     (\<forall>fid. count (sv_live s) fid \<le> 1) \<and> (\<forall>fid. count (sv_cancelled s) fid \<le> 1) \<and>
     (\<forall>fid. fid \<in># sv_live s \<longleftrightarrow> fid \<in> dom (sv_fleets s) \<or> fid \<in># sv_cancelled s) \<and>
     (\<forall>fid \<in> dom (sv_fleets s). fid \<notin># sv_cancelled s) \<and>
     (\<forall>fid f. sv_fleets s fid = Some f \<longrightarrow> fg_FleetID (fl_cfg f) = fid)"

lemma fleet_cfg_id [simp]: "fg_FleetID (fleet_cfg base fid req) = fid"
  by (simp add: fleet_cfg_def Let_def)

lemma server_inv_spawn:
  assumes inv: "server_inv s" and fresh: "fleet_id uuid \<notin># sv_live s"
  shows "server_inv (snd (SpawnFleet uuid req s))"
proof -
  from inv fresh have "count (sv_live s) (fleet_id uuid) = 0" "fleet_id uuid \<notin># sv_cancelled s"
    by (auto simp: server_inv_def count_eq_zero_iff)
  with inv show ?thesis by (auto simp: server_inv_def SpawnFleet_def Let_def NewFleet_def)
qed

lemma server_inv_stop: "server_inv s \<Longrightarrow> server_inv (snd (StopFleet fid s))"
  by (auto simp: server_inv_def StopFleet_def count_eq_zero_iff dom_def split: option.split)

lemma count_le1_remove: "count M x \<le> 1 \<Longrightarrow> y \<in># M - {#x#} \<longleftrightarrow> y \<in># M \<and> y \<noteq> x"
  by (auto simp: in_diff_count count_eq_zero_iff [symmetric])

lemma server_inv_finished:
  assumes inv: "server_inv s"
  shows "server_inv (fleet_finished fid s)"
proof -
  have c: "count (sv_live s) x \<le> 1" "count (sv_cancelled s) x \<le> 1" for x
    using inv by (simp_all add: server_inv_def)
  have "count (M - {#fid#}) x \<le> 1" if "count M x \<le> 1" for M :: "string multiset" and x
    using that by (simp add: le_diff_conv)
  with c have "count (sv_live s - {#fid#}) x \<le> 1" "count (sv_cancelled s - {#fid#}) x \<le> 1" for x
    by blast+
  with inv c show ?thesis by (auto simp: server_inv_def fleet_finished_def count_le1_remove)
qed

lemma server_step_inv: "server_step s s' \<Longrightarrow> server_inv s \<Longrightarrow> server_inv s'"
proof (induction rule: server_step.induct)
  case (progress s fid f f')
  then show ?case by (auto simp: server_inv_def)
qed (simp_all add: server_inv_spawn server_inv_stop server_inv_finished)

lemma server_reach_inv: "server_reach base s \<Longrightarrow> server_inv s"
proof (induction rule: server_reach.induct)
  case init
  show ?case by (simp add: server_inv_def NewServer_def)
next
  case (step s s')
  then show ?case by (blast intro: server_step_inv)
qed

section \<open>The default mix\<close>

lemma default_mix_counts:
  assumes "0 < n" "in32 n"
  shows "mx_MarketMakers (default_mix n) = n * 30 div 100" "mx_MomentumTraders (default_mix n) = n * 25 div 100"
    "mx_NoiseTraders (default_mix n) = n * 30 div 100" "mx_InstitutionalSlicers (default_mix n) = n * 10 div 100"
    "mx_LatencyArbs (default_mix n) = 0" "mx_FIXNoise (default_mix n) = n * 5 div 100"
  using assms by (simp_all add: default_mix_def in32_def in64_def wrap64_id)

lemma percent_bounds:
  shows "100 * (k div 100) \<le> (k :: int)" "k < 100 * (k div 100) + 100"
  using div_mult_mod_eq [of k 100] pos_mod_sign [of 100 k] pos_mod_bound [of 100 k] by linarith+

text \<open>The shares \<open>a\<close>, \<open>b\<close>, \<open>c\<close>, \<open>d\<close> of 30, 25, 10 and 5 percent.\<close>

lemma shares_sum:
  fixes n a b c d :: int
  assumes "100 * a \<le> n * 30" "n * 30 < 100 * a + 100" "100 * b \<le> n * 25" "n * 25 < 100 * b + 100"
    and "100 * c \<le> n * 10" "n * 10 < 100 * c + 100" "100 * d \<le> n * 5" "n * 5 < 100 * d + 100" "0 < n"
  shows "0 \<le> a" "0 \<le> b" "0 \<le> c" "0 \<le> d" "a + b + a + c + d \<le> n" "n - 4 \<le> a + b + a + c + d"
    "4 \<le> n \<Longrightarrow> 3 \<le> a + b + a + c + d" "n \<le> 3 \<Longrightarrow> a + b + a + c + d = 0"
proof -
  show pos: "0 \<le> a" "0 \<le> b" "0 \<le> c" "0 \<le> d" using assms by linarith+
  show "a + b + a + c + d \<le> n" "n - 4 \<le> a + b + a + c + d" using assms by linarith+
  show "3 \<le> a + b + a + c + d" if "4 \<le> n"
  proof -
    have "1 \<le> a" "1 \<le> b" using assms that by linarith+
    with pos show ?thesis by linarith
  qed
  show "a + b + a + c + d = 0" if "n \<le> 3"
  proof -
    have "a \<le> 0" "b \<le> 0" "c \<le> 0" "d \<le> 0" using assms that by linarith+
    with pos show ?thesis by linarith
  qed
qed

lemmas default_mix_sum = shares_sum [OF percent_bounds percent_bounds percent_bounds percent_bounds]

lemma default_mix_ok:
  assumes "0 < n" "in32 n"
  shows "mix_ok (default_mix n)"
proof -
  note k = default_mix_sum [OF assms(1)]
  have "in32 (n * 30 div 100 + n * 25 div 100 + n * 30 div 100 + n * 10 div 100 + n * 5 div 100)"
    unfolding in32_def using k(1-5) assms(2) [unfolded in32_def] by linarith
  with k(1-4) show ?thesis
    unfolding mix_ok_def default_mix_counts [OF assms] by (simp only: add_0_right order.refl simp_thms)
qed

lemma default_mix_roster:
  assumes "0 < n" "in32 n"
  shows "int (length (roster (default_mix n))) =
    n * 30 div 100 + n * 25 div 100 + n * 30 div 100 + n * 10 div 100 + n * 5 div 100"
  using roster_length [of "default_mix n"] default_mix_sum(1-4) [OF assms(1)]
  unfolding default_mix_counts [OF assms] by (simp only: add_0_right order.refl)

lemma default_mix_size:
  assumes "0 < n" "in32 n"
  shows "int (length (roster (default_mix n))) \<le> n \<and> n - 4 \<le> int (length (roster (default_mix n))) \<and>
    (n \<le> 3 \<longrightarrow> roster (default_mix n) = []) \<and> (4 \<le> n \<longrightarrow> 3 \<le> int (length (roster (default_mix n))))"
  using default_mix_sum(5-8) [OF assms(1)] unfolding default_mix_roster [OF assms, symmetric] by force

lemma rateToInterval_small:
  assumes "tps \<le> 1000000000"
  shows "1 \<le> rateToInterval tps \<and> rateToInterval tps \<le> 1000000000"
  using rateToInterval_between [of tps] assms by (cases "0 < tps") (simp_all add: rateToInterval_def)

lemma go_div_bound: "a \<le> b * c \<Longrightarrow> 0 < b \<Longrightarrow> 0 \<le> c \<Longrightarrow> go_div a b \<le> c"
proof -
  assume h: "a \<le> b * c" "0 < b" "0 \<le> c"
  show "go_div a b \<le> c"
  proof (cases "0 \<le> a")
    case True
    have "a div b \<le> b * c div b" using h by (intro zdiv_mono1) auto
    with True h show ?thesis by simp
  next
    case False
    then have "go_div a b = - (\<bar>a\<bar> div b)" using h by (simp add: go_div_def)
    moreover have "0 \<le> \<bar>a\<bar> div b" using h by (simp add: pos_imp_zdiv_nonneg_iff)
    ultimately show ?thesis using h by linarith
  qed
qed

definition test_body :: spawn_body where
  "test_body = \<lparr>sb_session_id = ''s1'', sb_team_name = ''t'', sb_endpoint_url = ''u'', sb_fix_endpoint = [], sb_symbol = [],
     sb_bot_count = 4, sb_target_tps = 2147483647, sb_duration_secs = 0\<rparr>"

section \<open>Properties\<close>

text \<open>
  C39. The server knows its fleets: in every reachable state the fleets it lists are exactly
  those that run and were not stopped, each once, so no fleet runs on without being listed or
  cancelled, and a stopped fleet is not found again.
\<close>

theorem listed_fleets_are_the_running_ones:
  assumes "server_reach base s" and "distinct ord" and "set ord = dom (sv_fleets s)"
  shows "set (map fs_FleetID (AllFleets ord s)) = {fid. fid \<in># sv_live s \<and> fid \<notin># sv_cancelled s} \<and>
    distinct (map fs_FleetID (AllFleets ord s)) \<and>
    FleetStatus fid (snd (StopFleet fid s)) = Inl (NotFound fid)"
proof -
  have inv: "server_inv s" by (rule server_reach_inv [OF assms(1)])
  have "map fs_FleetID (List.map_filter (\<lambda>fid. map_option (\<lambda>f. \<lparr>fs_FleetID = fid, fs_SessionID = fg_SessionID (fl_cfg f),
       fs_ActiveBots = fl_activeCount f, fs_OrdersSent = fl_ordersSent f\<rparr>) (sv_fleets s fid)) xs) = xs"
    if "set xs \<subseteq> dom (sv_fleets s)" for xs
    using that by (induction xs) (auto simp: List.map_filter_def)
  then have ids: "map fs_FleetID (AllFleets ord s) = ord" using assms(3) by (simp add: AllFleets_def)
  have "dom (sv_fleets s) = {fid. fid \<in># sv_live s \<and> fid \<notin># sv_cancelled s}"
    using inv by (auto simp: server_inv_def)
  moreover have "FleetStatus fid (snd (StopFleet fid s)) = Inl (NotFound fid)"
    by (auto simp: FleetStatus_def StopFleet_def split: option.split)
  ultimately show ?thesis using ids assms(2,3) by simp
qed

theorem listed_fleets_are_the_running_ones_witness:
  "let s = snd (SpawnFleet ''0123456789'' (spawn_request test_body) (NewServer test_fleet_cfg))
   in map fs_FleetID (AllFleets [''fleet-01234567''] s) = [''fleet-01234567''] \<and>
      {fid. fid \<in># sv_live s \<and> fid \<notin># sv_cancelled s} = {''fleet-01234567''}"
proof -
  let ?s = "snd (SpawnFleet ''0123456789'' (spawn_request test_body) (NewServer test_fleet_cfg))"
  have "server_reach test_fleet_cfg ?s"
    by (rule server_reach.step [OF server_reach.init server_step.spawn]) (simp add: NewServer_def)
  moreover have "set [''fleet-01234567''] = dom (sv_fleets ?s)"
    by (simp add: SpawnFleet_def NewServer_def fleet_id_def Let_def)
  ultimately have "set (map fs_FleetID (AllFleets [''fleet-01234567''] ?s)) = {fid. fid \<in># sv_live ?s \<and> fid \<notin># sv_cancelled ?s}"
    using listed_fleets_are_the_running_ones [of test_fleet_cfg ?s "[''fleet-01234567'']"] by simp
  moreover have "map fs_FleetID (AllFleets [''fleet-01234567''] ?s) = [''fleet-01234567'']"
    by (simp add: AllFleets_def SpawnFleet_def NewServer_def fleet_id_def Let_def List.map_filter_def)
  ultimately show ?thesis by (simp add: Let_def)
qed

text \<open>
  C36. Every bot the spawn endpoint starts has a ticker interval from a nanosecond to a second,
  whatever the request asks for, so no request makes a bot's \<open>time.NewTicker\<close> panic: the default
  mix has at least three bots or none, which keeps the rate of each below the limit.
\<close>

theorem spawned_bots_have_valid_tickers:
  assumes "in32 (sb_bot_count b)" and "in32 (sb_target_tps b)"
    and "handle_spawn uuid (Some b) s = (Spawned fid, s')" and "sv_fleets s' fid = Some f"
    and "(a, bc) \<in> set (fst (spawnBots f))" and "bot_interval a bc = Some i"
  shows "1 \<le> i \<and> i \<le> 1000000000"
proof -
  let ?q = "spawn_request (spawn_defaults b)"
  have f: "f = NewFleet (fleet_cfg (sv_baseCfg s) fid ?q)"
    using assms(3,4) by (auto simp: handle_spawn_def SpawnFleet_def Let_def)
  let ?cfg = "fleet_cfg (sv_baseCfg s) fid ?q"
  obtain n where n: "fg_Mix ?cfg = default_mix n" "0 < n" "in32 n" and t: "in32 (fg_TargetTPS ?cfg)"
  proof -
    let ?n = "sb_bot_count (spawn_defaults b)"
    have d: "in32 ?n" "in32 (sb_target_tps (spawn_defaults b))"
      using assms(1,2) by (simp_all add: spawn_defaults_def Let_def in32_def)
    have "fg_Mix ?cfg = default_mix (if ?n \<le> 0 then 1000 else ?n)" "fg_TargetTPS ?cfg = sb_target_tps (spawn_defaults b)"
      by (simp_all add: fleet_cfg_def spawn_request_def Let_def)
    with d that show thesis by (cases "?n \<le> 0") (auto simp: in32_def)
  qed
  have bc: "bc = botCfg ?cfg" and ne: "roster (default_mix n) \<noteq> []"
    using assms(5) n(1) by (auto simp: f spawnBots_bots NewFleet_def)
  have "3 \<le> int (length (roster (default_mix n)))"
    using default_mix_size [OF n(2,3)] ne by fastforce
  then have k: "3 \<le> totalBots ?cfg"
    using totalBots_roster [of ?cfg] default_mix_ok [OF n(2,3)] n(1) by simp
  have "fg_TargetTPS ?cfg \<le> 3 * 1000000000" using t by (simp add: in32_def)
  also have "\<dots> \<le> max_int (totalBots ?cfg) 1 * 1000000000" using k by (simp add: max_int_def)
  finally have "perBotTPS ?cfg \<le> 1000000000"
    unfolding perBotTPS_def using k by (intro go_div_bound) (auto simp: max_int_def)
  with assms(6) rateToInterval_small [of 5000] rateToInterval_small [of "perBotTPS ?cfg"] show ?thesis
    by (auto simp: bc bot_interval_def botCfg_def split: if_splits)
qed

theorem spawned_bots_have_valid_tickers_witness:
  "let r = handle_spawn ''0123456789'' (Some test_body) (NewServer test_fleet_cfg);
       f = the (sv_fleets (snd r) ''fleet-01234567'')
   in map fst (fst (spawnBots f)) = [MarketMaker, Momentum, NoiseTrader] \<and>
      1 \<le> the (bot_interval Momentum (botCfg (fl_cfg f)))"
proof -
  let ?s = "NewServer test_fleet_cfg"
  let ?r = "handle_spawn ''0123456789'' (Some test_body) ?s"
  let ?f = "NewFleet (fleet_cfg test_fleet_cfg ''fleet-01234567'' (spawn_request (spawn_defaults test_body)))"
  have r: "?r = (Spawned ''fleet-01234567'', snd ?r)" and f: "sv_fleets (snd ?r) ''fleet-01234567'' = Some ?f"
    by (simp_all add: handle_spawn_def SpawnFleet_def Let_def fleet_id_def NewServer_def)
  have b: "fst (spawnBots ?f) = map (\<lambda>a. (a, botCfg (fl_cfg ?f))) [MarketMaker, Momentum, NoiseTrader]"
    by code_simp
  then have "(Momentum, botCfg (fl_cfg ?f)) \<in> set (fst (spawnBots ?f))" by simp
  from spawned_bots_have_valid_tickers [OF _ _ r f this, of "rateToInterval (perBotTPS (fl_cfg ?f))"]
  have "1 \<le> the (bot_interval Momentum (botCfg (fl_cfg ?f)))"
    by (simp add: test_body_def in32_def bot_interval_def botCfg_def)
  with b f show ?thesis by (simp add: Let_def)
qed

text \<open>
  The default mix comes close to the number of bots asked for: at most that many are
  started and at most four fewer, but none at all for a request of one, two or three bots.
\<close>

theorem default_mix_covers_bot_count:
  assumes "0 < n" and "in32 n"
  shows "int (length (roster (default_mix n))) \<le> n \<and> n - 4 \<le> int (length (roster (default_mix n))) \<and>
    (n \<le> 3 \<longleftrightarrow> roster (default_mix n) = [])"
  using default_mix_size [OF assms] by fastforce

theorem default_mix_covers_bot_count_witness:
  "roster (default_mix 3) = [] \<and> roster (default_mix 4) \<noteq> []"
  using default_mix_covers_bot_count [of 3] default_mix_covers_bot_count [of 4] by (simp add: in32_def)

end
