(* ===== verification/Sandbox.thy ===== *)
theory Sandbox
  imports GoText "HOL-Library.Multiset"
begin

text \<open>
  \<open>sandbox/internal/manager/manager.go\<close>: the life of contestant containers. The Docker daemon
  is outside: what its calls return is an argument of the operations, and \<open>mg_calls\<close> is the log
  of the calls made. The goroutines an operation starts are entries of \<open>mg_tasks\<close>;
  \<open>mg_cancelled\<close> are the contexts whose cancel function was called.
\<close>

section \<open>Types\<close>

record SandboxConfig =
  sc_Image :: string
  sc_CPUCores :: string
  sc_MemoryMB :: int64
  sc_TimeoutS :: int64
  sc_Env :: "string list"
  sc_SessionID :: string
  sc_TeamName :: string
  sc_ChaosEnabled :: bool

record Info =
  in_ID :: string
  in_SessionID :: string
  in_TeamName :: string
  in_Image :: string
  in_Endpoint :: string
  in_ContainerIP :: string
  in_Status :: string
  in_StartedAt :: int64
  in_EBPFIface :: string
  in_ChaosEnabled :: bool

record HostConfig =
  hc_Memory :: int64
  hc_CpusetCpus :: string
  hc_NetworkMode :: string
  hc_SecurityOpt :: "string list"
  hc_ReadonlyRootfs :: bool
  hc_Tmpfs :: "(string \<times> string) list"
  hc_CapDrop :: "string list"
  hc_CapAdd :: "string list"

record ContainerConfig =
  cc_Image :: string
  cc_Env :: "string list"
  cc_Labels :: "(string \<times> string) list"

datatype docker_call =
    ContainerCreate ContainerConfig HostConfig "string option"
  | ContainerStart string
  | ContainerInspect string
  | ContainerStop string int64
  | ContainerRemove string
  | ContainerPause string
  | ContainerUnpause string
  | NetworkList
  | NetworkCreate string

record chaosLifecycleEvent =
  ch_SessionID :: string
  ch_SandboxID :: string
  ch_EventType :: string
  ch_FaultType :: string
  ch_TimestampNS :: int64

text \<open>The goroutines: the timeout before and after it fired, the Docker part of \<open>Stop\<close>, the
  prober, and the chaos run before the fault and during it.\<close>

datatype task =
    EnforceTimeout string string int64
  | Reap string
  | StopDocker string
  | ProberTask string string
  | ChaosWait string string string
  | ChaosHold string string string

datatype ctx_kind = RunCtx | ProberCtx | ChaosCtx

record KafkaConfig =
  kc_Broker :: string
  kc_EBPFTopic :: string
  kc_EventsTopic :: string

record Manager =
  mg_seccompJSON :: string
  mg_kafka :: KafkaConfig
  mg_eventsWriter :: bool
  mg_sandboxNetwork :: string
  mg_insecure :: bool
  mg_sandboxes :: "string \<rightharpoonup> Info"
  mg_ipRegistry :: "string \<rightharpoonup> string"
  mg_calls :: "docker_call list"
  mg_tasks :: "task multiset"
  mg_cancelled :: "(string \<times> ctx_kind) set"
  mg_events :: "chaosLifecycleEvent list"

definition dcall :: "docker_call \<Rightarrow> Manager \<Rightarrow> Manager" where
  "dcall c m = m\<lparr>mg_calls := mg_calls m @ [c]\<rparr>"

section \<open>Construction\<close>

type_synonym networks = "(string \<times> string) list"   \<comment> \<open>name and id\<close>

datatype new_error = ClientError | SeccompError | NetworkError

text \<open>\<open>ensureNetwork\<close>: whether it succeeds, and the manager with the calls it made.\<close>

definition ensureNetwork :: "networks option \<Rightarrow> bool \<Rightarrow> Manager \<Rightarrow> bool \<times> Manager" where
  "ensureNetwork nets create_ok m =
     (let m1 = dcall NetworkList m in
      case nets of None \<Rightarrow> (False, m1)
      | Some ns \<Rightarrow>
          if mg_sandboxNetwork m \<in> set (map fst ns) then (True, m1)
          else if mg_sandboxNetwork m = ''bridge'' \<or> mg_sandboxNetwork m = ''host'' \<or> mg_sandboxNetwork m = ''none''
          then (True, m1)
          else (create_ok, dcall (NetworkCreate (mg_sandboxNetwork m)) m1))"

text \<open>\<open>New\<close>: \<open>seccomp\<close> is the profile read, \<open>envNet\<close> and \<open>envInsecure\<close> the two variables.\<close>

definition NewManager ::
  "bool \<Rightarrow> string option \<Rightarrow> KafkaConfig \<Rightarrow> string \<Rightarrow> string \<Rightarrow> networks option \<Rightarrow> bool \<Rightarrow> (new_error, Manager) result" where
  "NewManager client_ok seccomp kafka envNet envInsecure nets create_ok =
     (if \<not> client_ok then Inl ClientError
      else case seccomp of None \<Rightarrow> Inl SeccompError
      | Some raw \<Rightarrow>
          let m = \<lparr>mg_seccompJSON = raw, mg_kafka = kafka,
                   mg_eventsWriter = (kc_Broker kafka \<noteq> [] \<and> kc_EventsTopic kafka \<noteq> []),
                   mg_sandboxNetwork = (if envNet = [] then ''sandbox_net'' else envNet),
                   mg_insecure = (envInsecure = ''true''), mg_sandboxes = Map.empty, mg_ipRegistry = Map.empty,
                   mg_calls = [], mg_tasks = {#}, mg_cancelled = {}, mg_events = []\<rparr>
          in if \<not> mg_insecure m
             then (case ensureNetwork nets create_ok m of (ok, m') \<Rightarrow> if ok then Inr m' else Inl NetworkError)
             else Inr m)"

section \<open>Starting a sandbox\<close>

definition run_defaults :: "SandboxConfig \<Rightarrow> SandboxConfig" where
  "run_defaults c0 =
     (let c1 = (if sc_MemoryMB c0 = 0 then c0\<lparr>sc_MemoryMB := 512\<rparr> else c0);
          c2 = (if sc_CPUCores c1 = [] then c1\<lparr>sc_CPUCores := ''0''\<rparr> else c1)
      in if sc_TimeoutS c2 = 0 then c2\<lparr>sc_TimeoutS := 120\<rparr> else c2)"

definition host_config :: "Manager \<Rightarrow> SandboxConfig \<Rightarrow> HostConfig" where
  "host_config m cfg =
     (let h = \<lparr>hc_Memory = wrap64 (wrap64 (sc_MemoryMB cfg * 1024) * 1024), hc_CpusetCpus = sc_CPUCores cfg,
               hc_NetworkMode = mg_sandboxNetwork m, hc_SecurityOpt = [], hc_ReadonlyRootfs = False, hc_Tmpfs = [],
               hc_CapDrop = [], hc_CapAdd = []\<rparr>
      in if \<not> mg_insecure m
         then h\<lparr>hc_SecurityOpt := [''no-new-privileges:true'', ''seccomp='' @ mg_seccompJSON m], hc_ReadonlyRootfs := True,
                hc_Tmpfs := [(''/tmp'', ''rw,noexec,nosuid,size=64m'')], hc_CapDrop := [''ALL''],
                hc_CapAdd := [''NET_BIND_SERVICE'']\<rparr>
         else h)"

definition useHostNet :: "Manager \<Rightarrow> bool" where
  "useHostNet m \<longleftrightarrow> mg_sandboxNetwork m = ''host''"

definition container_port :: "Manager \<Rightarrow> int64 option \<Rightarrow> int64" where
  "container_port m free =
     (if useHostNet m then (case free of Some p \<Rightarrow> p | None \<Rightarrow> 8080) else 8080)"

definition container_config :: "SandboxConfig \<Rightarrow> int64 \<Rightarrow> ContainerConfig" where
  "container_config cfg port =
     \<lparr>cc_Image = sc_Image cfg, cc_Env = sc_Env cfg @ [''LISTEN_ADDR=:'' @ itoa port],
      cc_Labels = [(''quant-titans.role'', ''sandbox''), (''quant-titans.managed'', ''true''),
                   (''quant-titans.session'', sc_SessionID cfg)]\<rparr>"

datatype iface_result = IfaceErr | Iface string | IfacePanic

text \<open>\<open>resolveBridgeIface\<close>: \<open>n.ID[:12]\<close> panics on a shorter id.\<close>

fun find_iface :: "string \<Rightarrow> networks \<Rightarrow> iface_result" where
  "find_iface name [] = IfaceErr"
| "find_iface name ((n, nid) # ns) =
     (if n = name then (if length nid < 12 then IfacePanic else Iface (''br-'' @ take 12 nid)) else find_iface name ns)"

definition resolveBridgeIface :: "networks option \<Rightarrow> Manager \<Rightarrow> iface_result" where
  "resolveBridgeIface nets m =
     (case nets of None \<Rightarrow> IfaceErr | Some ns \<Rightarrow> find_iface (mg_sandboxNetwork m) ns)"

definition container_ip :: "Manager \<Rightarrow> (string \<rightharpoonup> string) \<Rightarrow> string" where
  "container_ip m addrs =
     (if useHostNet m then ''host.docker.internal''
      else case addrs (mg_sandboxNetwork m) of Some a \<Rightarrow> a | None \<Rightarrow> ''host.docker.internal'')"

text \<open>What the environment returns during one \<open>Run\<close>.\<close>

record run_env =
  rv_port :: "int64 option"               \<comment> \<open>\<open>freePort\<close>\<close>
  rv_create :: "string option"            \<comment> \<open>the container's id\<close>
  rv_start :: bool
  rv_inspect :: "(string \<rightharpoonup> string) option"  \<comment> \<open>addresses by network\<close>
  rv_nets :: "networks option"
  rv_now :: int64

datatype run_error = CreateError | StartError | InspectError | IndexPanic

definition sandbox_info :: "Manager \<Rightarrow> SandboxConfig \<Rightarrow> string \<Rightarrow> string \<Rightarrow> int64 \<Rightarrow> string \<Rightarrow> int64 \<Rightarrow> Info" where
  "sandbox_info m cfg sid ip port iface now =
     \<lparr>in_ID = sid, in_SessionID = sc_SessionID cfg, in_TeamName = sc_TeamName cfg, in_Image = sc_Image cfg,
      in_Endpoint = ''http://'' @ ip @ '':'' @ itoa port, in_ContainerIP = ip, in_Status = ''running'', in_StartedAt = now,
      in_EBPFIface = iface, in_ChaosEnabled = sc_ChaosEnabled cfg\<rparr>"

definition start_tasks :: "SandboxConfig \<Rightarrow> string \<Rightarrow> string \<Rightarrow> string \<Rightarrow> Manager \<Rightarrow> Manager" where
  "start_tasks cfg cid sid iface m =
     (let m1 = (if iface \<noteq> [] \<and> kc_Broker (mg_kafka m) \<noteq> []
                then m\<lparr>mg_tasks := add_mset (ProberTask sid iface) (mg_tasks m)\<rparr> else m);
          m2 = (if sc_ChaosEnabled cfg
                then m1\<lparr>mg_tasks := add_mset (ChaosWait cid sid (sc_SessionID cfg)) (mg_tasks m1)\<rparr>
                else m1\<lparr>mg_cancelled := insert (sid, ChaosCtx) (mg_cancelled m1)\<rparr>)
      in m2\<lparr>mg_tasks := add_mset (EnforceTimeout cid sid (wrap64 (sc_TimeoutS cfg * 1000000000))) (mg_tasks m2)\<rparr>)"

definition register :: "Info \<Rightarrow> Manager \<Rightarrow> Manager" where
  "register info m =
     (let m1 = m\<lparr>mg_sandboxes := (mg_sandboxes m)(in_ID info \<mapsto> info)\<rparr>
      in if in_ContainerIP info \<noteq> [] then m1\<lparr>mg_ipRegistry := (mg_ipRegistry m1)(in_ContainerIP info \<mapsto> in_ID info)\<rparr> else m1)"

text \<open>The part of \<open>Run\<close> after the container is up and inspected.\<close>

definition run_register :: "run_env \<Rightarrow> SandboxConfig \<Rightarrow> string \<Rightarrow> (string \<rightharpoonup> string) \<Rightarrow> Manager \<Rightarrow> (run_error, Info) result \<times> Manager" where
  "run_register v cfg cid addrs m0 =
     (let m = dcall NetworkList m0; r = resolveBridgeIface (rv_nets v) m in
      if r = IfacePanic \<or> length cid < 12 then (Inl IndexPanic, m)
      else
        let iface = (case r of Iface i \<Rightarrow> i | _ \<Rightarrow> []);
            sid = take 12 cid;
            info = sandbox_info m cfg sid (container_ip m addrs) (container_port m (rv_port v)) iface (rv_now v)
        in (Inr info, start_tasks cfg cid sid iface (register info m)))"

definition Run :: "run_env \<Rightarrow> SandboxConfig \<Rightarrow> Manager \<Rightarrow> (run_error, Info) result \<times> Manager" where
  "Run v cfg0 m =
     (let cfg = run_defaults cfg0;
          cc = container_config cfg (container_port m (rv_port v));
          m1 = dcall (ContainerCreate cc (host_config m cfg) (if useHostNet m then None else Some (mg_sandboxNetwork m))) m
      in case rv_create v of None \<Rightarrow> (Inl CreateError, m1)
         | Some cid \<Rightarrow>
             let m2 = dcall (ContainerStart cid) m1 in
             if \<not> rv_start v then (Inl StartError, dcall (ContainerRemove cid) m2)
             else
               let m3 = dcall (ContainerInspect cid) m2 in
               case rv_inspect v of None \<Rightarrow> (Inl InspectError, m3)
               | Some addrs \<Rightarrow> run_register v cfg cid addrs m3)"

section \<open>Status, stop and timeout\<close>

datatype status_result = StatusNotFound | StatusInspectError | StatusInfo "Info option"

text \<open>\<open>between\<close> is what other goroutines do while the daemon is asked; the result can then be
  a nil pointer without an error.\<close>

definition Status :: "(Manager \<Rightarrow> Manager) \<Rightarrow> string \<Rightarrow> string option \<Rightarrow> Manager \<Rightarrow> status_result \<times> Manager" where
  "Status between sid state m =
     (case mg_sandboxes m sid of None \<Rightarrow> (StatusNotFound, m)
      | Some _ \<Rightarrow>
          let m1 = between (dcall (ContainerInspect sid) m) in
          case state of None \<Rightarrow> (StatusInspectError, m1)
          | Some st \<Rightarrow>
              (case mg_sandboxes m1 sid of None \<Rightarrow> (StatusInfo None, m1)
               | Some info \<Rightarrow>
                   let info' = info\<lparr>in_Status := st\<rparr>
                   in (StatusInfo (Some info'), m1\<lparr>mg_sandboxes := (mg_sandboxes m1)(sid \<mapsto> info')\<rparr>)))"

text \<open>The common part of \<open>Stop\<close> and \<open>enforceTimeout\<close> under the lock: the registry entries go.\<close>

definition unregister :: "string \<Rightarrow> Manager \<Rightarrow> Manager" where
  "unregister sid m =
     (case mg_sandboxes m sid of None \<Rightarrow> m
      | Some info \<Rightarrow>
          let m1 = (if in_ContainerIP info \<noteq> [] then m\<lparr>mg_ipRegistry := (mg_ipRegistry m)(in_ContainerIP info := None)\<rparr> else m)
          in m1\<lparr>mg_sandboxes := (mg_sandboxes m1)(sid := None)\<rparr>)"

definition cancel :: "string \<Rightarrow> ctx_kind list \<Rightarrow> Manager \<Rightarrow> Manager" where
  "cancel sid ks m = m\<lparr>mg_cancelled := mg_cancelled m \<union> Pair sid ` set ks\<rparr>"

definition stop_lock :: "string \<Rightarrow> Manager \<Rightarrow> Manager" where
  "stop_lock sid m =
     (if mg_sandboxes m sid = None then m else unregister sid (cancel sid [RunCtx, ProberCtx, ChaosCtx] m))"

datatype stop_result = StopOk | StopError | RemoveError

definition stop_docker :: "string \<Rightarrow> bool \<Rightarrow> bool \<Rightarrow> Manager \<Rightarrow> stop_result \<times> Manager" where
  "stop_docker sid stopped removed m =
     (let m1 = dcall (ContainerStop sid 5) m in
      if \<not> stopped then (StopError, m1)
      else (if removed then StopOk else RemoveError, dcall (ContainerRemove sid) m1))"

definition Stop :: "(Manager \<Rightarrow> Manager) \<Rightarrow> string \<Rightarrow> bool \<Rightarrow> bool \<Rightarrow> Manager \<Rightarrow> stop_result \<times> Manager" where
  "Stop between sid stopped removed m = stop_docker sid stopped removed (between (stop_lock sid m))"

definition timeout_lock :: "string \<Rightarrow> Manager \<Rightarrow> Manager" where
  "timeout_lock sid m =
     (if mg_sandboxes m sid = None then m else unregister sid (cancel sid [ProberCtx, ChaosCtx] m))"

definition reap :: "string \<Rightarrow> Manager \<Rightarrow> Manager" where
  "reap cid m = dcall (ContainerRemove cid) (dcall (ContainerStop cid 2) m)"

section \<open>Chaos\<close>

definition publishChaosEvent :: "bool \<Rightarrow> chaosLifecycleEvent \<Rightarrow> Manager \<Rightarrow> Manager" where
  "publishChaosEvent ok ev m =
     (if \<not> mg_eventsWriter m then m else if ok then m\<lparr>mg_events := mg_events m @ [ev]\<rparr> else m)"

definition chaos_event :: "string \<Rightarrow> string \<Rightarrow> string \<Rightarrow> int64 \<Rightarrow> chaosLifecycleEvent" where
  "chaos_event kind sid session now =
     \<lparr>ch_SessionID = session, ch_SandboxID = sid, ch_EventType = kind, ch_FaultType = ''container_pause'',
      ch_TimestampNS = now\<rparr>"

text \<open>\<open>runChaos\<close> after the baseline, and after the five seconds of the fault or its
  cancellation; the errors of pausing and resuming are only logged.\<close>

definition chaos_begin :: "string \<Rightarrow> string \<Rightarrow> string \<Rightarrow> int64 \<Rightarrow> bool \<Rightarrow> Manager \<Rightarrow> Manager" where
  "chaos_begin cid sid session now ok m =
     dcall (ContainerPause cid) (publishChaosEvent ok (chaos_event ''chaos_start'' sid session now) m)"

definition chaos_abort :: "string \<Rightarrow> Manager \<Rightarrow> Manager" where
  "chaos_abort cid m = dcall (ContainerUnpause cid) m"

definition chaos_finish :: "string \<Rightarrow> string \<Rightarrow> string \<Rightarrow> int64 \<Rightarrow> bool \<Rightarrow> Manager \<Rightarrow> Manager" where
  "chaos_finish cid sid session now ok m =
     publishChaosEvent ok (chaos_event ''chaos_end'' sid session now) (dcall (ContainerUnpause cid) m)"

section \<open>Steps\<close>

definition retask :: "task \<Rightarrow> task multiset \<Rightarrow> Manager \<Rightarrow> Manager" where
  "retask t ts m = m\<lparr>mg_tasks := mg_tasks m - {#t#} + ts\<rparr>"

definition add_task :: "task \<Rightarrow> Manager \<Rightarrow> Manager" where
  "add_task t m = m\<lparr>mg_tasks := add_mset t (mg_tasks m)\<rparr>"

text \<open>The ids of the containers started, and of those whose removal was asked for.\<close>

definition started :: "Manager \<Rightarrow> string set" where
  "started m = {cid. ContainerStart cid \<in> set (mg_calls m)}"

definition removed :: "Manager \<Rightarrow> string set" where
  "removed m = {cid. ContainerRemove cid \<in> set (mg_calls m)}"

text \<open>A step of the manager. The daemon gives every container a new id, new also in its first
  twelve characters and never that short itself; inspecting a fresh container succeeds when
  \<open>insp\<close> is set.\<close>

inductive mgr_step :: "bool \<Rightarrow> Manager \<Rightarrow> Manager \<Rightarrow> bool" for insp where
  run: "\<forall>cid. rv_create v = Some cid \<longrightarrow> 12 < length cid \<and> take 12 cid \<notin> take 12 ` started m \<Longrightarrow>
    insp \<longrightarrow> rv_inspect v \<noteq> None \<Longrightarrow> resolveBridgeIface (rv_nets v) m \<noteq> IfacePanic \<Longrightarrow>
    mgr_step insp m (snd (Run v cfg m))"
| status: "mgr_step insp m (snd (Status id sid st m))"
| stop: "mgr_step insp m (add_task (StopDocker sid) (stop_lock sid m))"
| stopping: "StopDocker sid \<in># mg_tasks m \<Longrightarrow>
    mgr_step insp m (snd (stop_docker sid ok1 ok2 (retask (StopDocker sid) {#} m)))"
| expire: "EnforceTimeout cid sid ns \<in># mg_tasks m \<Longrightarrow>
    mgr_step insp m (timeout_lock sid (retask (EnforceTimeout cid sid ns) {#Reap cid#} m))"
| reap: "Reap cid \<in># mg_tasks m \<Longrightarrow> mgr_step insp m (reap cid (retask (Reap cid) {#} m))"
| prober: "ProberTask sid i \<in># mg_tasks m \<Longrightarrow> mgr_step insp m (retask (ProberTask sid i) {#} m)"
| quiet: "ChaosWait cid sid ses \<in># mg_tasks m \<Longrightarrow> (sid, ChaosCtx) \<in> mg_cancelled m \<Longrightarrow>
    mgr_step insp m (retask (ChaosWait cid sid ses) {#} m)"
| pause: "ChaosWait cid sid ses \<in># mg_tasks m \<Longrightarrow>
    mgr_step insp m (chaos_begin cid sid ses now ok (retask (ChaosWait cid sid ses) {#ChaosHold cid sid ses#} m))"
| abort: "ChaosHold cid sid ses \<in># mg_tasks m \<Longrightarrow> (sid, ChaosCtx) \<in> mg_cancelled m \<Longrightarrow>
    mgr_step insp m (chaos_abort cid (retask (ChaosHold cid sid ses) {#} m))"
| resume: "ChaosHold cid sid ses \<in># mg_tasks m \<Longrightarrow>
    mgr_step insp m (chaos_finish cid sid ses now ok (retask (ChaosHold cid sid ses) {#} m))"

inductive mgr_reach :: "bool \<Rightarrow> Manager \<Rightarrow> bool" for insp where
  init: "NewManager True seccomp kafka net ins nets ok = Inr m \<Longrightarrow> mgr_reach insp m"
| step: "mgr_reach insp m \<Longrightarrow> mgr_step insp m m' \<Longrightarrow> mgr_reach insp m'"

section \<open>What the operations leave alone\<close>

lemma dcall_frame [simp]:
  "mg_calls (dcall c m) = mg_calls m @ [c]" "mg_tasks (dcall c m) = mg_tasks m"
  "mg_sandboxes (dcall c m) = mg_sandboxes m" "mg_cancelled (dcall c m) = mg_cancelled m"
  "mg_insecure (dcall c m) = mg_insecure m" "mg_seccompJSON (dcall c m) = mg_seccompJSON m"
  "mg_sandboxNetwork (dcall c m) = mg_sandboxNetwork m" "mg_events (dcall c m) = mg_events m"
  by (simp_all add: dcall_def)

lemma retask_frame [simp]:
  "mg_calls (retask t ts m) = mg_calls m" "mg_tasks (retask t ts m) = mg_tasks m - {#t#} + ts"
  "mg_sandboxes (retask t ts m) = mg_sandboxes m" "mg_cancelled (retask t ts m) = mg_cancelled m"
  "mg_insecure (retask t ts m) = mg_insecure m" "mg_seccompJSON (retask t ts m) = mg_seccompJSON m"
  by (simp_all add: retask_def)

lemma add_task_frame [simp]:
  "mg_calls (add_task t m) = mg_calls m" "mg_tasks (add_task t m) = add_mset t (mg_tasks m)"
  "mg_sandboxes (add_task t m) = mg_sandboxes m" "mg_cancelled (add_task t m) = mg_cancelled m"
  "mg_insecure (add_task t m) = mg_insecure m" "mg_seccompJSON (add_task t m) = mg_seccompJSON m"
  by (simp_all add: add_task_def)

lemma unregister_frame [simp]:
  "mg_calls (unregister sid m) = mg_calls m" "mg_tasks (unregister sid m) = mg_tasks m"
  "mg_sandboxes (unregister sid m) = (mg_sandboxes m)(sid := None)" "mg_cancelled (unregister sid m) = mg_cancelled m"
  "mg_insecure (unregister sid m) = mg_insecure m" "mg_seccompJSON (unregister sid m) = mg_seccompJSON m"
  by (auto simp: unregister_def Let_def fun_eq_iff split: option.split)

lemma cancel_frame [simp]:
  "mg_calls (cancel sid ks m) = mg_calls m" "mg_tasks (cancel sid ks m) = mg_tasks m"
  "mg_sandboxes (cancel sid ks m) = mg_sandboxes m" "mg_cancelled (cancel sid ks m) = mg_cancelled m \<union> Pair sid ` set ks"
  "mg_insecure (cancel sid ks m) = mg_insecure m" "mg_seccompJSON (cancel sid ks m) = mg_seccompJSON m"
  by (simp_all add: cancel_def)

lemma lock_frame [simp]:
  "mg_calls (stop_lock sid m) = mg_calls m" "mg_tasks (stop_lock sid m) = mg_tasks m"
  "mg_insecure (stop_lock sid m) = mg_insecure m" "mg_seccompJSON (stop_lock sid m) = mg_seccompJSON m"
  "mg_calls (timeout_lock sid m) = mg_calls m" "mg_tasks (timeout_lock sid m) = mg_tasks m"
  "mg_insecure (timeout_lock sid m) = mg_insecure m" "mg_seccompJSON (timeout_lock sid m) = mg_seccompJSON m"
  by (simp_all add: stop_lock_def timeout_lock_def)

lemma lock_sandboxes [simp]:
  "mg_sandboxes (stop_lock sid m) = (mg_sandboxes m)(sid := None)"
  "mg_sandboxes (timeout_lock sid m) = (mg_sandboxes m)(sid := None)"
  by (auto simp: stop_lock_def timeout_lock_def fun_eq_iff)

lemma lock_cancelled:
  "mg_cancelled (stop_lock sid m) =
     mg_cancelled m \<union> (if mg_sandboxes m sid = None then {} else {(sid, RunCtx), (sid, ProberCtx), (sid, ChaosCtx)})"
  "mg_cancelled (timeout_lock sid m) =
     mg_cancelled m \<union> (if mg_sandboxes m sid = None then {} else {(sid, ProberCtx), (sid, ChaosCtx)})"
  by (simp_all add: stop_lock_def timeout_lock_def)

lemma publish_frame [simp]:
  "mg_calls (publishChaosEvent ok ev m) = mg_calls m" "mg_tasks (publishChaosEvent ok ev m) = mg_tasks m"
  "mg_sandboxes (publishChaosEvent ok ev m) = mg_sandboxes m" "mg_cancelled (publishChaosEvent ok ev m) = mg_cancelled m"
  "mg_insecure (publishChaosEvent ok ev m) = mg_insecure m" "mg_seccompJSON (publishChaosEvent ok ev m) = mg_seccompJSON m"
  by (simp_all add: publishChaosEvent_def)

lemma register_frame [simp]:
  "mg_calls (register info m) = mg_calls m" "mg_tasks (register info m) = mg_tasks m"
  "mg_sandboxes (register info m) = (mg_sandboxes m)(in_ID info \<mapsto> info)" "mg_cancelled (register info m) = mg_cancelled m"
  "mg_insecure (register info m) = mg_insecure m" "mg_seccompJSON (register info m) = mg_seccompJSON m"
  by (simp_all add: register_def Let_def)

lemma start_tasks_frame [simp]:
  "mg_calls (start_tasks cfg cid sid i m) = mg_calls m" "mg_sandboxes (start_tasks cfg cid sid i m) = mg_sandboxes m"
  "mg_insecure (start_tasks cfg cid sid i m) = mg_insecure m" "mg_seccompJSON (start_tasks cfg cid sid i m) = mg_seccompJSON m"
  by (simp_all add: start_tasks_def Let_def)

text \<open>The tasks started: the timeout always, the prober and the chaos run when called for.\<close>

definition new_tasks :: "SandboxConfig \<Rightarrow> string \<Rightarrow> string \<Rightarrow> string \<Rightarrow> Manager \<Rightarrow> task multiset" where
  "new_tasks cfg cid sid i m =
     {#EnforceTimeout cid sid (wrap64 (sc_TimeoutS cfg * 1000000000))#} +
     (if i \<noteq> [] \<and> kc_Broker (mg_kafka m) \<noteq> [] then {#ProberTask sid i#} else {#}) +
     (if sc_ChaosEnabled cfg then {#ChaosWait cid sid (sc_SessionID cfg)#} else {#})"

lemma start_tasks_tasks [simp]:
  "mg_tasks (start_tasks cfg cid sid i m) = mg_tasks m + new_tasks cfg cid sid i m"
  "mg_cancelled (start_tasks cfg cid sid i m) =
     mg_cancelled m \<union> (if sc_ChaosEnabled cfg then {} else {(sid, ChaosCtx)})"
  by (simp_all add: start_tasks_def new_tasks_def Let_def)

text \<open>The outcomes of \<open>Run\<close> in one rule: nothing started; a start that failed and was undone; a
  container left behind; a running sandbox.\<close>

lemma Run_cases:
  assumes r: "Run v cfg0 m = (res, m')"
    and fresh: "\<forall>cid. rv_create v = Some cid \<longrightarrow> 12 < length cid" and np: "resolveBridgeIface (rv_nets v) m \<noteq> IfacePanic"
  defines "cfg \<equiv> run_defaults cfg0"
  defines "create \<equiv> ContainerCreate (container_config cfg (container_port m (rv_port v))) (host_config m cfg)
    (if useHostNet m then None else Some (mg_sandboxNetwork m))"
  obtains (nothing) "rv_create v = None" "res = Inl CreateError" "m' = dcall create m"
  | (undone) cid where "rv_create v = Some cid" "\<not> rv_start v" "res = Inl StartError"
      "m' = dcall (ContainerRemove cid) (dcall (ContainerStart cid) (dcall create m))"
  | (left) cid where "rv_create v = Some cid" "rv_start v" "rv_inspect v = None" "res = Inl InspectError"
      "m' = dcall (ContainerInspect cid) (dcall (ContainerStart cid) (dcall create m))"
  | (up) cid info i m1 where "rv_create v = Some cid" "rv_start v" "rv_inspect v \<noteq> None" "res = Inr info"
      "in_ID info = take 12 cid" "in_SessionID info = sc_SessionID cfg"
      "m1 = dcall NetworkList (dcall (ContainerInspect cid) (dcall (ContainerStart cid) (dcall create m)))"
      "m' = start_tasks cfg cid (take 12 cid) i (register info m1)"
proof -
  have rb: "resolveBridgeIface nets (dcall c m2) = resolveBridgeIface nets m2" for nets c m2
    by (simp add: resolveBridgeIface_def split: option.split)
  show thesis
  proof (cases "rv_create v")
    case None
    with r that(1) show ?thesis by (simp add: Run_def Let_def cfg_def create_def)
  next
    case (Some cid)
    show ?thesis
    proof (cases "rv_start v")
      case False
      with Some r that(2) show ?thesis by (simp add: Run_def Let_def cfg_def create_def)
    next
      case True
      show ?thesis
      proof (cases "rv_inspect v")
        case None
        with Some True r that(3) show ?thesis by (simp add: Run_def Let_def cfg_def create_def)
      next
        case (Some addrs)
        from fresh \<open>rv_create v = Some cid\<close> have "12 < length cid" by blast
        then have "\<not> length cid < 12" by simp
        with Some True r np \<open>rv_create v = Some cid\<close> show ?thesis
          by (intro that(4)) (auto simp: Run_def Let_def cfg_def create_def run_register_def rb sandbox_info_def)
      qed
    qed
  qed
qed

section \<open>Invariants\<close>

lemma started_app [simp]:
  "started (dcall c m) = (case c of ContainerStart cid \<Rightarrow> insert cid (started m) | _ \<Rightarrow> started m)"
  "removed (dcall c m) = (case c of ContainerRemove cid \<Rightarrow> insert cid (removed m) | _ \<Rightarrow> removed m)"
  by (auto simp: started_def removed_def split: docker_call.split)

lemma started_cong: "mg_calls m = mg_calls m' \<Longrightarrow> started m = started m'" "mg_calls m = mg_calls m' \<Longrightarrow> removed m = removed m'"
  by (simp_all add: started_def removed_def)

lemmas started_frame [simp] =
  started_cong [OF retask_frame(1)] started_cong [OF add_task_frame(1)] started_cong [OF lock_frame(1)]
  started_cong [OF lock_frame(5)] started_cong [OF publish_frame(1)] started_cong [OF register_frame(1)]
  started_cong [OF start_tasks_frame(1)]

definition pending :: "Manager \<Rightarrow> string \<Rightarrow> bool" where
  "pending m cid \<longleftrightarrow> (\<exists>sid ns. EnforceTimeout cid sid ns \<in># mg_tasks m) \<or> Reap cid \<in># mg_tasks m"

text \<open>No container is left alone; the registry agrees with the timeouts under way; pauses are
  undone or about to be; every container was created with the isolation.\<close>

definition reaped_ok :: "Manager \<Rightarrow> bool" where
  "reaped_ok m \<longleftrightarrow> (\<forall>cid \<in> started m. cid \<in> removed m \<or> pending m cid)"

definition registry_ok :: "Manager \<Rightarrow> bool" where
  "registry_ok m \<longleftrightarrow>
     (\<forall>sid info. mg_sandboxes m sid = Some info \<longrightarrow> in_ID info = sid \<and> (sid, RunCtx) \<notin> mg_cancelled m \<and>
        (\<exists>cid ns. EnforceTimeout cid sid ns \<in># mg_tasks m)) \<and>
     (\<forall>cid sid ns. EnforceTimeout cid sid ns \<in># mg_tasks m \<longrightarrow> cid \<in> started m \<and> sid = take 12 cid \<and>
        (mg_sandboxes m sid \<noteq> None \<or> (sid, RunCtx) \<in> mg_cancelled m)) \<and>
     (\<forall>sid k. (sid, k) \<in> mg_cancelled m \<longrightarrow> sid \<in> take 12 ` started m) \<and>
     (\<forall>sid ns1 ns2 c1 c2. EnforceTimeout c1 sid ns1 \<in># mg_tasks m \<longrightarrow> EnforceTimeout c2 sid ns2 \<in># mg_tasks m \<longrightarrow>
        c1 = c2 \<and> ns1 = ns2) \<and>
     (\<forall>c sid ns. count (mg_tasks m) (EnforceTimeout c sid ns) \<le> 1)"

definition holds :: "string \<Rightarrow> task multiset \<Rightarrow> nat" where
  "holds cid ts = size (filter_mset (\<lambda>t. case t of ChaosHold c _ _ \<Rightarrow> c = cid | _ \<Rightarrow> False) ts)"

definition pauses_ok :: "Manager \<Rightarrow> bool" where
  "pauses_ok m \<longleftrightarrow> (\<forall>cid. count_list (mg_calls m) (ContainerPause cid) =
     count_list (mg_calls m) (ContainerUnpause cid) + holds cid (mg_tasks m))"

definition hardened :: "string \<Rightarrow> HostConfig \<Rightarrow> bool" where
  "hardened seccomp h \<longleftrightarrow> ''no-new-privileges:true'' \<in> set (hc_SecurityOpt h) \<and> ''seccomp='' @ seccomp \<in> set (hc_SecurityOpt h) \<and>
     hc_ReadonlyRootfs h \<and> hc_CapDrop h = [''ALL''] \<and> hc_CapAdd h = [''NET_BIND_SERVICE'']"

definition isolation_ok :: "Manager \<Rightarrow> bool" where
  "isolation_ok m \<longleftrightarrow> (\<not> mg_insecure m \<longrightarrow>
     (\<forall>cc h n. ContainerCreate cc h n \<in> set (mg_calls m) \<longrightarrow> hardened (mg_seccompJSON m) h))"

lemma host_config_hardened: "\<not> mg_insecure m \<Longrightarrow> hardened (mg_seccompJSON m) (host_config m cfg)"
  by (simp add: hardened_def host_config_def Let_def)

lemma pending_cong:
  "\<forall>cid. ((\<exists>sid ns. EnforceTimeout cid sid ns \<in># mg_tasks m) \<longrightarrow> (\<exists>sid ns. EnforceTimeout cid sid ns \<in># mg_tasks m')) \<Longrightarrow>
   \<forall>cid. Reap cid \<in># mg_tasks m \<longrightarrow> Reap cid \<in># mg_tasks m' \<Longrightarrow> pending m cid \<Longrightarrow> pending m' cid"
  unfolding pending_def by blast

lemma in_minus_other: "t \<noteq> u \<Longrightarrow> t \<in># M - {#u#} \<longleftrightarrow> t \<in># M"
  by (simp add: in_diff_count count_greater_zero_iff)

lemma Status_frame:
  "mg_tasks (snd (Status id sid st m)) = mg_tasks m" "mg_cancelled (snd (Status id sid st m)) = mg_cancelled m"
  "mg_insecure (snd (Status id sid st m)) = mg_insecure m" "mg_seccompJSON (snd (Status id sid st m)) = mg_seccompJSON m"
  "started (snd (Status id sid st m)) = started m" "removed (snd (Status id sid st m)) = removed m"
  "count_list (mg_calls (snd (Status id sid st m))) (ContainerPause c) = count_list (mg_calls m) (ContainerPause c)"
  "count_list (mg_calls (snd (Status id sid st m))) (ContainerUnpause c) = count_list (mg_calls m) (ContainerUnpause c)"
  "ContainerCreate cc h n \<in> set (mg_calls (snd (Status id sid st m))) \<longleftrightarrow> ContainerCreate cc h n \<in> set (mg_calls m)"
  by (auto simp: Status_def Let_def started_def removed_def split: option.split)

lemma Status_sandboxes:
  "mg_sandboxes (snd (Status id sid st m)) x = Some i \<Longrightarrow> \<exists>j. mg_sandboxes m x = Some j \<and> in_ID i = in_ID j"
  "mg_sandboxes (snd (Status id sid st m)) x = None \<longleftrightarrow> mg_sandboxes m x = None"
  by (auto simp: Status_def Let_def split: option.splits if_splits)

section \<open>Every step keeps them\<close>

text \<open>The premises of a \<open>run\<close> step, as \<open>Run_cases\<close> needs them.\<close>

lemma run_fresh:
  "\<forall>cid. rv_create v = Some cid \<longrightarrow> 12 < length cid \<and> take 12 cid \<notin> take 12 ` started m \<Longrightarrow>
     \<forall>cid. rv_create v = Some cid \<longrightarrow> 12 < length cid"
  by blast

lemma step_reaped: "mgr_step True m m' \<Longrightarrow> reaped_ok m \<Longrightarrow> reaped_ok m'"
proof (induction rule: mgr_step.induct)
  case (run v m cfg)
  obtain res m' where r: "Run v cfg m = (res, m')" by force
  from run.prems have *: "\<forall>cid \<in> started m. cid \<in> removed m \<or> pending m cid" by (simp add: reaped_ok_def)
  show ?case
  proof (cases rule: Run_cases [OF r run_fresh [OF run.hyps(1)] run.hyps(3), case_names nothing undone left up])
    case (left cid)
    with run.hyps(2) show ?thesis by simp
  next
    case (up cid info i m1)
    have "pending m' c" if "c = cid \<or> pending m c" for c
      using that by (auto simp: pending_def up new_tasks_def)
    with * r up show ?thesis by (auto simp: reaped_ok_def)
  qed (use * r in \<open>auto simp: reaped_ok_def pending_def\<close>)
next
  case (status m sid st)
  then show ?case by (simp add: reaped_ok_def pending_def Status_frame)
next
  case (stopping sid m ok1 ok2)
  then show ?case by (auto simp: reaped_ok_def pending_def stop_docker_def Let_def in_minus_other)
next
  case (expire cid sid ns m)
  then show ?case by (auto simp: reaped_ok_def pending_def in_diff_count) (metis One_nat_def)?
next
  case (reap cid m)
  then show ?case by (auto simp: reaped_ok_def pending_def reap_def in_diff_count)
qed (auto simp: reaped_ok_def pending_def in_minus_other chaos_begin_def chaos_abort_def chaos_finish_def)

lemma step_isolation:
  "mgr_step insp m m' \<Longrightarrow> isolation_ok m \<Longrightarrow> isolation_ok m' \<and> mg_insecure m' = mg_insecure m \<and> mg_seccompJSON m' = mg_seccompJSON m"
proof (induction rule: mgr_step.induct)
  case (run v m cfg)
  obtain res m' where r: "Run v cfg m = (res, m')" by force
  show ?case
    by (cases rule: Run_cases [OF r run_fresh [OF run.hyps(1)] run.hyps(3)]) (use run.prems r host_config_hardened in \<open>auto simp: isolation_ok_def\<close>)
next
  case (status m sid st)
  then show ?case by (simp add: isolation_ok_def Status_frame)
qed (auto simp: isolation_ok_def stop_docker_def reap_def Let_def chaos_begin_def chaos_abort_def chaos_finish_def)

lemma holds_simps [simp]:
  "holds cid {#} = 0" "holds cid (ts + us) = holds cid ts + holds cid us"
  "holds cid (add_mset t ts) = (case t of ChaosHold c _ _ \<Rightarrow> if c = cid then 1 else 0 | _ \<Rightarrow> 0) + holds cid ts"
  by (auto simp: holds_def split: task.split)

lemma holds_remove:
  "t \<in># ts \<Longrightarrow> holds cid ts = (case t of ChaosHold c _ _ \<Rightarrow> if c = cid then 1 else 0 | _ \<Rightarrow> 0) + holds cid (ts - {#t#})"
  by (metis holds_simps(3) insert_DiffM)

lemma step_pauses: "mgr_step insp m m' \<Longrightarrow> pauses_ok m \<Longrightarrow> pauses_ok m'"
proof (induction rule: mgr_step.induct)
  case (run v m cfg)
  obtain res m' where r: "Run v cfg m = (res, m')" by force
  show ?case
    by (cases rule: Run_cases [OF r run_fresh [OF run.hyps(1)] run.hyps(3)]) (use run.prems r in \<open>auto simp: pauses_ok_def new_tasks_def\<close>)
next
  case (status m sid st)
  then show ?case by (simp add: pauses_ok_def Status_frame)
next
  case (stopping sid m ok1 ok2)
  from holds_remove [OF stopping.hyps] stopping.prems show ?case
    by (auto simp: pauses_ok_def stop_docker_def Let_def)
next
  case (expire cid sid ns m)
  from holds_remove [OF expire.hyps] expire.prems show ?case by (auto simp: pauses_ok_def)
next
  case (reap cid m)
  from holds_remove [OF reap.hyps] reap.prems show ?case by (auto simp: pauses_ok_def reap_def)
next
  case (prober sid i m)
  from holds_remove [OF prober.hyps] prober.prems show ?case by (auto simp: pauses_ok_def)
next
  case (quiet cid sid ses m)
  from holds_remove [OF quiet.hyps(1)] quiet.prems show ?case by (auto simp: pauses_ok_def)
next
  case (pause cid sid ses m now ok)
  from holds_remove [OF pause.hyps] pause.prems show ?case by (auto simp: pauses_ok_def chaos_begin_def)
next
  case (abort cid sid ses m)
  from holds_remove [OF abort.hyps(1)] abort.prems show ?case
    by (auto simp: pauses_ok_def chaos_abort_def split: if_splits)
next
  case (resume cid sid ses m now ok)
  from holds_remove [OF resume.hyps] resume.prems show ?case
    by (auto simp: pauses_ok_def chaos_finish_def split: if_splits)
qed (auto simp: pauses_ok_def)

lemma registry_okI:
  assumes "\<And>sid info. mg_sandboxes m sid = Some info \<Longrightarrow> in_ID info = sid \<and> (sid, RunCtx) \<notin> mg_cancelled m \<and>
      (\<exists>cid ns. EnforceTimeout cid sid ns \<in># mg_tasks m)"
    and "\<And>cid sid ns. EnforceTimeout cid sid ns \<in># mg_tasks m \<Longrightarrow> cid \<in> started m \<and> sid = take 12 cid \<and>
      (mg_sandboxes m sid \<noteq> None \<or> (sid, RunCtx) \<in> mg_cancelled m)"
    and "\<And>sid k. (sid, k) \<in> mg_cancelled m \<Longrightarrow> sid \<in> take 12 ` started m"
    and "\<And>sid ns1 ns2 c1 c2. EnforceTimeout c1 sid ns1 \<in># mg_tasks m \<Longrightarrow> EnforceTimeout c2 sid ns2 \<in># mg_tasks m \<Longrightarrow>
      c1 = c2 \<and> ns1 = ns2"
    and "\<And>c sid ns. count (mg_tasks m) (EnforceTimeout c sid ns) \<le> 1"
  shows "registry_ok m"
  unfolding registry_ok_def using assms by (intro conjI allI impI) blast+

lemma registry_okD:
  assumes "registry_ok m"
  shows "mg_sandboxes m sid = Some info \<Longrightarrow> in_ID info = sid \<and> (sid, RunCtx) \<notin> mg_cancelled m \<and>
      (\<exists>cid ns. EnforceTimeout cid sid ns \<in># mg_tasks m)"
    and "EnforceTimeout cid sid ns \<in># mg_tasks m \<Longrightarrow> cid \<in> started m \<and> sid = take 12 cid \<and>
      (mg_sandboxes m sid \<noteq> None \<or> (sid, RunCtx) \<in> mg_cancelled m)"
    and "(sid, k) \<in> mg_cancelled m \<Longrightarrow> sid \<in> take 12 ` started m"
    and "EnforceTimeout c1 sid ns1 \<in># mg_tasks m \<Longrightarrow> EnforceTimeout c2 sid ns2 \<in># mg_tasks m \<Longrightarrow> c1 = c2 \<and> ns1 = ns2"
    and "count (mg_tasks m) (EnforceTimeout c sid ns) \<le> 1"
  using assms unfolding registry_ok_def by blast+

text \<open>Steps that touch neither the timeouts nor the registry.\<close>

lemma registry_ok_same:
  assumes "registry_ok m" and "mg_sandboxes m' = mg_sandboxes m" and "mg_cancelled m' = mg_cancelled m"
    and "started m \<subseteq> started m'" and "\<And>c sid ns. count (mg_tasks m') (EnforceTimeout c sid ns) = count (mg_tasks m) (EnforceTimeout c sid ns)"
  shows "registry_ok m'"
proof -
  have t: "EnforceTimeout c sid ns \<in># mg_tasks m' \<longleftrightarrow> EnforceTimeout c sid ns \<in># mg_tasks m" for c sid ns
    using assms(5) [of c sid ns] by (metis count_eq_zero_iff)
  have img: "take 12 ` started m \<subseteq> take 12 ` started m'" using assms(4) by (rule image_mono)
  note D = registry_okD [OF assms(1)]
  show ?thesis
    by (rule registry_okI; unfold assms(2,3,5) t) (use D(1) in blast, use D(2) assms(4) in blast, use D(3) img in blast,
      use D(4) in blast, use D(5) in blast)
qed

lemma registry_ok_locked:
  assumes ok: "registry_ok m" and s: "mg_sandboxes m' = (mg_sandboxes m)(sid := None)"
    and t: "mg_tasks m' = mg_tasks m + ts" "\<And>c s ns. EnforceTimeout c s ns \<notin># ts"
    and c: "mg_cancelled m' = mg_cancelled m \<union> (if mg_sandboxes m sid = None then {} else {(sid, RunCtx), (sid, ProberCtx), (sid, ChaosCtx)})"
    and st: "started m' = started m"
  shows "registry_ok m'"
proof (rule registry_okI)
  note D = registry_okD [OF ok]
  have e: "EnforceTimeout c s ns \<in># mg_tasks m' \<longleftrightarrow> EnforceTimeout c s ns \<in># mg_tasks m" for c s ns
    using t by simp
  show "in_ID info = x \<and> (x, RunCtx) \<notin> mg_cancelled m' \<and> (\<exists>cid ns. EnforceTimeout cid x ns \<in># mg_tasks m')"
    if "mg_sandboxes m' x = Some info" for x info
    using that D(1) [of x info] by (auto simp: s c e split: if_splits)
  show "cid \<in> started m' \<and> x = take 12 cid \<and> (mg_sandboxes m' x \<noteq> None \<or> (x, RunCtx) \<in> mg_cancelled m')"
    if "EnforceTimeout cid x ns \<in># mg_tasks m'" for cid x ns
    using that D(2) [of cid x ns] by (auto simp: s c e st)
  have dom: "sid \<in> take 12 ` started m" if "mg_sandboxes m sid \<noteq> None"
    using that D(1) [of sid] D(2) by fastforce
  show "x \<in> take 12 ` started m'" if "(x, k) \<in> mg_cancelled m'" for x k
    using that D(3) dom by (auto simp: c st split: if_splits)
  show "c1 = c2 \<and> ns1 = ns2" if "EnforceTimeout c1 x ns1 \<in># mg_tasks m'" "EnforceTimeout c2 x ns2 \<in># mg_tasks m'" for x ns1 ns2 c1 c2
    using that D(4) by (simp add: e)
  show "count (mg_tasks m') (EnforceTimeout c x ns) \<le> 1" for c x ns
  proof -
    have "count ts (EnforceTimeout c x ns) = 0" using t(2) by (simp add: count_eq_zero_iff)
    then show ?thesis using D(5) t(1) by simp
  qed
qed

text \<open>The timeout that fires: its task goes with the registry entry.\<close>

lemma registry_ok_expired:
  assumes ok: "registry_ok m" and mem: "EnforceTimeout cid sid ns \<in># mg_tasks m"
  shows "registry_ok (timeout_lock sid (retask (EnforceTimeout cid sid ns) {#Reap cid#} m))" (is "registry_ok ?m")
proof (rule registry_okI)
  note D = registry_okD [OF ok]
  let ?t = "EnforceTimeout cid sid ns"
  have one: "count (mg_tasks m) ?t = 1"
    using D(5) [of cid sid ns] mem by (metis One_nat_def count_greater_zero_iff le_antisym less_eq_Suc_le)
  have e: "EnforceTimeout c x k \<in># mg_tasks ?m \<longleftrightarrow> EnforceTimeout c x k \<in># mg_tasks m \<and> EnforceTimeout c x k \<noteq> ?t" for c x k
    using one by (auto simp: in_diff_count split: if_splits)
  have other: "x \<noteq> sid" if "EnforceTimeout c x k \<in># mg_tasks ?m" for c x k
    using that D(4) [of c sid k cid ns] mem unfolding e by auto
  have cs: "mg_cancelled ?m = mg_cancelled m \<union> (if mg_sandboxes m sid = None then {} else {(sid, ProberCtx), (sid, ChaosCtx)})"
    by (simp add: lock_cancelled)
  show "in_ID info = x \<and> (x, RunCtx) \<notin> mg_cancelled ?m \<and> (\<exists>cid ns. EnforceTimeout cid x ns \<in># mg_tasks ?m)"
    if "mg_sandboxes ?m x = Some info" for x info
  proof -
    from that have x: "x \<noteq> sid" "mg_sandboxes m x = Some info" by (auto split: if_splits)
    from D(1) [OF x(2)] x(1) show ?thesis unfolding e cs by auto
  qed
  show "c \<in> started ?m \<and> x = take 12 c \<and> (mg_sandboxes ?m x \<noteq> None \<or> (x, RunCtx) \<in> mg_cancelled ?m)"
    if t: "EnforceTimeout c x k \<in># mg_tasks ?m" for c x k
  proof -
    from t have "EnforceTimeout c x k \<in># mg_tasks m" unfolding e by simp
    from D(2) [OF this] other [OF t] show ?thesis by (auto simp: cs)
  qed
  have "sid \<in> take 12 ` started m" using D(2) [OF mem] by blast
  then show "x \<in> take 12 ` started ?m" if "(x, k) \<in> mg_cancelled ?m" for x k
    using that D(3) [of x k] by (auto simp: cs split: if_splits)
  show "c1 = c2 \<and> k1 = k2" if "EnforceTimeout c1 x k1 \<in># mg_tasks ?m" "EnforceTimeout c2 x k2 \<in># mg_tasks ?m" for x k1 k2 c1 c2
    using that D(4) unfolding e by blast
  show "count (mg_tasks ?m) (EnforceTimeout c x k) \<le> 1" for c x k
    using D(5) [of c x k] by (auto simp: le_diff_conv)
qed

lemma registry_ok_up:
  assumes ok: "registry_ok m" and m': "m' = start_tasks cfg cid (take 12 cid) i (register info m1)"
    and same: "mg_sandboxes m1 = mg_sandboxes m" "mg_tasks m1 = mg_tasks m" "mg_cancelled m1 = mg_cancelled m"
    and st: "started m1 = insert cid (started m)" and i: "in_ID info = take 12 cid"
    and fresh: "take 12 cid \<notin> take 12 ` started m"
  shows "registry_ok m'"
proof (rule registry_okI)
  note D = registry_okD [OF ok]
  let ?sid = "take 12 cid" and ?ns = "wrap64 (sc_TimeoutS cfg * 1000000000)"
  have e: "EnforceTimeout c x k \<in># mg_tasks m' \<longleftrightarrow> EnforceTimeout c x k \<in># mg_tasks m \<or> (c = cid \<and> x = ?sid \<and> k = ?ns)" for c x k
    by (auto simp: m' same new_tasks_def)
  have new: "EnforceTimeout c ?sid k \<notin># mg_tasks m" for c k
    using D(2) [of c ?sid k] fresh by fastforce
  have uncancelled: "(?sid, k) \<notin> mg_cancelled m" for k using D(3) fresh by blast
  have s': "mg_sandboxes m' = (mg_sandboxes m)(?sid \<mapsto> info)" "started m' = insert cid (started m)"
    "mg_cancelled m' = mg_cancelled m \<union> (if sc_ChaosEnabled cfg then {} else {(?sid, ChaosCtx)})"
    by (simp_all add: m' same i st)
  show "in_ID info' = x \<and> (x, RunCtx) \<notin> mg_cancelled m' \<and> (\<exists>cid ns. EnforceTimeout cid x ns \<in># mg_tasks m')"
    if "mg_sandboxes m' x = Some info'" for x info'
    using that D(1) [of x info'] uncancelled i unfolding e s' by (cases "x = ?sid") auto
  show "c \<in> started m' \<and> x = take 12 c \<and> (mg_sandboxes m' x \<noteq> None \<or> (x, RunCtx) \<in> mg_cancelled m')"
    if "EnforceTimeout c x k \<in># mg_tasks m'" for c x k
    using that D(2) [of c x k] unfolding e s' by auto
  show "x \<in> take 12 ` started m'" if "(x, k) \<in> mg_cancelled m'" for x k
    using that D(3) [of x k] unfolding s' by (auto split: if_splits)
  show "c1 = c2 \<and> k1 = k2" if "EnforceTimeout c1 x k1 \<in># mg_tasks m'" "EnforceTimeout c2 x k2 \<in># mg_tasks m'" for x k1 k2 c1 c2
    using that D(4) new unfolding e by blast
  show "count (mg_tasks m') (EnforceTimeout c x k) \<le> 1" for c x k
  proof (cases "c = cid \<and> x = ?sid \<and> k = ?ns")
    case True
    then show ?thesis using new [of cid ?ns] by (simp add: m' same new_tasks_def not_in_iff)
  next
    case False
    then show ?thesis using D(5) [of c x k] by (auto simp: m' same new_tasks_def)
  qed
qed

lemma step_registry: "mgr_step insp m m' \<Longrightarrow> registry_ok m \<Longrightarrow> registry_ok m'"
proof (induction rule: mgr_step.induct)
  case (run v m cfg)
  obtain res m' where r: "Run v cfg m = (res, m')" by force
  have "registry_ok m'"
  proof (cases rule: Run_cases [OF r run_fresh [OF run.hyps(1)] run.hyps(3), case_names nothing undone left up])
    case (up cid info i m1)
    from run.hyps(1) up(1) have "take 12 cid \<notin> take 12 ` started m" by blast
    then show ?thesis by (intro registry_ok_up [OF run.prems up(8)]) (simp_all add: up)
  qed (rule registry_ok_same [OF run.prems]; auto)+
  with r show ?case by simp
next
  case (status m sid st)
  note D = registry_okD [OF status.prems]
  show ?case
  proof (rule registry_okI, goal_cases)
    case (1 x info)
    from Status_sandboxes(1) [OF 1] D(1) show ?case unfolding Status_frame by metis
  next
    case (2 cid x ns)
    then show ?case using D(2) [of cid x ns] unfolding Status_frame Status_sandboxes(2) by blast
  qed (use D(3-5) in \<open>unfold Status_frame, blast+\<close>)
next
  case (stop m sid)
  show ?case by (rule registry_ok_locked [OF stop.prems, of _ sid "{#StopDocker sid#}"]) (simp_all add: lock_cancelled)
next
  case (stopping sid m ok1 ok2)
  show ?case by (rule registry_ok_same [OF stopping.prems]) (auto simp: stop_docker_def Let_def)
next
  case (expire cid sid ns m)
  from expire.prems expire.hyps show ?case by (rule registry_ok_expired)
next
  case (reap cid m)
  show ?case by (rule registry_ok_same [OF reap.prems]) (auto simp: reap_def)
qed (rule registry_ok_same; auto simp: chaos_begin_def chaos_abort_def chaos_finish_def)+

lemma NewManager_fresh:
  assumes "NewManager True seccomp kafka net ins nets ok = Inr m"
  shows "mg_sandboxes m = Map.empty" "mg_tasks m = {#}" "mg_cancelled m = {}"
    "started m = {}" "ContainerCreate cc h n \<notin> set (mg_calls m)"
    "ContainerPause cid \<notin> set (mg_calls m)" "ContainerUnpause cid \<notin> set (mg_calls m)"
  using assms
  by (auto simp: NewManager_def Let_def ensureNetwork_def dcall_def started_def split: option.splits if_splits)

lemma reach_ok:
  assumes "mgr_reach insp m"
  shows "(insp \<longrightarrow> reaped_ok m) \<and> registry_ok m \<and> pauses_ok m \<and> isolation_ok m"
  using assms
proof (induction rule: mgr_reach.induct)
  case (init seccomp kafka net ins nets ok m)
  note f = NewManager_fresh [OF init]
  show ?case
    by (auto simp: reaped_ok_def registry_ok_def pauses_ok_def isolation_ok_def f count_list_0_iff)
next
  case (step m m')
  have "insp \<longrightarrow> reaped_ok m'"
  proof (rule impI)
    assume insp
    then have "insp = True" by simp
    from step.hyps(2) step.IH show "reaped_ok m'" unfolding \<open>insp = True\<close> by (simp add: step_reaped)
  qed
  moreover note step_registry [OF step.hyps(2)] step_pauses [OF step.hyps(2)] step_isolation [OF step.hyps(2)]
  ultimately show ?case using step.IH by blast
qed

section \<open>A run to see the hypotheses hold\<close>

definition sample_kafka :: KafkaConfig where
  "sample_kafka = \<lparr>kc_Broker = ''kafka:9092'', kc_EBPFTopic = ''bench.ebpf'', kc_EventsTopic = ''bench.events''\<rparr>"

definition sample_manager :: Manager where
  "sample_manager = (case NewManager True (Some ''{}'') sample_kafka [] [] (Some []) True of Inr m \<Rightarrow> m)"

definition sample_config :: SandboxConfig where
  "sample_config = \<lparr>sc_Image = ''qt-alpha'', sc_CPUCores = [], sc_MemoryMB = 0, sc_TimeoutS = 60, sc_Env = [],
     sc_SessionID = ''s1'', sc_TeamName = ''alpha'', sc_ChaosEnabled = True\<rparr>"

definition sample_env :: run_env where
  "sample_env = \<lparr>rv_port = None, rv_create = Some ''0123456789abcdef'', rv_start = True,
     rv_inspect = Some [''sandbox_net'' \<mapsto> ''172.20.0.2''], rv_nets = Some [], rv_now = 0\<rparr>"

definition sample_running :: Manager where
  "sample_running = snd (Run sample_env sample_config sample_manager)"

lemmas sample_defs = sample_kafka_def sample_manager_def sample_config_def sample_env_def NewManager_def ensureNetwork_def
  dcall_def

lemma sample_manager_new:
  "NewManager True (Some ''{}'') sample_kafka [] [] (Some []) True = Inr sample_manager"
  by (simp add: sample_defs Let_def)

lemma sample_manager_reach: "mgr_reach insp sample_manager"
  by (rule mgr_reach.init [OF sample_manager_new])

lemma sample_manager_started: "started sample_manager = {}"
  by (rule NewManager_fresh(4) [OF sample_manager_new])

lemma sample_run:
  obtains info i m1 where "sample_running = start_tasks (run_defaults sample_config) ''0123456789abcdef'' ''0123456789ab'' i (register info m1)"
    "in_ID info = ''0123456789ab''" "started m1 = {''0123456789abcdef''}" "removed m1 = {}"
    "ContainerPause ''0123456789abcdef'' \<notin> set (mg_calls m1)"
    "\<exists>cc h n. ContainerCreate cc h n \<in> set (mg_calls m1)" "\<not> mg_insecure m1" "mg_seccompJSON m1 = ''{}''"
proof -
  obtain res m' where r: "Run sample_env sample_config sample_manager = (res, m')" by force
  have np: "resolveBridgeIface (rv_nets sample_env) sample_manager \<noteq> IfacePanic"
    by (simp add: sample_env_def resolveBridgeIface_def)
  have fresh: "\<forall>cid. rv_create sample_env = Some cid \<longrightarrow> 12 < length cid" by (simp add: sample_env_def)
  have m: "\<not> mg_insecure sample_manager" "mg_seccompJSON sample_manager = ''{}''" "removed sample_manager = {}"
    "ContainerPause ''0123456789abcdef'' \<notin> set (mg_calls sample_manager)"
    by (simp_all add: sample_defs Let_def removed_def)
  show thesis
  proof (cases rule: Run_cases [OF r fresh np, case_names nothing undone left up])
    case (up cid info i m1)
    have "cid = ''0123456789abcdef''" using up(1) by (simp add: sample_env_def)
    with up r m sample_manager_started show ?thesis
      by (intro that [of i info m1]) (auto simp: sample_running_def)
  qed (simp_all add: sample_env_def)
qed

lemma sample_running_reach: "mgr_reach insp sample_running"
proof (rule mgr_reach.step [OF sample_manager_reach])
  show "mgr_step insp sample_manager sample_running"
    unfolding sample_running_def
    by (rule mgr_step.run) (simp_all add: sample_env_def sample_manager_started resolveBridgeIface_def)
qed

lemma sample_running_facts:
  "started sample_running = {''0123456789abcdef''}" "removed sample_running = {}"
  "mg_sandboxes sample_running ''0123456789ab'' \<noteq> None"
  "\<exists>cc h n. ContainerCreate cc h n \<in> set (mg_calls sample_running)" "\<not> mg_insecure sample_running"
  "mg_seccompJSON sample_running = ''{}''"
proof -
  obtain info i m1 where m: "sample_running = start_tasks (run_defaults sample_config) ''0123456789abcdef'' ''0123456789ab'' i (register info m1)"
    "in_ID info = ''0123456789ab''" "started m1 = {''0123456789abcdef''}" "removed m1 = {}"
    "\<exists>cc h n. ContainerCreate cc h n \<in> set (mg_calls m1)" "\<not> mg_insecure m1" "mg_seccompJSON m1 = ''{}''"
    by (rule sample_run)
  show "started sample_running = {''0123456789abcdef''}" "removed sample_running = {}"
    "mg_sandboxes sample_running ''0123456789ab'' \<noteq> None"
    "\<exists>cc h n. ContainerCreate cc h n \<in> set (mg_calls sample_running)" "\<not> mg_insecure sample_running"
    "mg_seccompJSON sample_running = ''{}''"
    unfolding m(1) using m(2-) by simp_all
qed

section \<open>Properties\<close>







text \<open>C35. Isolation: unless the manager was told to be insecure, every container it ever creates
  has the seccomp profile, no new privileges, a read-only root and all capabilities dropped but
  the one for binding ports.\<close>

theorem containers_are_hardened:
  assumes "mgr_reach insp m" "\<not> mg_insecure m" "ContainerCreate cc h n \<in> set (mg_calls m)"
  shows "''no-new-privileges:true'' \<in> set (hc_SecurityOpt h) \<and> ''seccomp='' @ mg_seccompJSON m \<in> set (hc_SecurityOpt h) \<and>
     hc_ReadonlyRootfs h \<and> hc_CapDrop h = [''ALL''] \<and> hc_CapAdd h = [''NET_BIND_SERVICE'']"
  using reach_ok [OF assms(1)] assms(2,3) unfolding isolation_ok_def hardened_def by blast

theorem containers_are_hardened_witness:
  "\<exists>cc h n. ContainerCreate cc h n \<in> set (mg_calls sample_running) \<and> hc_ReadonlyRootfs h \<and> hc_CapDrop h = [''ALL'']"
  using containers_are_hardened [OF sample_running_reach sample_running_facts(5)] sample_running_facts(4) by blast

text \<open>\<open>Stop\<close> on an id the manager does not know still stops and removes a container of that
  name or id at the daemon, any container of the host; the registry does not change.\<close>

theorem Stop_reaches_unmanaged_containers:
  assumes "mg_sandboxes m sid = None"
  shows "Stop id sid True ok m =
     (if ok then StopOk else RemoveError, m\<lparr>mg_calls := mg_calls m @ [ContainerStop sid 5, ContainerRemove sid]\<rparr>)"
  using assms by (simp add: Stop_def stop_lock_def stop_docker_def dcall_def)

theorem Stop_reaches_unmanaged_containers_witness:
  "mg_calls (snd (Stop id ''postgres'' True True sample_manager)) =
     mg_calls sample_manager @ [ContainerStop ''postgres'' 5, ContainerRemove ''postgres'']"
  using Stop_reaches_unmanaged_containers [of sample_manager "''postgres''" True]
    NewManager_fresh(1) [OF sample_manager_new] by simp

text \<open>A container whose inspection fails is left running: \<open>Run\<close> reports the error, but nothing
  lists the container, nothing removes it and no timeout was started for it.\<close>

theorem failed_inspect_leaks_container:
  assumes "rv_create v = Some cid" "rv_start v" "rv_inspect v = None"
  shows "fst (Run v cfg m) = Inl InspectError \<and> cid \<in> started (snd (Run v cfg m)) \<and>
     removed (snd (Run v cfg m)) = removed m \<and> mg_tasks (snd (Run v cfg m)) = mg_tasks m \<and>
     mg_sandboxes (snd (Run v cfg m)) = mg_sandboxes m"
  using assms by (simp add: Run_def Let_def)

theorem failed_inspect_leaks_container_witness:
  "''0123456789abcdef'' \<in> started (snd (Run (sample_env\<lparr>rv_inspect := None\<rparr>) sample_config sample_manager)) \<and>
     mg_tasks (snd (Run (sample_env\<lparr>rv_inspect := None\<rparr>) sample_config sample_manager)) = mg_tasks sample_manager"
  using failed_inspect_leaks_container [of "sample_env\<lparr>rv_inspect := None\<rparr>" "''0123456789abcdef''"]
  by (simp add: sample_env_def)

end
