(* ===== verification/Chaos.thy ===== *)
theory Chaos
  imports GoText
begin

text \<open>
  \<open>sandbox/internal/chaos/injector.go\<close>: the fault injector. The commands it runs are kept in a
  log with their outcome, which the oracle \<open>ok\<close> gives by the command's number; the clock and the
  context are the \<open>fault_env\<close> of each fault.
\<close>

section \<open>Types\<close>

type_synonym FaultType = string

definition NetworkDelay :: FaultType where "NetworkDelay = ''network_delay''"
definition NetworkLoss :: FaultType where "NetworkLoss = ''network_loss''"
definition CPUThrottle :: FaultType where "CPUThrottle = ''cpu_throttle''"
definition MemPressure :: FaultType where "MemPressure = ''mem_pressure''"

record FaultSpec =
  ft_Type :: FaultType
  ft_Duration :: int64      \<comment> \<open>nanoseconds\<close>
  ft_DelayMS :: int64
  ft_JitterMS :: int64
  ft_LossPercent :: int64
  ft_CPUQuotaUS :: int64

definition DefaultFaultSchedule :: "FaultSpec list" where
  "DefaultFaultSchedule =
     [\<lparr>ft_Type = NetworkDelay, ft_Duration = 10000000000, ft_DelayMS = 5, ft_JitterMS = 2, ft_LossPercent = 0, ft_CPUQuotaUS = 0\<rparr>,
      \<lparr>ft_Type = NetworkLoss, ft_Duration = 10000000000, ft_DelayMS = 0, ft_JitterMS = 0, ft_LossPercent = 2, ft_CPUQuotaUS = 0\<rparr>,
      \<lparr>ft_Type = CPUThrottle, ft_Duration = 10000000000, ft_DelayMS = 0, ft_JitterMS = 0, ft_LossPercent = 0, ft_CPUQuotaUS = 50000\<rparr>]"

record Injector =
  inj_iface :: string
  inj_cgroupPath :: string

record command =
  cmd_name :: string
  cmd_args :: "string list"

section \<open>Commands\<close>

definition cmd :: "string \<Rightarrow> string list \<Rightarrow> command" where
  "cmd name args = \<lparr>cmd_name = name, cmd_args = args\<rparr>"

text \<open>\<open>%q\<close> of a text of digits, signs and blanks.\<close>

definition quoted :: "string \<Rightarrow> string" where
  "quoted s = CHR 0x22 # s @ [CHR 0x22]"

text \<open>The command a fault is injected and removed with, if there is one.\<close>

definition inject_cmd :: "Injector \<Rightarrow> FaultSpec \<Rightarrow> command option" where
  "inject_cmd ij f =
     (if ft_Type f = NetworkDelay then
        Some (cmd ''tc'' [''qdisc'', ''add'', ''dev'', inj_iface ij, ''root'', ''netem'', ''delay'',
          itoa (ft_DelayMS f) @ ''ms'', itoa (ft_JitterMS f) @ ''ms'', ''distribution'', ''normal''])
      else if ft_Type f = NetworkLoss then
        Some (cmd ''tc'' [''qdisc'', ''add'', ''dev'', inj_iface ij, ''root'', ''netem'', ''loss'', itoa (ft_LossPercent f) @ ''%''])
      else if ft_Type f = CPUThrottle then
        (if inj_cgroupPath ij = [] then None
         else Some (cmd ''sh'' [''-c'', ''echo '' @ quoted (itoa (ft_CPUQuotaUS f) @ '' 100000'') @ '' > '' @
           inj_cgroupPath ij @ ''/cpu.max'']))
      else if ft_Type f = MemPressure then
        Some (cmd ''stress-ng'' [''--vm'', ''1'', ''--vm-bytes'', ''256M'', ''--timeout'', itoa 10 @ ''s''])
      else None)"

definition remove_cmd :: "Injector \<Rightarrow> FaultSpec \<Rightarrow> command option" where
  "remove_cmd ij f =
     (if ft_Type f = NetworkDelay \<or> ft_Type f = NetworkLoss then
        Some (cmd ''tc'' [''qdisc'', ''del'', ''dev'', inj_iface ij, ''root''])
      else if ft_Type f = CPUThrottle then
        (if inj_cgroupPath ij = [] then None
         else Some (cmd ''sh'' [''-c'', ''echo 'max 100000' > '' @ inj_cgroupPath ij @ ''/cpu.max'']))
      else None)"

section \<open>Running\<close>

type_synonym cmd_log = "(command \<times> bool) list"

text \<open>\<open>runCmd\<close>: whether the command succeeded, and the longer log. Without a command, \<open>inject\<close>
  and \<open>remove\<close> return nil.\<close>

definition runCmd :: "(nat \<Rightarrow> bool) \<Rightarrow> command \<Rightarrow> cmd_log \<Rightarrow> bool \<times> cmd_log" where
  "runCmd ok c lg = (ok (length lg), lg @ [(c, ok (length lg))])"

definition run_opt :: "(nat \<Rightarrow> bool) \<Rightarrow> command option \<Rightarrow> cmd_log \<Rightarrow> bool \<times> cmd_log" where
  "run_opt ok c lg = (case c of None \<Rightarrow> (True, lg) | Some c \<Rightarrow> runCmd ok c lg)"

definition inject :: "(nat \<Rightarrow> bool) \<Rightarrow> Injector \<Rightarrow> FaultSpec \<Rightarrow> cmd_log \<Rightarrow> bool \<times> cmd_log" where
  "inject ok ij f lg = run_opt ok (inject_cmd ij f) lg"

definition remove_fault :: "(nat \<Rightarrow> bool) \<Rightarrow> Injector \<Rightarrow> FaultSpec \<Rightarrow> cmd_log \<Rightarrow> bool \<times> cmd_log" where
  "remove_fault ok ij f lg = run_opt ok (remove_cmd ij f) lg"

text \<open>What a fault meets: the context done before it, the context done before its time is up, and
  the time from its start to its removal.\<close>

record fault_env =
  fe_done :: bool
  fe_cancelled :: bool
  fe_elapsed :: int64

record schedule_result =
  rs_recoveryMS :: int64
  rs_ratio :: float64
  rs_cancelled :: bool     \<comment> \<open>the error is \<open>ctx.Err()\<close>\<close>

fun run_faults :: "(nat \<Rightarrow> bool) \<Rightarrow> Injector \<Rightarrow> (FaultSpec \<times> fault_env) list \<Rightarrow> int64 \<Rightarrow> cmd_log \<Rightarrow> schedule_result \<times> cmd_log" where
  "run_faults ok ij [] rec lg = (\<lparr>rs_recoveryMS = rec, rs_ratio = Num False 1, rs_cancelled = False\<rparr>, lg)"
| "run_faults ok ij ((f, e) # fs) rec lg =
     (if fe_done e then (\<lparr>rs_recoveryMS = 0, rs_ratio = Num False 0, rs_cancelled = True\<rparr>, lg)
      else case inject ok ij f lg of (injected, lg1) \<Rightarrow>
        if \<not> injected then run_faults ok ij fs rec lg1
        else case remove_fault ok ij f lg1 of (_, lg2) \<Rightarrow>
          if fe_cancelled e then (\<lparr>rs_recoveryMS = 0, rs_ratio = Num False 0, rs_cancelled = True\<rparr>, lg2)
          else run_faults ok ij fs (fe_elapsed e div 1000000) lg2)"

definition RunSchedule :: "(nat \<Rightarrow> bool) \<Rightarrow> Injector \<Rightarrow> FaultSpec list \<Rightarrow> fault_env list \<Rightarrow> schedule_result \<times> cmd_log" where
  "RunSchedule ok ij faults envs = run_faults ok ij (zip faults envs) 0 []"

definition RunWithContext :: "(nat \<Rightarrow> bool) \<Rightarrow> string \<Rightarrow> string \<Rightarrow> fault_env list \<Rightarrow> (int64 \<times> bool) \<times> cmd_log" where
  "RunWithContext ok iface cgroupPath envs =
     (case RunSchedule ok \<lparr>inj_iface = iface, inj_cgroupPath = cgroupPath\<rparr> DefaultFaultSchedule envs of
        (r, lg) \<Rightarrow> ((rs_recoveryMS r, rs_cancelled r), lg))"

section \<open>What the commands leave behind\<close>

text \<open>The state of the interface and of the cgroup that a log leaves, as two flags: a successful
  \<open>tc qdisc add\<close> puts an emulated network on, \<open>tc qdisc del\<close> takes it off; writing \<open>cpu.max\<close>
  limits the processor unless what is written is \<open>max\<close>.\<close>

definition cmd_effect :: "Injector \<Rightarrow> command \<times> bool \<Rightarrow> bool \<times> bool \<Rightarrow> bool \<times> bool" where
  "cmd_effect ij e st =
     (case (e, st) of ((c, ok), (netem, limited)) \<Rightarrow>
        if \<not> ok then st
        else if cmd_name c = ''tc'' \<and> take 2 (cmd_args c) = [''qdisc'', ''add''] then (True, limited)
        else if cmd_name c = ''tc'' \<and> take 2 (cmd_args c) = [''qdisc'', ''del''] then (False, limited)
        else if cmd_name c = ''sh'' then (netem, cmd_args c \<noteq> [''-c'', ''echo 'max 100000' > '' @ inj_cgroupPath ij @ ''/cpu.max''])
        else st)"

definition faults_on :: "Injector \<Rightarrow> cmd_log \<Rightarrow> bool \<times> bool" where
  "faults_on ij lg = fold (cmd_effect ij) lg (False, False)"

definition removals_succeed :: "Injector \<Rightarrow> FaultSpec list \<Rightarrow> cmd_log \<Rightarrow> bool" where
  "removals_succeed ij fs lg \<longleftrightarrow> (\<forall>(c, ok) \<in> set lg. Some c \<in> remove_cmd ij ` set fs \<longrightarrow> ok)"

lemma faults_on_append [simp]: "faults_on ij (lg @ es) = fold (cmd_effect ij) es (faults_on ij lg)"
  by (simp add: faults_on_def)

lemma removals_mono: "removals_succeed ij gs lg \<Longrightarrow> set fs \<subseteq> set gs \<Longrightarrow> removals_succeed ij fs lg"
  unfolding removals_succeed_def by blast

lemmas fault_names = NetworkDelay_def NetworkLoss_def CPUThrottle_def MemPressure_def

lemma inject_remove_effect:
  assumes off: "faults_on ij lg = (False, False)"
    and i: "inject ok ij f lg = (True, lg1)" and r: "remove_fault ok2 ij f lg1 = (b, lg2)"
    and s: "\<forall>c. remove_cmd ij f = Some c \<longrightarrow> (c, False) \<notin> set lg2"
  shows "faults_on ij lg2 = (False, False)"
proof -
  have b: "b" if "remove_cmd ij f = Some c" for c
    using r s that by (cases b) (auto simp: remove_fault_def run_opt_def runCmd_def)
  show ?thesis
    using off i r b unfolding inject_def remove_fault_def run_opt_def runCmd_def inject_cmd_def remove_cmd_def
    by (auto simp: cmd_effect_def cmd_def fault_names split: if_splits)
qed

lemma inject_failed_effect:
  "inject ok ij f lg = (False, lg1) \<Longrightarrow> faults_on ij lg1 = faults_on ij lg"
  by (auto simp: inject_def run_opt_def runCmd_def cmd_effect_def split: option.splits prod.splits)

lemma run_faults_grows: "run_faults ok ij fs rec lg = (r, lg') \<Longrightarrow> set lg \<subseteq> set lg'"
  by (induction ok ij fs rec lg rule: run_faults.induct)
    (auto simp: inject_def remove_fault_def run_opt_def runCmd_def split: if_splits option.splits prod.splits)

lemma run_faults_off:
  assumes "run_faults ok ij fs rec lg = (r, lg')" "faults_on ij lg = (False, False)"
    and "removals_succeed ij (map fst fs) lg'"
  shows "faults_on ij lg' = (False, False)"
  using assms
proof (induction ok ij fs rec lg rule: run_faults.induct)
  case (2 ok ij f e fs rec lg)
  obtain injected lg1 where i: "inject ok ij f lg = (injected, lg1)" by force
  obtain b lg2 where rm: "remove_fault ok ij f lg1 = (b, lg2)" by force
  have tl: "removals_succeed ij (map fst fs) lg'" by (rule removals_mono [OF "2.prems"(3)]) auto
  show ?case
  proof (cases "fe_done e")
    case False
    show ?thesis
    proof (cases injected)
      case True
      have sub: "set lg2 \<subseteq> set lg'"
        using "2.prems"(1) False i rm True run_faults_grows by (auto split: if_splits)
      have off: "faults_on ij lg2 = (False, False)"
      proof (rule inject_remove_effect [OF "2.prems"(2) _ rm])
        show "inject ok ij f lg = (True, lg1)" using i True by simp
        show "\<forall>c. remove_cmd ij f = Some c \<longrightarrow> (c, False) \<notin> set lg2"
        proof (intro allI impI notI)
          fix c assume c: "remove_cmd ij f = Some c" "(c, False) \<in> set lg2"
          then have "Some c \<in> remove_cmd ij ` set (map fst ((f, e) # fs))" by (metis image_eqI list.set_intros(1) list.simps(9) fst_conv)
          with sub c(2) "2.prems"(3) show False unfolding removals_succeed_def by blast
        qed
      qed
      show ?thesis
      proof (cases "fe_cancelled e")
        case True
        with "2.prems"(1) False i rm \<open>injected\<close> off show ?thesis by simp
      next
        case go: False
        have "run_faults ok ij fs (fe_elapsed e div 1000000) lg2 = (r, lg')"
          using "2.prems"(1) False i rm True go by simp
        from "2.IH"(2) [OF False i [symmetric] _ rm [symmetric] go this off tl] True show ?thesis by simp
      qed
    next
      case no: False
      have "run_faults ok ij fs rec lg1 = (r, lg')" using "2.prems"(1) False i no by simp
      moreover have "faults_on ij lg1 = (False, False)" using inject_failed_effect i no "2.prems"(2) by simp
      ultimately show ?thesis using "2.IH"(1) [OF False i [symmetric] no] tl by simp
    qed
  qed (use "2.prems" in simp)
qed simp

section \<open>Properties\<close>

text \<open>C19. A chaos schedule leaves nothing behind: whatever faults it holds, whichever of them fail to
  be injected and whenever the run is cancelled, when it returns no network emulation and no
  processor limit is on, provided the commands that remove them succeeded.\<close>

theorem schedule_removes_its_faults:
  assumes "RunSchedule ok ij faults envs = (r, lg)"
    and "removals_succeed ij faults lg"
  shows "faults_on ij lg = (False, False)"
proof (rule run_faults_off)
  show "run_faults ok ij (zip faults envs) 0 [] = (r, lg)" using assms(1) by (simp add: RunSchedule_def)
  show "faults_on ij [] = (False, False)" by (simp add: faults_on_def)
  show "removals_succeed ij (map fst (zip faults envs)) lg"
    by (rule removals_mono [OF assms(2)]) (auto dest: set_zip_leftD)
qed

definition sample_injector :: Injector where
  "sample_injector = \<lparr>inj_iface = ''br-0123456789ab'', inj_cgroupPath = ''/sys/fs/cgroup/sandbox''\<rparr>"

definition sample_wait :: fault_env where
  "sample_wait = \<lparr>fe_done = False, fe_cancelled = False, fe_elapsed = 10000200000\<rparr>"

theorem schedule_removes_its_faults_witness:
  "faults_on sample_injector (snd (RunSchedule (\<lambda>_. True) sample_injector DefaultFaultSchedule
     [sample_wait, sample_wait, sample_wait])) = (False, False)"
proof (rule schedule_removes_its_faults)
  show "RunSchedule (\<lambda>_. True) sample_injector DefaultFaultSchedule [sample_wait, sample_wait, sample_wait] =
    (fst (RunSchedule (\<lambda>_. True) sample_injector DefaultFaultSchedule [sample_wait, sample_wait, sample_wait]),
     snd (RunSchedule (\<lambda>_. True) sample_injector DefaultFaultSchedule [sample_wait, sample_wait, sample_wait]))"
    by simp
  show "removals_succeed sample_injector DefaultFaultSchedule
    (snd (RunSchedule (\<lambda>_. True) sample_injector DefaultFaultSchedule [sample_wait, sample_wait, sample_wait]))"
    unfolding removals_succeed_def
    by (simp add: RunSchedule_def DefaultFaultSchedule_def inject_def remove_fault_def run_opt_def inject_cmd_def
        remove_cmd_def runCmd_def fault_names sample_injector_def sample_wait_def)
qed

text \<open>The recovery time is the length of the last fault, not a recovery: without a cancellation
  and without a cgroup, the default schedule reports at least ten seconds and the ratio one, even
  when every command it ran failed and no fault was ever in place.\<close>

theorem recovery_is_fault_length:
  assumes "length envs = 3" "\<forall>e \<in> set envs. \<not> fe_done e \<and> \<not> fe_cancelled e \<and> 10000000000 \<le> fe_elapsed e"
  shows "\<exists>lg. RunWithContext (\<lambda>_. False) iface [] envs = ((fe_elapsed (envs ! 2) div 1000000, False), lg) \<and>
     10000 \<le> fe_elapsed (envs ! 2) div 1000000 \<and> (\<forall>(c, worked) \<in> set lg. \<not> worked)"
proof -
  obtain e1 e2 e3 where e: "envs = [e1, e2, e3]" using assms(1) by (auto simp: numeral_3_eq_3 length_Suc_conv)
  have "10000000000 div 1000000 \<le> fe_elapsed e3 div 1000000" using assms(2) e by (intro zdiv_mono1) auto
  with assms(2) show ?thesis unfolding e
    by (auto simp: RunWithContext_def RunSchedule_def DefaultFaultSchedule_def inject_def remove_fault_def run_opt_def
        inject_cmd_def remove_cmd_def runCmd_def fault_names)
qed

theorem recovery_is_fault_length_witness:
  "\<exists>lg. RunWithContext (\<lambda>_. False) ''eth0'' [] [sample_wait, sample_wait, sample_wait] = ((10000, False), lg)"
  using recovery_is_fault_length [of "[sample_wait, sample_wait, sample_wait]" "''eth0''"]
  by (auto simp: sample_wait_def)

end
