(* ===== verification/ProberSetup.thy ===== *)
theory ProberSetup
  imports Ebpf
begin

text \<open>
  The life of a prober, \<open>NewProber\<close>, \<open>Run\<close> and \<open>close\<close> of \<open>sandbox/internal/ebpf/prober.go\<close>, the
  objects it loads (\<open>tc_latency_types.go\<close>, \<open>tc_latency_load.go\<close>) and the goroutine of the manager that
  owns it. What the kernel gives and takes back is kept as a trace; whether each request succeeds is
  an argument.
\<close>

section \<open>Resources\<close>

datatype resource = TcIngress | TcEgress | IngressTs | LatencyEvents | IngressLink | EgressLink | RingReader | KafkaWriter

datatype res_event = Acquire resource | Release resource

text \<open>The loaded objects: which of the pointers are not nil.\<close>

record TcLatencyObjects =
  ob_TcIngress :: bool
  ob_TcEgress :: bool
  ob_IngressTs :: bool
  ob_LatencyEvents :: bool

definition ProgramsClose :: "TcLatencyObjects \<Rightarrow> res_event list" where
  "ProgramsClose p =
     (if ob_TcIngress p then [Release TcIngress] else []) @ (if ob_TcEgress p then [Release TcEgress] else [])"

definition MapsClose :: "TcLatencyObjects \<Rightarrow> res_event list" where
  "MapsClose m =
     (if ob_IngressTs m then [Release IngressTs] else []) @ (if ob_LatencyEvents m then [Release LatencyEvents] else [])"

definition ObjectsClose :: "TcLatencyObjects \<Rightarrow> res_event list" where
  "ObjectsClose ob = ProgramsClose ob @ MapsClose ob"

section \<open>Setting up and closing\<close>

text \<open>\<open>LoadAndAssign\<close> assigns all four objects or fails and keeps none of them.\<close>

record setup_env =
  su_memlock :: bool
  su_spec :: bool
  su_assign :: bool
  su_iface :: bool
  su_ingress :: bool
  su_egress :: bool
  su_reader :: bool

datatype setup_error = Memlock | LoadObjects | NoInterface | AttachIngress | AttachEgress | OpenRing

definition LoadTcLatencyObjects :: "setup_env \<Rightarrow> (TcLatencyObjects \<times> res_event list) option" where
  "LoadTcLatencyObjects v =
     (if \<not> su_spec v \<or> \<not> su_assign v then None
      else Some (\<lparr>ob_TcIngress = True, ob_TcEgress = True, ob_IngressTs = True, ob_LatencyEvents = True\<rparr>,
        [Acquire TcIngress, Acquire TcEgress, Acquire IngressTs, Acquire LatencyEvents]))"

definition NewProber :: "setup_env \<Rightarrow> (setup_error, TcLatencyObjects) result \<times> res_event list" where
  "NewProber v =
     (if \<not> su_memlock v then (Inl Memlock, [])
      else case LoadTcLatencyObjects v of None \<Rightarrow> (Inl LoadObjects, [])
      | Some (objs, t0) \<Rightarrow>
          if \<not> su_iface v then (Inl NoInterface, t0 @ ObjectsClose objs)
          else if \<not> su_ingress v then (Inl AttachIngress, t0 @ ObjectsClose objs)
          else let t1 = t0 @ [Acquire IngressLink] in
          if \<not> su_egress v then (Inl AttachEgress, t1 @ [Release IngressLink] @ ObjectsClose objs)
          else let t2 = t1 @ [Acquire EgressLink] in
          if \<not> su_reader v then (Inl OpenRing, t2 @ [Release EgressLink, Release IngressLink] @ ObjectsClose objs)
          else (Inr objs, t2 @ [Acquire RingReader, Acquire KafkaWriter]))"

definition prober_close :: "TcLatencyObjects \<Rightarrow> res_event list" where
  "prober_close objs =
     [Release RingReader, Release EgressLink, Release IngressLink] @ ObjectsClose objs @ [Release KafkaWriter]"

text \<open>\<open>runEBPFProber\<close>: the events published, how the loop ended, and the trace; the deferred
  \<open>close\<close> runs when \<open>Run\<close> returns or panics.\<close>

definition runEBPFProber :: "setup_env \<Rightarrow> Prober \<Rightarrow> bool \<Rightarrow> gslice option list \<Rightarrow> LatencyEvent list \<times> prober_end \<times> res_event list" where
  "runEBPFProber v p ctxDone rs =
     (case NewProber v of (Inl e, t) \<Rightarrow> ([], Stopped, t)
      | (Inr objs, t) \<Rightarrow>
          (case prober_run p ctxDone rs of (evs, e) \<Rightarrow> (evs, e, if e = Running then t else t @ prober_close objs)))"

section \<open>The loader and the stub\<close>

text \<open>\<open>loadTcLatencySpec\<close> hands the embedded bytecode to the loader of \<open>cilium/ebpf\<close>, the argument
  \<open>load\<close>, as a reader. On other systems than Linux \<open>prober_stub.go\<close> stands in: its prober takes
  nothing and its run publishes nothing.\<close>

definition loadTcLatencySpec ::
  "((8 word list \<Rightarrow> int \<Rightarrow> (8 word list \<times> nat \<times> bool) option) \<Rightarrow> 'spec option) \<Rightarrow> 8 word list \<Rightarrow> 'spec option" where
  "loadTcLatencySpec load bytecode = load (ReadAt bytecode)"

definition stub_NewProber :: "(setup_error, unit) result \<times> res_event list" where
  "stub_NewProber = (Inr (), [])"

definition stub_Run :: "unit \<Rightarrow> LatencyEvent list \<times> prober_end" where
  "stub_Run p = ([], Stopped)"

definition stub_runEBPFProber :: "LatencyEvent list \<times> prober_end \<times> res_event list" where
  "stub_runEBPFProber =
     (case stub_NewProber of (Inl e, t) \<Rightarrow> ([], Stopped, t) | (Inr p, t) \<Rightarrow> (case stub_Run p of (evs, e) \<Rightarrow> (evs, e, t)))"

section \<open>Properties\<close>

text \<open>Whether a resource is held after a trace; \<open>None\<close> when it was taken twice or given back without
  being held.\<close>

fun held_after :: "resource \<Rightarrow> bool \<Rightarrow> res_event list \<Rightarrow> bool option" where
  "held_after r h [] = Some h"
| "held_after r h (Acquire x # t) =
     (if x \<noteq> r then held_after r h t else if h then None else held_after r True t)"
| "held_after r h (Release x # t) =
     (if x \<noteq> r then held_after r h t else if h then held_after r False t else None)"

lemma held_after_append: "held_after r h (t @ u) = Option.bind (held_after r h t) (\<lambda>h'. held_after r h' u)"
  by (induction r h t rule: held_after.induct) simp_all

lemmas close_defs = prober_close_def ObjectsClose_def ProgramsClose_def MapsClose_def

lemma NewProber_failed: "NewProber v = (Inl e, t) \<Longrightarrow> held_after r False t = Some False"
  by (cases r) (auto simp: NewProber_def LoadTcLatencyObjects_def close_defs Let_def split: if_splits)

lemma NewProber_done:
  assumes "NewProber v = (Inr objs, t)"
  shows "held_after r False t = Some True" "held_after r True (prober_close objs) = Some False"
  using assms
  by (cases r; force simp: NewProber_def LoadTcLatencyObjects_def close_defs Let_def split: if_splits)+

text \<open>C14. A prober gives everything back: whichever step of setting it up fails, and however its loop
  ends, by cancellation, a read error or a panic, each of the two programs, two maps, two hooks,
  the ring buffer and the Kafka writer that was taken was taken once, is given back once, and
  none is given back that is not held.\<close>

theorem prober_gives_everything_back:
  assumes "runEBPFProber v p ctxDone rs = (evs, e, t)" "e \<noteq> Running"
  shows "held_after r False t = Some False"
proof (cases "NewProber v")
  case (Pair res t0)
  show ?thesis
  proof (cases res)
    case (Inl x)
    with Pair assms(1) have "t = t0" by (simp add: runEBPFProber_def)
    with NewProber_failed Pair Inl show ?thesis by simp
  next
    case (Inr objs)
    with Pair assms have "t = t0 @ prober_close objs"
      by (auto simp: runEBPFProber_def split: prod.splits if_splits)
    with NewProber_done [of v objs t0 r] Pair Inr show ?thesis by (simp add: held_after_append)
  qed
qed

definition sample_setup :: setup_env where
  "sample_setup = \<lparr>su_memlock = True, su_spec = True, su_assign = True, su_iface = True, su_ingress = True,
     su_egress = True, su_reader = True\<rparr>"

theorem prober_gives_everything_back_witness:
  "held_after IngressLink False (snd (snd (runEBPFProber sample_setup test_prober True [None]))) = Some False"
proof (rule prober_gives_everything_back)
  show "runEBPFProber sample_setup test_prober True [None] = (fst (runEBPFProber sample_setup test_prober True [None]),
      fst (snd (runEBPFProber sample_setup test_prober True [None])), snd (snd (runEBPFProber sample_setup test_prober True [None])))"
    by simp
  show "fst (snd (runEBPFProber sample_setup test_prober True [None])) \<noteq> Running"
    by (simp add: runEBPFProber_def NewProber_def LoadTcLatencyObjects_def sample_setup_def Let_def)
qed

text \<open>Cancelling a prober does not end it. While the ring buffer delivers records, the loop goes on
  whether the context is done or not: it handles every record, is still running after the last
  one, and its hooks stay on the interface.\<close>

theorem cancelled_prober_keeps_its_hooks:
  assumes "NewProber v = (Inr objs, t0)" "list_all (\<lambda>raw. 40 \<le> gs_len raw \<and> gs_ok raw) raws"
    and "runEBPFProber v p True (map Some raws) = (evs, e, t)"
  shows "e = Running \<and> length evs = length raws \<and>
    held_after IngressLink False t = Some True \<and> held_after EgressLink False t = Some True"
proof -
  have "prober_run p True (map Some raws) = (fst (prober_run p True (map Some raws)), Running) \<and>
      length (fst (prober_run p True (map Some raws))) = length raws"
    using assms(2)
  proof (induction raws)
    case (Cons raw raws)
    then have "\<exists>ev. parseEvent p raw = Inr ev"
      by (auto simp: parseEvent_def decode_raw_def sub_slice_def at_index_def gs_ok_def)
    with Cons show ?case by (auto split: prod.splits)
  qed simp
  with assms(1,3) have "e = Running" "length evs = length raws" "t = t0"
    by (auto simp: runEBPFProber_def split: prod.splits)
  with NewProber_done(1) [OF assms(1)] show ?thesis by simp
qed

theorem cancelled_prober_keeps_its_hooks_witness:
  "fst (snd (runEBPFProber sample_setup test_prober True (map Some [\<lparr>gs_len = 40, gs_mem = replicate 40 0\<rparr>]))) = Running"
proof -
  let ?r = "runEBPFProber sample_setup test_prober True (map Some [\<lparr>gs_len = 40, gs_mem = replicate 40 0\<rparr>])"
  obtain objs t where n: "NewProber sample_setup = (Inr objs, t)"
    by (simp add: NewProber_def LoadTcLatencyObjects_def sample_setup_def Let_def)
  have "?r = (fst ?r, fst (snd ?r), snd (snd ?r))" by simp
  from cancelled_prober_keeps_its_hooks [OF n _ this] show ?thesis by (simp add: gs_ok_def)
qed

text \<open>Off Linux a sandbox runs without a prober: nothing is taken, nothing published. A loader that reads the whole
  bytecode in one piece gets it unchanged.\<close>

lemma stub_does_nothing: "stub_runEBPFProber = ([], Stopped, [])"
  by (simp add: stub_runEBPFProber_def stub_NewProber_def stub_Run_def)

lemma loadTcLatencySpec_whole:
  assumes "length p = length b" "b \<noteq> []"
  shows "loadTcLatencySpec (\<lambda>rd. map_option fst (rd p 0)) b = Some b"
  using assms by (simp add: loadTcLatencySpec_def ReadAt_def Let_def)

end
