(* ===== verification/Upload.thy ===== *)
theory Upload
  imports Sandbox FleetServer
begin

text \<open>
  \<open>sandbox/internal/handler\<close>: the REST handlers over the manager (\<open>handler.go\<close>) and the upload of a
  contestant's binary (\<open>upload.go\<close>): form defaults, image build, start of the sandbox and the
  request that spawns the bot fleet. A panic of a handler is recovered by \<open>net/http\<close>, which
  drops the connection (\<open>Aborted\<close>).
\<close>

section \<open>Responses\<close>

datatype err_text =
    Text string
  | RunErr string run_error    \<comment> \<open>what is put before the error's text\<close>
  | StatusErr status_result
  | StopErr stop_result
  | External string            \<comment> \<open>the text of a library's error after this prefix\<close>

datatype body =
    ErrorBody err_text
  | InfoBody "Info option"     \<comment> \<open>\<open>null\<close> for a nil pointer\<close>
  | UploadBody Info string int64
  | HealthBody
  | NoBody

datatype http_reply = Reply int body | Aborted

definition writeError :: "int \<Rightarrow> err_text \<Rightarrow> http_reply" where
  "writeError code msg = Reply code (ErrorBody msg)"

section \<open>The sandbox handlers\<close>

record runRequest =
  rr_SessionID :: string
  rr_TeamName :: string
  rr_Image :: string
  rr_CPUCores :: string
  rr_MemoryMB :: int64
  rr_TimeoutS :: int64
  rr_Env :: "string list"
  rr_ChaosEnabled :: bool

definition run_config :: "runRequest \<Rightarrow> SandboxConfig" where
  "run_config req =
     \<lparr>sc_Image = rr_Image req, sc_CPUCores = rr_CPUCores req, sc_MemoryMB = rr_MemoryMB req, sc_TimeoutS = rr_TimeoutS req,
      sc_Env = rr_Env req, sc_SessionID = rr_SessionID req, sc_TeamName = rr_TeamName req, sc_ChaosEnabled = rr_ChaosEnabled req\<rparr>"

text \<open>\<open>None\<close> is a body that does not decode.\<close>

definition RunHandler :: "run_env \<Rightarrow> runRequest option \<Rightarrow> Manager \<Rightarrow> http_reply \<times> Manager" where
  "RunHandler v body m =
     (case body of None \<Rightarrow> (writeError 400 (Text ''invalid request body''), m)
      | Some req \<Rightarrow>
          if rr_Image req = [] then (writeError 400 (Text ''image is required''), m)
          else case Run v (run_config req) m of (res, m') \<Rightarrow>
            (case res of Inl IndexPanic \<Rightarrow> Aborted
             | Inl e \<Rightarrow> writeError 500 (RunErr [] e)
             | Inr info \<Rightarrow> Reply 201 (InfoBody (Some info)), m'))"

definition StatusHandler :: "(Manager \<Rightarrow> Manager) \<Rightarrow> string \<Rightarrow> string option \<Rightarrow> Manager \<Rightarrow> http_reply \<times> Manager" where
  "StatusHandler between sid state m =
     (if sid = [] then (writeError 400 (Text ''id is required''), m)
      else case Status between sid state m of (res, m') \<Rightarrow>
        (case res of StatusInfo info \<Rightarrow> Reply 200 (InfoBody info) | e \<Rightarrow> writeError 404 (StatusErr e), m'))"

definition StopHandler :: "(Manager \<Rightarrow> Manager) \<Rightarrow> string \<Rightarrow> bool \<Rightarrow> bool \<Rightarrow> Manager \<Rightarrow> http_reply \<times> Manager" where
  "StopHandler between sid stopped gone m =
     (if sid = [] then (writeError 400 (Text ''id is required''), m)
      else case Stop between sid stopped gone m of (res, m') \<Rightarrow>
        (if res = StopOk then Reply 204 NoBody else writeError 500 (StopErr res), m'))"

definition Health :: http_reply where
  "Health = Reply 200 HealthBody"

section \<open>The form\<close>

text \<open>\<open>len(s)-6\<close> is negative on a shorter string: the slice panics.\<close>

definition last_six :: "string \<Rightarrow> string option" where
  "last_six s = (if length s < 6 then None else Some (drop (length s - 6) s))"

definition scan_or :: "string \<Rightarrow> int64 \<Rightarrow> int64" where
  "scan_or v d = (case sscanf_d v of Some i \<Rightarrow> i | None \<Rightarrow> d)"

record upload_params =
  up_session :: string
  up_team :: string
  up_cpu :: string
  up_memory :: int64
  up_timeout :: int64

text \<open>\<open>form\<close> is \<open>r.FormValue\<close>, the empty string for an absent field; \<open>None\<close> is the panic.\<close>

definition form_session :: "(string \<Rightarrow> string) \<Rightarrow> int64 \<Rightarrow> string" where
  "form_session form now = (if form ''session_id'' = [] then ''s-'' @ itoa now else form ''session_id'')"

definition form_params :: "(string \<Rightarrow> string) \<Rightarrow> int64 \<Rightarrow> upload_params option" where
  "form_params form now =
     (let sessionID = form_session form now;
          team = (if form ''team_name'' = [] then map_option ((@) ''team-'') (last_six sessionID) else Some (form ''team_name''))
      in case team of None \<Rightarrow> None
         | Some teamName \<Rightarrow> Some
             \<lparr>up_session = sessionID, up_team = teamName,
              up_cpu = (if form ''cpu_cores'' = [] then ''0,1'' else form ''cpu_cores''),
              up_memory = (if form ''memory_mb'' \<noteq> [] then scan_or (form ''memory_mb'') 512 else 512),
              up_timeout = (if form ''timeout_s'' \<noteq> [] then scan_or (form ''timeout_s'') 120
                            else if form ''timeout'' \<noteq> [] then scan_or (form ''timeout'') 120 else 120)\<rparr>)"

text \<open>\<open>strings.ToLower\<close>: on ASCII text byte by byte, otherwise by the Unicode tables \<open>uni\<close>.\<close>

definition ToLower :: "(string \<Rightarrow> string) \<Rightarrow> string \<Rightarrow> string" where
  "ToLower uni s = (if list_all (\<lambda>c. (of_char c :: nat) < 128) s then map lower_char s else uni s)"

definition image_tag :: "(string \<Rightarrow> string) \<Rightarrow> string \<Rightarrow> string" where
  "image_tag uni sessionID =
     ''contestant/'' @ ToLower uni (map (\<lambda>c. if c = CHR ''_'' \<or> c = CHR '' '' then CHR ''-'' else c) sessionID) @ '':latest''"

section \<open>The image\<close>

definition maxUploadSize :: nat where "maxUploadSize = 134217728"

definition nl :: string where "nl = [CHR 0x0A]"

definition contestantDockerfile :: string where
  "contestantDockerfile =
     ''FROM alpine:3.20'' @ nl @
     ''RUN apk add --no-cache ca-certificates libstdc++ libc6-compat'' @ nl @
     ''COPY engine /engine'' @ nl @
     ''RUN chmod +x /engine'' @ nl @
     ''EXPOSE 8080'' @ nl @
     ''EXPOSE 8443'' @ nl @
     ''ENTRYPOINT ['' @ [CHR 0x22] @ ''/engine'' @ [CHR 0x22] @ '']'' @ nl"

record tar_entry =
  te_name :: string
  te_mode :: int
  te_size :: int64
  te_data :: string

definition tar_file :: "string \<Rightarrow> int \<Rightarrow> string \<Rightarrow> tar_entry" where
  "tar_file name mode data = \<lparr>te_name = name, te_mode = mode, te_size = int (length data), te_data = data\<rparr>"

definition makeBuildContext :: "string \<Rightarrow> tar_entry list" where
  "makeBuildContext engineBytes = [tar_file ''Dockerfile'' 420 contestantDockerfile, tar_file ''engine'' 493 engineBytes]"

datatype build_msg = BuildMsg string string | BadJSON    \<comment> \<open>error and stream\<close>

datatype build_error = DockerClient | ReadBinary | EmptyBinary | ImageBuildAPI | DecodeOutput | BuildFailed string

text \<open>The messages of the build's answer, up to its end of file.\<close>

fun scan_build :: "build_msg list \<Rightarrow> build_error option" where
  "scan_build [] = None"
| "scan_build (BadJSON # ms) = Some DecodeOutput"
| "scan_build (BuildMsg e s # ms) = (if e \<noteq> [] then Some (BuildFailed e) else scan_build ms)"

text \<open>What the environment returns during one build; \<open>bv_read\<close> is the file uploaded.\<close>

record build_env =
  bv_client :: bool
  bv_read :: "string option"
  bv_output :: "build_msg list option"

text \<open>The error, if any, and the build asked of the daemon: its tag and its context.\<close>

definition buildContestantImage :: "build_env \<Rightarrow> string \<Rightarrow> build_error option \<times> (string \<times> tar_entry list) list" where
  "buildContestantImage v tag =
     (if \<not> bv_client v then (Some DockerClient, [])
      else case bv_read v of None \<Rightarrow> (Some ReadBinary, [])
      | Some file \<Rightarrow>
          let engineBytes = take maxUploadSize file in
          if engineBytes = [] then (Some EmptyBinary, [])
          else let call = [(tag, makeBuildContext engineBytes)] in
            case bv_output v of None \<Rightarrow> (Some ImageBuildAPI, call)
            | Some ms \<Rightarrow> (scan_build ms, call))"

section \<open>The FIX endpoint\<close>

text \<open>\<open>net.SplitHostPort\<close>, the host only; \<open>None\<close> is its error.\<close>

definition SplitHost :: "string \<Rightarrow> string option" where
  "SplitHost hp =
     (if CHR '':'' \<notin> set hp then None
      else
        let port = rev (takeWhile (\<lambda>c. c \<noteq> CHR '':'') (rev hp)); i = length hp - length port - 1 in
        if hd hp = CHR ''['' then
          (if CHR '']'' \<notin> set hp then None
           else let e = length (takeWhile (\<lambda>c. c \<noteq> CHR '']'') hp) in
             if e + 1 \<noteq> i then None
             else if CHR ''['' \<in> set (tl hp) \<or> CHR '']'' \<in> set (drop (e + 1) hp) then None
             else Some (take (e - 1) (tl hp)))
        else
          let host = take i hp in
          if CHR '':'' \<in> set host then None
          else if CHR ''['' \<in> set hp \<or> CHR '']'' \<in> set hp then None
          else Some host)"

text \<open>\<open>url.Parse\<close> for the URLs the manager makes, \<open>http://host:port\<close> without escapes, user or
  path: the host part, or the error of a port that is not a number.\<close>

definition url_Host :: "string \<Rightarrow> string option" where
  "url_Host u =
     (let a = drop 7 u; port = rev (takeWhile (\<lambda>c. c \<noteq> CHR '':'') (rev a)) in
      if CHR '':'' \<in> set a \<and> \<not> list_all is_digit port then None else Some a)"

definition deriveFIXEndpoint :: "string \<Rightarrow> string" where
  "deriveFIXEndpoint httpEndpoint =
     (case url_Host httpEndpoint of None \<Rightarrow> []
      | Some h \<Rightarrow> (case SplitHost h of None \<Rightarrow> h | Some host \<Rightarrow> host) @ '':8443'')"

section \<open>Upload\<close>

text \<open>The request \<open>spawnFleet\<close> sends, three seconds after the upload.\<close>

definition spawn_delay :: int64 where "spawn_delay = 3000000000"

definition spawnFleet :: "string \<Rightarrow> string \<Rightarrow> string \<Rightarrow> string \<Rightarrow> int64 \<Rightarrow> spawn_body" where
  "spawnFleet endpointURL fixEndpoint sessionID teamName durationSec =
     \<lparr>sb_session_id = sessionID, sb_team_name = teamName, sb_endpoint_url = endpointURL, sb_fix_endpoint = fixEndpoint,
      sb_symbol = ''AAPL'', sb_bot_count = 1000, sb_target_tps = 1000, sb_duration_secs = durationSec\<rparr>"

record upload_env =
  uv_parsed :: bool
  uv_form :: "string \<Rightarrow> string"
  uv_now :: int64
  uv_file :: bool
  uv_build :: build_env
  uv_buildMS :: int64
  uv_run :: run_env

definition upload_config :: "upload_params \<Rightarrow> string \<Rightarrow> SandboxConfig" where
  "upload_config p tag =
     \<lparr>sc_Image = tag, sc_CPUCores = up_cpu p, sc_MemoryMB = up_memory p, sc_TimeoutS = up_timeout p,
      sc_Env = [''TEAM_NAME='' @ up_team p, ''SESSION_ID='' @ up_session p], sc_SessionID = up_session p,
      sc_TeamName = up_team p, sc_ChaosEnabled = True\<rparr>"

text \<open>What an upload does: its reply, the builds asked for, the fleets it will spawn.\<close>

record upload_outcome =
  uo_reply :: http_reply
  uo_builds :: "(string \<times> tar_entry list) list"
  uo_fleets :: "spawn_body list"

definition upload_stop :: "http_reply \<Rightarrow> (string \<times> tar_entry list) list \<Rightarrow> upload_outcome" where
  "upload_stop r bs = \<lparr>uo_reply = r, uo_builds = bs, uo_fleets = []\<rparr>"

definition upload_run :: "upload_env \<Rightarrow> string \<Rightarrow> upload_params \<Rightarrow> string \<Rightarrow> (string \<times> tar_entry list) list \<Rightarrow> Manager \<Rightarrow> upload_outcome \<times> Manager" where
  "upload_run v botFleetAddr p tag builds m =
     (case Run (uv_run v) (upload_config p tag) m of (res, m') \<Rightarrow>
        (case res of Inl IndexPanic \<Rightarrow> upload_stop Aborted builds
         | Inl e \<Rightarrow> upload_stop (writeError 500 (RunErr ''start sandbox: '' e)) builds
         | Inr info \<Rightarrow>
             \<lparr>uo_reply = Reply 201 (UploadBody info tag (uv_buildMS v)), uo_builds = builds,
              uo_fleets = (if botFleetAddr \<noteq> []
                then [spawnFleet (in_Endpoint info) (deriveFIXEndpoint (in_Endpoint info)) (up_session p) (up_team p) (up_timeout p)]
                else [])\<rparr>, m'))"

definition Upload :: "(string \<Rightarrow> string) \<Rightarrow> string \<Rightarrow> upload_env \<Rightarrow> Manager \<Rightarrow> upload_outcome \<times> Manager" where
  "Upload uni botFleetAddr v m =
     (if \<not> uv_parsed v then (upload_stop (writeError 400 (External ''parse form: '')) [], m)
      else case form_params (uv_form v) (uv_now v) of None \<Rightarrow> (upload_stop Aborted [], m)
      | Some p \<Rightarrow>
          if \<not> uv_file v then (upload_stop (writeError 400 (External ''binary field required: '')) [], m)
          else
            let tag = image_tag uni (up_session p) in
            case buildContestantImage (uv_build v) tag of (err, builds) \<Rightarrow>
              (case err of Some e \<Rightarrow> (upload_stop (writeError 500 (External ''docker build: '')) builds, m)
               | None \<Rightarrow> upload_run v botFleetAddr p tag builds m))"

section \<open>Facts\<close>

lemma Run_Inr:
  assumes "Run v cfg m = (Inr info, m')"
  shows "mg_sandboxes m' = (mg_sandboxes m)(in_ID info \<mapsto> info)" "in_Image info = sc_Image cfg"
    "in_SessionID info = sc_SessionID cfg" "in_TeamName info = sc_TeamName cfg"
    "\<exists>cid. mg_tasks m' = mg_tasks m + new_tasks (run_defaults cfg) cid (in_ID info) (in_EBPFIface info) m"
    "\<exists>addrs. in_Endpoint info = ''http://'' @ container_ip m addrs @ '':'' @ itoa (container_port m (rv_port v))"
proof -
  have k: "sc_Image (run_defaults cfg) = sc_Image cfg" "sc_SessionID (run_defaults cfg) = sc_SessionID cfg"
    "sc_TeamName (run_defaults cfg) = sc_TeamName cfg"
    by (simp_all add: run_defaults_def Let_def)
  have d: "container_ip (dcall c m) addrs = container_ip m addrs" "container_port (dcall c m) port = container_port m port"
    "mg_kafka (dcall c m) = mg_kafka m" for c m addrs port
    by (simp_all add: container_ip_def container_port_def useHostNet_def dcall_def)
  have n: "new_tasks cfg cid sid i (dcall c m) = new_tasks cfg cid sid i m"
    "new_tasks cfg cid sid i (register info m) = new_tasks cfg cid sid i m" for cfg cid sid i info c m
    by (simp_all add: new_tasks_def register_def Let_def d)
  show "mg_sandboxes m' = (mg_sandboxes m)(in_ID info \<mapsto> info)" "in_Image info = sc_Image cfg"
    "in_SessionID info = sc_SessionID cfg" "in_TeamName info = sc_TeamName cfg"
    "\<exists>cid. mg_tasks m' = mg_tasks m + new_tasks (run_defaults cfg) cid (in_ID info) (in_EBPFIface info) m"
    "\<exists>addrs. in_Endpoint info = ''http://'' @ container_ip m addrs @ '':'' @ itoa (container_port m (rv_port v))"
    using assms k
    by (auto simp: Run_def run_register_def Let_def sandbox_info_def d n split: option.splits if_splits)
qed

lemma Run_Inl: "Run v cfg m = (Inl e, m') \<Longrightarrow> mg_sandboxes m' = mg_sandboxes m"
  by (auto simp: Run_def run_register_def Let_def split: option.splits if_splits)

lemma Run_Inl_tasks: "Run v cfg m = (Inl e, m') \<Longrightarrow> mg_tasks m' = mg_tasks m"
  by (auto simp: Run_def run_register_def Let_def split: option.splits if_splits)

lemma Upload_cases:
  assumes "Upload uni addr v m = (out, m')"
  obtains (stopped) "uo_fleets out = []" "mg_sandboxes m' = mg_sandboxes m" "\<forall>i t ms. uo_reply out \<noteq> Reply 201 (UploadBody i t ms)"
  | (up) p info bin where "form_params (uv_form v) (uv_now v) = Some p" "bv_read (uv_build v) = Some bin"
      "Run (uv_run v) (upload_config p (image_tag uni (up_session p))) m = (Inr info, m')"
      "uo_reply out = Reply 201 (UploadBody info (image_tag uni (up_session p)) (uv_buildMS v))"
      "uo_builds out = [(image_tag uni (up_session p), makeBuildContext (take maxUploadSize bin))]"
      "uo_fleets out = (if addr \<noteq> [] then [spawnFleet (in_Endpoint info) (deriveFIXEndpoint (in_Endpoint info))
         (up_session p) (up_team p) (up_timeout p)] else [])"
proof (cases "uv_parsed v \<and> uv_file v \<and> (\<exists>p. form_params (uv_form v) (uv_now v) = Some p \<and>
    fst (buildContestantImage (uv_build v) (image_tag uni (up_session p))) = None)")
  case False
  then have "uo_fleets out = [] \<and> mg_sandboxes m' = mg_sandboxes m \<and> (\<forall>i t ms. uo_reply out \<noteq> Reply 201 (UploadBody i t ms))"
    using assms by (auto simp: Upload_def upload_stop_def writeError_def Let_def split: option.splits if_splits prod.splits)
  then show ?thesis using stopped by blast
next
  case True
  then obtain p where p: "uv_parsed v" "uv_file v" "form_params (uv_form v) (uv_now v) = Some p"
    "fst (buildContestantImage (uv_build v) (image_tag uni (up_session p))) = None" by blast
  let ?tag = "image_tag uni (up_session p)"
  obtain bin where b: "bv_read (uv_build v) = Some bin"
    "buildContestantImage (uv_build v) ?tag = (None, [(?tag, makeBuildContext (take maxUploadSize bin))])"
    using p(4) by (auto simp: buildContestantImage_def Let_def split: option.splits if_splits)
  have out: "upload_run v addr p ?tag [(?tag, makeBuildContext (take maxUploadSize bin))] m = (out, m')"
    using assms p b by (simp add: Upload_def Let_def)
  obtain res m2 where r: "Run (uv_run v) (upload_config p ?tag) m = (res, m2)" by force
  show ?thesis
  proof (cases res)
    case (Inl e)
    with r out show ?thesis
      by (intro stopped) (auto simp: upload_run_def upload_stop_def writeError_def dest: Run_Inl split: run_error.splits)
  next
    case (Inr info)
    with r out p(3) b(1) show ?thesis by (intro up [of p bin info]) (auto simp: upload_run_def)
  qed
qed

lemma port_of_endpoint:
  assumes "0 \<le> port"
  shows "takeWhile (\<lambda>c. c \<noteq> CHR '':'') (rev (itoa port) @ CHR '':'' # xs) = rev (itoa port)"
proof -
  have "\<forall>c \<in> set (itoa port). c \<noteq> CHR '':''"
    using nat_digits_all [of "nat port"] assms by (auto simp: itoa_def is_digit_def)
  then show ?thesis by (subst takeWhile_append2) auto
qed

lemma derive_plain:
  assumes "0 \<le> port" "host \<noteq> []" "CHR '':'' \<notin> set host" "CHR ''['' \<notin> set host" "CHR '']'' \<notin> set host"
  shows "deriveFIXEndpoint (''http://'' @ host @ '':'' @ itoa port) = host @ '':8443''"
proof -
  have d: "list_all is_digit (itoa port)" using nat_digits_all [of "nat port"] assms(1) by (auto simp: itoa_def list_all_iff)
  then have b: "CHR ''['' \<notin> set (itoa port)" "CHR '']'' \<notin> set (itoa port)" by (auto simp: list_all_iff is_digit_def)
  note pe = port_of_endpoint [OF assms(1)]
  have u: "url_Host (''http://'' @ host @ '':'' @ itoa port) = Some (host @ CHR '':'' # itoa port)"
    using pe d by (simp add: url_Host_def Let_def)
  have "hd (host @ CHR '':'' # itoa port) \<noteq> CHR ''[''" using assms(2,4) by (cases host) auto
  then have "SplitHost (host @ CHR '':'' # itoa port) = Some host"
    using pe assms(3-5) b unfolding SplitHost_def Let_def by simp
  with u show ?thesis by (simp add: deriveFIXEndpoint_def)
qed

section \<open>Properties\<close>

definition sample_upload :: upload_env where
  "sample_upload =
     \<lparr>uv_parsed = True, uv_form = (\<lambda>k. if k = ''session_id'' then ''bench_01'' else []), uv_now = 1700000000000000000, uv_file = True,
      uv_build = \<lparr>bv_client = True, bv_read = Some ''ELF'', bv_output = Some [BuildMsg [] ''Step 1/7'']\<rparr>,
      uv_buildMS = 900, uv_run = sample_env\<rparr>"

abbreviation sample_done :: "upload_outcome \<times> Manager" where
  "sample_done \<equiv> Upload id ''http://botfleet:9091'' sample_upload sample_manager"

lemma sample_Run: "\<exists>info m'. Run sample_env cfg sample_manager = (Inr info, m')"
  by (simp add: Run_def run_register_def sample_env_def resolveBridgeIface_def Let_def)

lemma sample_params:
  "form_params (uv_form sample_upload) (uv_now sample_upload) =
     Some \<lparr>up_session = ''bench_01'', up_team = ''team-nch_01'', up_cpu = ''0,1'', up_memory = 512, up_timeout = 120\<rparr>"
  by (simp add: form_params_def form_session_def sample_upload_def last_six_def Let_def)

lemma sample_uploaded:
  obtains info tag ms b where "uo_reply (fst sample_done) = Reply 201 (UploadBody info tag ms)" "uo_fleets (fst sample_done) = [b]"
proof -
  let ?p = "\<lparr>up_session = ''bench_01'', up_team = ''team-nch_01'', up_cpu = ''0,1'', up_memory = 512, up_timeout = 120\<rparr>"
  obtain info m' where r: "Run sample_env (upload_config ?p (image_tag id ''bench_01'')) sample_manager = (Inr info, m')"
    using sample_Run by blast
  have "buildContestantImage (uv_build sample_upload) tag = (None, [(tag, makeBuildContext ''ELF'')])" for tag
    by (simp add: buildContestantImage_def sample_upload_def maxUploadSize_def Let_def)
  with r show thesis
    by (intro that [of info]) (auto simp: Upload_def sample_params upload_run_def Let_def, simp_all add: sample_upload_def)
qed

text \<open>C24. An upload starts one benchmark or nothing. When the reply is 201, the sandbox it names is
  listed under its id, one image was built from the Dockerfile and at most 128 MiB of the uploaded
  file, the sandbox runs that image, and, if a bot fleet is configured, one fleet is spawned for
  the sandbox's endpoint and session. In every other case no fleet is spawned and the registry
  is what it was.\<close>

theorem upload_starts_one_benchmark:
  assumes "Upload uni addr v m = (out, m')"
  shows "(\<exists>info tag ms bin. uo_reply out = Reply 201 (UploadBody info tag ms) \<and>
            mg_sandboxes m' = (mg_sandboxes m)(in_ID info \<mapsto> info) \<and> in_Image info = tag \<and>
            bv_read (uv_build v) = Some bin \<and> uo_builds out = [(tag, makeBuildContext (take maxUploadSize bin))] \<and>
            length (uo_fleets out) = (if addr = [] then 0 else 1) \<and>
            list_all (\<lambda>b. sb_endpoint_url b = in_Endpoint info \<and> sb_session_id b = in_SessionID info \<and>
              sb_team_name b = in_TeamName info) (uo_fleets out)) \<or>
         (\<forall>info tag ms. uo_reply out \<noteq> Reply 201 (UploadBody info tag ms)) \<and>
            uo_fleets out = [] \<and> mg_sandboxes m' = mg_sandboxes m"
proof (cases rule: Upload_cases [OF assms])
  case 1
  then show ?thesis by blast
next
  case (2 p info bin)
  note r = Run_Inr [OF 2(3)]
  have "in_Image info = image_tag uni (up_session p)" "in_SessionID info = up_session p" "in_TeamName info = up_team p"
    using r(2-4) by (simp_all add: upload_config_def)
  with 2 r(1) show ?thesis
    by (intro disjI1 exI [of _ info] exI [of _ "image_tag uni (up_session p)"] exI [of _ "uv_buildMS v"] exI [of _ bin])
      (simp add: spawnFleet_def)
qed

theorem upload_starts_one_benchmark_witness:
  "\<exists>info. mg_sandboxes (snd sample_done) = (mg_sandboxes sample_manager)(in_ID info \<mapsto> info) \<and>
     length (uo_fleets (fst sample_done)) = 1"
proof -
  obtain info tag ms b where r: "uo_reply (fst sample_done) = Reply 201 (UploadBody info tag ms)" "uo_fleets (fst sample_done) = [b]"
    by (rule sample_uploaded)
  from upload_starts_one_benchmark [OF surjective_pairing, of id "''http://botfleet:9091''" sample_upload sample_manager] r
  show ?thesis by auto
qed

text \<open>Without a team name, a session id of one to five characters panics the upload handler
  before the file is looked at: the connection is dropped and nothing is built or started. This is
  the only form that panics, the clock being past 1970.\<close>

theorem upload_panics_on_short_session:
  assumes "uv_parsed v" "1000 \<le> uv_now v"
  shows "(form_params (uv_form v) (uv_now v) = None \<longleftrightarrow>
       uv_form v ''team_name'' = [] \<and> uv_form v ''session_id'' \<noteq> [] \<and> length (uv_form v ''session_id'') \<le> 5) \<and>
    (form_params (uv_form v) (uv_now v) = None \<longrightarrow> Upload uni addr v m = (upload_stop Aborted [], m))"
proof -
  have "6 \<le> length (''s-'' @ itoa (uv_now v))"
  proof -
    have "length (nat_digits n) \<ge> 4" if "1000 \<le> n" for n
    proof -
      have n: "nat_digits n = nat_digits (n div 10) @ [digit_char (n mod 10)]"
        "nat_digits (n div 10) = nat_digits (n div 10 div 10) @ [digit_char (n div 10 mod 10)]"
        "nat_digits (n div 10 div 10) = nat_digits (n div 10 div 10 div 10) @ [digit_char (n div 10 div 10 mod 10)]"
        using that by (subst nat_digits.simps, simp)+
      have "1 \<le> length (nat_digits (n div 10 div 10 div 10))" by (simp add: Suc_le_eq)
      then show ?thesis unfolding n(1) n(2) n(3) by simp
    qed
    from this [of "nat (uv_now v)"] assms(2) show ?thesis by (simp add: itoa_def)
  qed
  then have "form_params (uv_form v) (uv_now v) = None \<longleftrightarrow>
      uv_form v ''team_name'' = [] \<and> uv_form v ''session_id'' \<noteq> [] \<and> length (uv_form v ''session_id'') \<le> 5"
    by (auto simp: form_params_def form_session_def last_six_def Let_def)
  moreover have "Upload uni addr v m = (upload_stop Aborted [], m)" if "form_params (uv_form v) (uv_now v) = None"
    using that assms(1) by (simp add: Upload_def)
  ultimately show ?thesis by blast
qed

theorem upload_panics_on_short_session_witness:
  "fst (Upload id [] (sample_upload\<lparr>uv_form := (\<lambda>k. if k = ''session_id'' then ''s1'' else [])\<rparr>) sample_manager) =
     upload_stop Aborted []"
  using upload_panics_on_short_session [of "sample_upload\<lparr>uv_form := (\<lambda>k. if k = ''session_id'' then ''s1'' else [])\<rparr>" id "[]" sample_manager]
  by (simp add: sample_upload_def)

text \<open>A binary of more than 128 MiB is not refused but cut: the build goes through with the
  first 128 MiB as the engine, and its answer alone decides whether the upload goes on.\<close>

theorem oversized_binary_is_truncated:
  assumes "bv_client v" "bv_read v = Some bin" "maxUploadSize < length bin" "bv_output v = Some ms"
  shows "buildContestantImage v tag = (scan_build ms, [(tag, makeBuildContext (take maxUploadSize bin))]) \<and>
    map te_size (makeBuildContext (take maxUploadSize bin)) = [int (length contestantDockerfile), 134217728]"
proof -
  have "take maxUploadSize bin \<noteq> []" using assms(3) by (auto simp: maxUploadSize_def)
  with assms show ?thesis by (simp add: buildContestantImage_def Let_def makeBuildContext_def tar_file_def maxUploadSize_def)
qed

theorem oversized_binary_is_truncated_witness:
  "fst (buildContestantImage \<lparr>bv_client = True, bv_read = Some (replicate 134217729 CHR ''x''), bv_output = Some []\<rparr> ''t'') = None"
  using oversized_binary_is_truncated [of "\<lparr>bv_client = True, bv_read = Some (replicate 134217729 CHR ''x''), bv_output = Some []\<rparr>"
      "replicate 134217729 CHR ''x''" "[]" "''t''"]
  by (simp add: maxUploadSize_def)

text \<open>The FIX endpoint handed to the bots is the sandbox's address with port 8443, whatever port
  the sandbox listens on. On the host network every sandbox has the same address, so all of them
  get one and the same FIX endpoint although their REST ports differ.\<close>

theorem fix_endpoint_is_shared_on_host_network:
  assumes "Run v cfg m = (Inr info, m')" "useHostNet m" "rv_port v = Some port" "0 \<le> port"
  shows "in_Endpoint info = ''http://host.docker.internal:'' @ itoa port \<and>
    deriveFIXEndpoint (in_Endpoint info) = ''host.docker.internal:8443''"
proof -
  have "in_Endpoint info = ''http://'' @ ''host.docker.internal'' @ '':'' @ itoa port"
    using Run_Inr(6) [OF assms(1)] assms(2,3) by (auto simp: container_ip_def container_port_def)
  moreover have "deriveFIXEndpoint (''http://'' @ ''host.docker.internal'' @ '':'' @ itoa port) = ''host.docker.internal'' @ '':8443''"
    by (rule derive_plain [OF assms(4)]) simp_all
  ultimately show ?thesis by simp
qed

definition sample_host_manager :: Manager where
  "sample_host_manager = sample_manager\<lparr>mg_sandboxNetwork := ''host'', mg_insecure := True\<rparr>"

theorem fix_endpoint_is_shared_on_host_network_witness:
  "\<exists>info. fst (Run (sample_env\<lparr>rv_port := Some 40123\<rparr>) sample_config sample_host_manager) = Inr info \<and>
     deriveFIXEndpoint (in_Endpoint info) = ''host.docker.internal:8443''"
proof -
  have "\<exists>info m'. Run (sample_env\<lparr>rv_port := Some 40123\<rparr>) sample_config sample_host_manager = (Inr info, m')"
    by (simp add: Run_def run_register_def sample_env_def resolveBridgeIface_def Let_def)
  then obtain info m' where r: "Run (sample_env\<lparr>rv_port := Some 40123\<rparr>) sample_config sample_host_manager = (Inr info, m')" by blast
  have "useHostNet sample_host_manager" "rv_port (sample_env\<lparr>rv_port := Some 40123\<rparr>) = Some 40123"
    by (simp_all add: useHostNet_def sample_host_manager_def)
  from fix_endpoint_is_shared_on_host_network [OF r this] r show ?thesis by force
qed

text \<open>The fleet of an upload outlives its sandbox. The sandbox is stopped when the timeout of the
  form is over, while the fleet, which starts three seconds later, runs for that time in full; a
  timeout given as 0 means 120 seconds to the sandbox and 60 to the fleet.\<close>

theorem fleet_and_sandbox_times:
  assumes "Upload uni addr v m = (out, m')" "b \<in> set (uo_fleets out)"
    and "handle_spawn uuid (Some b) s = (Spawned fid, s')" "sv_fleets s' fid = Some f"
    and "form_params (uv_form v) (uv_now v) = Some p" "0 \<le> up_timeout p" "up_timeout p < 9000000000"
  shows "\<exists>cid sid ns. EnforceTimeout cid sid ns \<in># mg_tasks m' - mg_tasks m \<and>
    (if up_timeout p = 0 then ns = 120000000000 \<and> run_timeout (fl_cfg f) = 60000000000
     else run_timeout (fl_cfg f) = ns \<and> ns < spawn_delay + run_timeout (fl_cfg f))"
proof (cases rule: Upload_cases [OF assms(1)])
  case 1
  with assms(2) show ?thesis by simp
next
  case (2 q info bin)
  have q: "q = p" using 2(1) assms(5) by simp
  let ?cfg = "upload_config p (image_tag uni (up_session p))"
  obtain cid where t: "mg_tasks m' = mg_tasks m + new_tasks (run_defaults ?cfg) cid (in_ID info) (in_EBPFIface info) m"
    using Run_Inr(5) [OF 2(3)] unfolding q by blast
  define ns where "ns = wrap64 (sc_TimeoutS (run_defaults ?cfg) * 1000000000)"
  have mem: "EnforceTimeout cid (in_ID info) ns \<in># mg_tasks m' - mg_tasks m"
    unfolding t by (simp add: new_tasks_def ns_def)
  have ns: "ns = (if up_timeout p = 0 then 120 else up_timeout p) * 1000000000"
    using assms(6,7) by (simp add: ns_def run_defaults_def upload_config_def Let_def wrap64_id in64_def)
  have "sb_duration_secs b = up_timeout p" using 2(6) assms(2) by (simp add: q spawnFleet_def split: if_splits)
  then have "sb_duration_secs (spawn_defaults b) = (if up_timeout p = 0 then 60 else up_timeout p)"
    by (simp add: spawn_defaults_def Let_def)
  moreover have "f = NewFleet (fleet_cfg (sv_baseCfg s) fid (spawn_request (spawn_defaults b)))"
    using assms(3,4) by (auto simp: handle_spawn_def SpawnFleet_def Let_def)
  ultimately have "run_timeout (fl_cfg f) = (if up_timeout p = 0 then 60 else up_timeout p) * 1000000000"
    using assms(6,7)
    by (simp add: run_timeout_def NewFleet_def fleet_cfg_def spawn_request_def Let_def wrap64_id in64_def)
  with mem ns show ?thesis
    by (intro exI [of _ cid] exI [of _ "in_ID info"] exI [of _ ns]) (auto simp: spawn_delay_def)
qed

theorem fleet_and_sandbox_times_witness:
  "\<exists>b (f :: Fleet) cid sid. b \<in> set (uo_fleets (fst sample_done)) \<and>
     EnforceTimeout cid sid (run_timeout (fl_cfg f)) \<in># mg_tasks (snd sample_done) - mg_tasks sample_manager"
proof -
  obtain info tag ms b where r: "uo_reply (fst sample_done) = Reply 201 (UploadBody info tag ms)" "uo_fleets (fst sample_done) = [b]"
    by (rule sample_uploaded)
  let ?s = "NewServer test_fleet_cfg"
  let ?h = "handle_spawn ''0123456789'' (Some b) ?s"
  have h: "?h = (Spawned ''fleet-01234567'', snd ?h)" "\<exists>f. sv_fleets (snd ?h) ''fleet-01234567'' = Some f"
    by (simp_all add: handle_spawn_def SpawnFleet_def Let_def fleet_id_def NewServer_def)
  then obtain f where f: "sv_fleets (snd ?h) ''fleet-01234567'' = Some f" by blast
  have b: "b \<in> set (uo_fleets (fst sample_done))" using r(2) by simp
  from fleet_and_sandbox_times [OF surjective_pairing b h(1) f sample_params]
  have "\<exists>cid sid. EnforceTimeout cid sid (run_timeout (fl_cfg f)) \<in># mg_tasks (snd sample_done) - mg_tasks sample_manager"
    by auto
  with b show ?thesis by blast
qed

text \<open>Every bot of an upload works for the sandbox the upload started: a thousand bots are spawned,
  each sends one order per second, under the session of the sandbox and to its endpoints.\<close>

theorem upload_spawns_a_thousand_bots:
  assumes "Upload uni addr v m = (out, m')" "b \<in> set (uo_fleets out)" "uo_reply out = Reply 201 (UploadBody info tag ms)"
    and "handle_spawn uuid (Some b) s = (Spawned fid, s')" "sv_fleets s' fid = Some f"
  shows "length (fst (spawnBots f)) = 1000 \<and> fg_EndpointURL (fl_cfg f) = in_Endpoint info \<and>
    list_all (\<lambda>(a, bc). bc_SessionID bc = in_SessionID info \<and> bc_TargetTPS bc = 1 \<and>
      bc_FIXEndpoint bc = deriveFIXEndpoint (in_Endpoint info)) (fst (spawnBots f))"
proof (cases rule: Upload_cases [OF assms(1)])
  case 1
  with assms(2) show ?thesis by simp
next
  case (2 p info' bin)
  have info: "info' = info" "in_SessionID info = up_session p"
    using 2(4) assms(3) Run_Inr(3) [OF 2(3)] by (simp_all add: upload_config_def)
  have b: "b = spawnFleet (in_Endpoint info) (deriveFIXEndpoint (in_Endpoint info)) (up_session p) (up_team p) (up_timeout p)"
    using 2(6) assms(2) by (simp add: info split: if_splits)
  have f: "f = NewFleet (fleet_cfg (sv_baseCfg s) fid (spawn_request (spawn_defaults b)))"
    using assms(4,5) by (auto simp: handle_spawn_def SpawnFleet_def Let_def)
  have mix: "fg_Mix (fl_cfg f) = default_mix 1000" and rest: "fg_TargetTPS (fl_cfg f) = 1000"
      "fg_EndpointURL (fl_cfg f) = in_Endpoint info" "fg_SessionID (fl_cfg f) = up_session p"
      "fg_FIXEndpoint (fl_cfg f) = deriveFIXEndpoint (in_Endpoint info)"
    unfolding f b by (simp_all add: NewFleet_def fleet_cfg_def spawn_request_def spawn_defaults_def spawnFleet_def Let_def)
  have len: "int (length (roster (default_mix 1000))) = 1000"
    using default_mix_roster [of 1000] by (simp add: in32_def)
  have "totalBots (fl_cfg f) = 1000"
    unfolding totalBots_def mix by (simp add: default_mix_def Let_def go_div_def wrap64_id in64_def)
  then have "perBotTPS (fl_cfg f) = 1" using perBotTPS_pos [of "fl_cfg f"] rest(1) by simp
  with len rest info show ?thesis
    by (simp add: spawnBots_bots mix list_all_iff botCfg_def)
qed

theorem upload_spawns_a_thousand_bots_witness:
  "\<exists>b (f :: Fleet). b \<in> set (uo_fleets (fst sample_done)) \<and> list_all (\<lambda>(a, bc). bc_TargetTPS bc = 1) (fst (spawnBots f)) \<and> length (fst (spawnBots f)) = 1000"
proof -
  obtain info tag ms b where r: "uo_reply (fst sample_done) = Reply 201 (UploadBody info tag ms)" "uo_fleets (fst sample_done) = [b]"
    by (rule sample_uploaded)
  let ?s = "NewServer test_fleet_cfg"
  let ?h = "handle_spawn ''0123456789'' (Some b) ?s"
  have h: "?h = (Spawned ''fleet-01234567'', snd ?h)" "\<exists>f. sv_fleets (snd ?h) ''fleet-01234567'' = Some f"
    by (simp_all add: handle_spawn_def SpawnFleet_def Let_def fleet_id_def NewServer_def)
  then obtain f where f: "sv_fleets (snd ?h) ''fleet-01234567'' = Some f" by blast
  have "b \<in> set (uo_fleets (fst sample_done))" using r(2) by simp
  moreover from upload_spawns_a_thousand_bots [OF surjective_pairing this r(1) h(1) f]
  have "list_all (\<lambda>(a, bc). bc_TargetTPS bc = 1) (fst (spawnBots f)) \<and> length (fst (spawnBots f)) = 1000"
    by (auto simp: list_all_iff)
  ultimately show ?thesis by blast
qed

text \<open>C25. A request that fails changes nothing it should not. Run and upload answer 201, 400 or 500 (or
  panic), status 200, 400 or 404, stop 204, 400 or 500; a request answered 400 leaves the manager as it was; a run
  answered with an error registers no sandbox and starts no goroutine, and a failed upload also
  spawns no fleet; a failed status query changes no entry.\<close>

theorem failed_requests_change_nothing:
  "(case RunHandler rv body m of (r, m') \<Rightarrow> \<exists>b. r = Aborted \<or> r = Reply 201 b \<or> (r = Reply 400 b \<and> m' = m) \<or>
      r = Reply 500 b \<and> mg_sandboxes m' = mg_sandboxes m \<and> mg_tasks m' = mg_tasks m) \<and>
   (case StatusHandler (\<lambda>m. m) sid st m of (r, m') \<Rightarrow>
      \<exists>b. r = Reply 200 b \<or> (r = Reply 400 b \<and> m' = m) \<or> (r = Reply 404 b \<and> mg_sandboxes m' = mg_sandboxes m)) \<and>
   (case StopHandler between sid stopped gone m of (r, m') \<Rightarrow>
      \<exists>b. r = Reply 204 b \<or> (r = Reply 400 b \<and> m' = m) \<or> r = Reply 500 b) \<and>
   (case Upload uni addr v m of (out, m') \<Rightarrow>
      \<exists>b. uo_reply out = Aborted \<or> uo_reply out = Reply 201 b \<or>
        uo_fleets out = [] \<and> ((uo_reply out = Reply 400 b \<and> m' = m) \<or>
          (uo_reply out = Reply 500 b \<and> mg_sandboxes m' = mg_sandboxes m \<and> mg_tasks m' = mg_tasks m)))"
proof (intro conjI)
  show "case RunHandler rv body m of (r, m') \<Rightarrow> \<exists>b. r = Aborted \<or> r = Reply 201 b \<or> (r = Reply 400 b \<and> m' = m) \<or>
      r = Reply 500 b \<and> mg_sandboxes m' = mg_sandboxes m \<and> mg_tasks m' = mg_tasks m"
    by (auto simp: RunHandler_def writeError_def dest: Run_Inl Run_Inl_tasks
        split: option.splits if_splits prod.splits sum.splits run_error.splits)
  show "case StatusHandler (\<lambda>m. m) sid st m of (r, m') \<Rightarrow>
      \<exists>b. r = Reply 200 b \<or> (r = Reply 400 b \<and> m' = m) \<or> (r = Reply 404 b \<and> mg_sandboxes m' = mg_sandboxes m)"
    by (auto simp: StatusHandler_def Status_def writeError_def Let_def split: option.splits if_splits)
  show "case StopHandler between sid stopped gone m of (r, m') \<Rightarrow> \<exists>b. r = Reply 204 b \<or> (r = Reply 400 b \<and> m' = m) \<or> r = Reply 500 b"
    by (auto simp: StopHandler_def writeError_def split: if_splits prod.splits)
  show "case Upload uni addr v m of (out, m') \<Rightarrow> \<exists>b. uo_reply out = Aborted \<or> uo_reply out = Reply 201 b \<or>
        uo_fleets out = [] \<and> ((uo_reply out = Reply 400 b \<and> m' = m) \<or>
          (uo_reply out = Reply 500 b \<and> mg_sandboxes m' = mg_sandboxes m \<and> mg_tasks m' = mg_tasks m))"
    by (auto simp: Upload_def upload_run_def upload_stop_def writeError_def Let_def dest: Run_Inl Run_Inl_tasks
        split: option.splits if_splits prod.splits sum.splits run_error.splits)
qed

end
