(* ===== verification/Json.thy ===== *)
theory Json
  imports GoText "HOL-Library.Monad_Syntax" "HOL-Library.Char_ord" "HOL-Library.List_Lexorder"
begin

text \<open>
  What the services use of Go's \<open>encoding/json\<close>: values as \<open>Marshal\<close> renders them and the decoding
  of an object into the fields of a struct. A float is rendered by the shortest decimal that
  reads back as the same number, so \<open>JFloat\<close> carries the number itself; a nil slice or map,
  \<open>null\<close> in the text, is the empty one. The locale \<open>wire\<close> is the contract between the encoder of one
  service and the decoder of another.
\<close>

section \<open>Values\<close>

datatype json =
    JNull
  | JBool bool
  | JStr string
  | JInt int
  | JFloat float64
  | JArr "json list"
  | JObj "(string \<times> json) list"

text \<open>\<open>Marshal\<close> refuses NaN and the infinities.\<close>

fun renderable :: "json \<Rightarrow> bool" where
  "renderable (JFloat x) = is_fin x"
| "renderable (JArr js) = list_all renderable js"
| "renderable (JObj o1) = list_all (\<lambda>(k, j). renderable j) o1"
| "renderable _ = True"

definition Marshal :: "json \<Rightarrow> json option" where
  "Marshal j = (if renderable j then Some j else None)"

section \<open>Decoding values\<close>

text \<open>A decoder takes the value the field has so far; \<open>null\<close> leaves it. \<open>None\<close> is the type error that
  \<open>Unmarshal\<close> reports at the end.\<close>

type_synonym 'a decoder = "'a \<Rightarrow> json \<Rightarrow> 'a option"

definition dec_str :: "string decoder" where
  "dec_str v j = (case j of JNull \<Rightarrow> Some v | JStr s \<Rightarrow> Some s | _ \<Rightarrow> None)"

definition dec_bool :: "bool decoder" where
  "dec_bool v j = (case j of JNull \<Rightarrow> Some v | JBool b \<Rightarrow> Some b | _ \<Rightarrow> None)"

text \<open>The integer a number's text is, if it has neither fraction nor exponent; floats of 10^21 and
  more are rendered with one.\<close>

definition int_text :: "json \<Rightarrow> int option" where
  "int_text j =
     (case j of JInt n \<Rightarrow> Some n
      | JFloat x \<Rightarrow> (if is_fin x \<and> \<bar>fval x\<bar> < 10 ^ 21 \<and> of_int \<lfloor>fval x\<rfloor> = fval x then Some \<lfloor>fval x\<rfloor> else None)
      | _ \<Rightarrow> None)"

text \<open>Into an integer type with the range \<open>lo\<close> to \<open>hi\<close>.\<close>

definition dec_int :: "int \<Rightarrow> int \<Rightarrow> int decoder" where
  "dec_int lo hi v j =
     (if j = JNull then Some v
      else case int_text j of None \<Rightarrow> None | Some n \<Rightarrow> if lo \<le> n \<and> n \<le> hi then Some n else None)"

abbreviation dec_i64 :: "int64 decoder" where "dec_i64 \<equiv> dec_int (- (2 ^ 63)) (2 ^ 63 - 1)"
abbreviation dec_i32 :: "int32 decoder" where "dec_i32 \<equiv> dec_int (- (2 ^ 31)) (2 ^ 31 - 1)"
abbreviation dec_u64 :: "int decoder" where "dec_u64 \<equiv> dec_int 0 (2 ^ 64 - 1)"

definition dec_f64 :: "float64 decoder" where
  "dec_f64 v j =
     (case j of JNull \<Rightarrow> Some v
      | JFloat x \<Rightarrow> (if is_fin x then Some x else None)
      | JInt n \<Rightarrow> (if is_fin (f_of_int n) then Some (f_of_int n) else None)
      | _ \<Rightarrow> None)"

definition dec_slice :: "'a \<Rightarrow> 'a decoder \<Rightarrow> 'a list decoder" where
  "dec_slice zero dec v j =
     (case j of JNull \<Rightarrow> Some [] | JArr js \<Rightarrow> those (map (dec zero) js) | _ \<Rightarrow> None)"

text \<open>An object decodes into a map entry by entry.\<close>

fun put_entries :: "'a \<Rightarrow> 'a decoder \<Rightarrow> (string \<rightharpoonup> 'a) \<Rightarrow> (string \<times> json) list \<Rightarrow> (string \<rightharpoonup> 'a) option" where
  "put_entries zero dec m [] = Some m"
| "put_entries zero dec m ((k, j) # o1) =
     Option.bind (dec zero j) (\<lambda>v. put_entries zero dec (m(k \<mapsto> v)) o1)"

definition dec_map :: "'a \<Rightarrow> 'a decoder \<Rightarrow> (string \<rightharpoonup> 'a) decoder" where
  "dec_map zero dec v j =
     (case j of JNull \<Rightarrow> Some Map.empty | JObj o1 \<Rightarrow> put_entries zero dec v o1 | _ \<Rightarrow> None)"

text \<open>The keys of a map are rendered in their byte order.\<close>

definition enc_map :: "('a \<Rightarrow> json) \<Rightarrow> (string \<rightharpoonup> 'a) \<Rightarrow> json" where
  "enc_map enc m = JObj (map (\<lambda>k. (k, enc (the (m k)))) (sorted_list_of_set (dom m)))"

section \<open>Decoding structs\<close>

text \<open>The members of the top-level value; a \<open>null\<close> leaves the struct as it is.\<close>

definition members :: "json \<Rightarrow> (string \<times> json) list option" where
  "members j = (case j of JNull \<Rightarrow> Some [] | JObj o1 \<Rightarrow> Some o1 | _ \<Rightarrow> None)"

text \<open>The field with the tag \<open>k\<close>, which is in lower case: every member whose key is \<open>k\<close>, ASCII case
  aside, is decoded into it, in their order.\<close>

definition fold_key :: "string \<Rightarrow> string" where
  "fold_key k = map lower_char k"

fun into :: "'a decoder \<Rightarrow> string \<Rightarrow> 'a \<Rightarrow> (string \<times> json) list \<Rightarrow> 'a option" where
  "into dec k v [] = Some v"
| "into dec k v ((k', j) # o1) =
     (if fold_key k' = k then Option.bind (dec v j) (\<lambda>v'. into dec k v' o1) else into dec k v o1)"

section \<open>Encoding and decoding\<close>

lemma dec_simps [simp]:
  "dec_str t (JStr s) = Some s" "dec_bool c (JBool b) = Some b"
  "dec_int lo hi i (JInt n) = (if lo \<le> n \<and> n \<le> hi then Some n else None)"
  "is_fin x \<Longrightarrow> dec_f64 y (JFloat x) = Some x"
  by (simp_all add: dec_str_def dec_bool_def dec_int_def int_text_def dec_f64_def)

lemma members_simps [simp]: "members (JObj o1) = Some o1" "members JNull = Some []"
  by (simp_all add: members_def)

lemma those_map_Some: "list_all (\<lambda>x. dec (enc x) = Some x) xs \<Longrightarrow> those (map dec (map enc xs)) = Some xs"
  by (induction xs) simp_all

lemma dec_slice_enc:
  "list_all (\<lambda>x. dec zero (enc x) = Some x) xs \<Longrightarrow> dec_slice zero dec v (JArr (map enc xs)) = Some xs"
  using those_map_Some [of "dec zero" enc xs] by (simp add: dec_slice_def)

lemma put_entries_enc:
  assumes "\<forall>v \<in> ran m. dec zero (enc v) = Some v" "set ks \<subseteq> dom m"
  shows "put_entries zero dec m0 (map (\<lambda>k. (k, enc (the (m k)))) ks) = Some (\<lambda>k. if k \<in> set ks then m k else m0 k)"
  using assms(2)
proof (induction ks arbitrary: m0)
  case (Cons k ks)
  then obtain v where v: "m k = Some v" by auto
  with assms(1) have "dec zero (enc v) = Some v" by (auto simp: ran_def)
  with Cons v show ?case by (auto simp: fun_eq_iff)
qed simp

lemma dec_map_enc:
  assumes "finite (dom m)" "\<forall>v \<in> ran m. dec zero (enc v) = Some v"
  shows "dec_map zero dec Map.empty (enc_map enc m) = Some m"
  using assms put_entries_enc [where m = m and dec = dec and zero = zero and enc = enc and ks = "sorted_list_of_set (dom m)" and ?m0.0 = Map.empty]
  by (auto simp: dec_map_def enc_map_def fun_eq_iff domIff)

lemma renderable_enc_map:
  "(\<And>v. renderable (enc v)) \<Longrightarrow> renderable (enc_map enc m)"
  by (simp add: enc_map_def list_all_iff)

section \<open>The interface between two services\<close>

text \<open>\<open>view\<close>: what the receiver makes of a message; \<open>typed\<close>: its integers are within their types;
  \<open>finite_floats\<close>: \<open>Marshal\<close> accepts it.\<close>

locale wire =
  fixes enc :: "'a \<Rightarrow> json"
    and dec :: "json \<Rightarrow> 'b option"
    and view :: "'a \<Rightarrow> 'b"
    and typed finite_floats :: "'a \<Rightarrow> bool"
  assumes enc_renderable: "renderable (enc x) \<longleftrightarrow> finite_floats x"
    and dec_enc: "typed x \<Longrightarrow> finite_floats x \<Longrightarrow> dec (enc x) = Some (view x)"
begin

lemma received: "typed x \<Longrightarrow> Option.bind (Marshal (enc x)) dec = (if finite_floats x then Some (view x) else None)"
  by (simp add: Marshal_def enc_renderable dec_enc)

text \<open>The receiver of a stream reads exactly the messages that could be rendered.\<close>

lemma stream:
  "list_all typed xs \<Longrightarrow>
     List.map_filter (\<lambda>x. Option.bind (Marshal (enc x)) dec) xs = map view (filter finite_floats xs)"
  by (induction xs) (simp_all add: received map_filter_simps)

end

end
