(* ===== verification/Wire.thy ===== *)
theory Wire
  imports Json Leaderboard Upload Ebpf
begin

text \<open>
  The JSON messages between the services: how the sender renders each, from the struct tags or the
  keys of its map, and how the receiver decodes it. Every pair provides the locale \<open>wire\<close>, so the
  components may be composed over records.
\<close>

lemma lower_keys [simp]:
  "fold_key ''active_bots'' = ''active_bots''" "fold_key ''app_rtt_ns'' = ''app_rtt_ns''"
  "fold_key ''archetype'' = ''archetype''" "fold_key ''correct'' = ''correct''"
  "fold_key ''emitted_ns'' = ''emitted_ns''" "fold_key ''fill_price'' = ''fill_price''"
  "fold_key ''fill_qty'' = ''fill_qty''" "fold_key ''fleet_id'' = ''fleet_id''"
  "fold_key ''order_id'' = ''order_id''" "fold_key ''replay_seq'' = ''replay_seq''"
  "fold_key ''session_id'' = ''session_id''" "fold_key ''team_name'' = ''team_name''"
  "fold_key ''src_ip'' = ''src_ip''" "fold_key ''dst_ip'' = ''dst_ip''"
  "fold_key ''src_port'' = ''src_port''" "fold_key ''dst_port'' = ''dst_port''"
  "fold_key ''proto'' = ''proto''" "fold_key ''rtt_ns'' = ''rtt_ns''"
  "fold_key ''ingress_ns'' = ''ingress_ns''" "fold_key ''egress_ns'' = ''egress_ns''"
  "fold_key ''sandbox_id'' = ''sandbox_id''" "fold_key ''event_type'' = ''event_type''"
  "fold_key ''fault_type'' = ''fault_type''" "fold_key ''timestamp_ns'' = ''timestamp_ns''"
  "fold_key ''symbol'' = ''symbol''" "fold_key ''side'' = ''side''" "fold_key ''type'' = ''type''"
  "fold_key ''price'' = ''price''" "fold_key ''quantity'' = ''quantity''"
  "fold_key ''status'' = ''status''" "fold_key ''bot_count'' = ''bot_count''"
  "fold_key ''duration_secs'' = ''duration_secs''" "fold_key ''endpoint_url'' = ''endpoint_url''"
  "fold_key ''fix_endpoint'' = ''fix_endpoint''" "fold_key ''target_tps'' = ''target_tps''"
  by (simp_all add: fold_key_def lower_char_def)

lemma lower_score_keys [simp]:
  "fold_key ''p50_ns'' = ''p50_ns''" "fold_key ''p90_ns'' = ''p90_ns''"
  "fold_key ''p99_ns'' = ''p99_ns''" "fold_key ''p999_ns'' = ''p999_ns''"
  "fold_key ''tps'' = ''tps''" "fold_key ''peak_tps'' = ''peak_tps''"
  "fold_key ''fill_accuracy'' = ''fill_accuracy''"
  "fold_key ''price_time_violations'' = ''price_time_violations''"
  "fold_key ''recovery_time_ms'' = ''recovery_time_ms''"
  "fold_key ''degradation_ratio'' = ''degradation_ratio''"
  "fold_key ''throughput_score'' = ''throughput_score''"
  "fold_key ''tail_latency_score'' = ''tail_latency_score''"
  "fold_key ''correctness_score'' = ''correctness_score''"
  "fold_key ''resilience_score'' = ''resilience_score''" "fold_key ''total_score'' = ''total_score''"
  "fold_key ''score_history'' = ''score_history''" "fold_key ''archetype_counts'' = ''archetype_counts''"
  "fold_key ''computed_at_ns'' = ''computed_at_ns''"
  by (simp_all add: fold_key_def lower_char_def)

section \<open>Reports of the bots\<close>

text \<open>A Go map is rendered with its keys in order.\<close>

definition payload_json :: "payload \<Rightarrow> json" where
  "payload_json pl = JObj
     [(''active_bots'', JInt (pl_active_bots pl)), (''app_rtt_ns'', JInt (pl_app_rtt_ns pl)),
      (''archetype'', JStr (pl_archetype pl)), (''correct'', JBool (pl_correct pl)),
      (''emitted_ns'', JInt (pl_emitted_ns pl)), (''fill_price'', JFloat (pl_fill_price pl)),
      (''fill_qty'', JInt (pl_fill_qty pl)), (''fleet_id'', JStr (pl_fleet_id pl)),
      (''order_id'', JStr (pl_order_id pl)), (''replay_seq'', JInt (pl_replay_seq pl)),
      (''session_id'', JStr (pl_session_id pl)), (''team_name'', JStr (pl_team_name pl))]"

definition decode_RawMetric :: "json \<Rightarrow> RawMetric option" where
  "decode_RawMetric j = do {
     o1 \<leftarrow> members j;
     sid \<leftarrow> into dec_str ''session_id'' [] o1;
     team \<leftarrow> into dec_str ''team_name'' [] o1;
     sbx \<leftarrow> into dec_str ''sandbox_id'' [] o1;
     oid \<leftarrow> into dec_str ''order_id'' [] o1;
     arch \<leftarrow> into dec_str ''archetype'' [] o1;
     app \<leftarrow> into dec_i64 ''app_rtt_ns'' 0 o1;
     kern \<leftarrow> into dec_i64 ''kernel_rtt_ns'' 0 o1;
     corr \<leftarrow> into dec_bool ''correct'' False o1;
     price \<leftarrow> into dec_f64 ''fill_price'' (Num False 0) o1;
     qty \<leftarrow> into dec_i64 ''fill_qty'' 0 o1;
     emitted \<leftarrow> into dec_i64 ''emitted_ns'' 0 o1;
     sq \<leftarrow> into dec_i64 ''replay_seq'' 0 o1;
     bots \<leftarrow> into dec_i32 ''active_bots'' 0 o1;
     Some \<lparr>rm_SessionID = sid, rm_TeamName = team, rm_SandboxID = sbx, rm_OrderID = oid, rm_Archetype = arch,
       rm_AppRTTNS = app, rm_KernelRTTNS = kern, rm_Correct = corr, rm_FillPrice = price, rm_FillQty = qty,
       rm_EmittedNS = emitted, rm_ReplaySeq = sq, rm_ActiveBots = bots\<rparr> }"

definition payload_typed :: "payload \<Rightarrow> bool" where
  "payload_typed pl \<longleftrightarrow> in64 (pl_app_rtt_ns pl) \<and> in64 (pl_fill_qty pl) \<and> in64 (pl_emitted_ns pl) \<and>
     in64 (pl_replay_seq pl) \<and> in32 (pl_active_bots pl)"

interpretation report_wire: wire payload_json decode_RawMetric metric_of_payload payload_typed "\<lambda>pl. is_fin (pl_fill_price pl)"
proof
  fix pl
  show "renderable (payload_json pl) \<longleftrightarrow> is_fin (pl_fill_price pl)" by (simp add: payload_json_def)
  assume "payload_typed pl" "is_fin (pl_fill_price pl)"
  then show "decode_RawMetric (payload_json pl) = Some (metric_of_payload pl)"
    by (simp add: decode_RawMetric_def payload_json_def metric_of_payload_def payload_typed_def in64_def in32_def)
qed

section \<open>Kernel latencies\<close>

definition latency_json :: "LatencyEvent \<Rightarrow> json" where
  "latency_json ev = JObj
     [(''src_ip'', JStr (lv_SrcIP ev)), (''dst_ip'', JStr (lv_DstIP ev)), (''src_port'', JInt (uint (lv_SrcPort ev))),
      (''dst_port'', JInt (uint (lv_DstPort ev))), (''proto'', JInt (uint (lv_Proto ev))),
      (''rtt_ns'', JInt (uint (lv_RTTNS ev))), (''ingress_ns'', JInt (uint (lv_IngressNS ev))),
      (''egress_ns'', JInt (uint (lv_EgressNS ev))), (''session_id'', JStr (lv_SessionID ev)),
      (''sandbox_id'', JStr (lv_SandboxID ev))]"

definition decode_KernelEvent :: "json \<Rightarrow> KernelEvent option" where
  "decode_KernelEvent j = do {
     o1 \<leftarrow> members j;
     sid \<leftarrow> into dec_str ''session_id'' [] o1;
     sbx \<leftarrow> into dec_str ''sandbox_id'' [] o1;
     rtt \<leftarrow> into dec_u64 ''rtt_ns'' 0 o1;
     ing \<leftarrow> into dec_u64 ''ingress_ns'' 0 o1;
     egr \<leftarrow> into dec_u64 ''egress_ns'' 0 o1;
     src \<leftarrow> into dec_str ''src_ip'' [] o1;
     dst \<leftarrow> into dec_str ''dst_ip'' [] o1;
     sport \<leftarrow> into dec_i64 ''src_port'' 0 o1;
     dport \<leftarrow> into dec_i64 ''dst_port'' 0 o1;
     Some \<lparr>ke_SessionID = sid, ke_SandboxID = sbx, ke_RTTNS = word_of_int rtt, ke_IngressNS = word_of_int ing,
       ke_EgressNS = word_of_int egr, ke_SrcIP = src, ke_DstIP = dst, ke_SrcPort = sport, ke_DstPort = dport\<rparr> }"

lemma uint_ranges:
  "uint (w :: 64 word) \<le> 2 ^ 64 - 1" "uint (p :: 16 word) \<le> 2 ^ 63 - 1"
  using uint_lt2p [of w] uint_lt2p [of p] by simp_all

interpretation latency_wire: wire latency_json decode_KernelEvent to_kernel_event "\<lambda>_. True" "\<lambda>_. True"
proof
  fix ev
  show "renderable (latency_json ev) \<longleftrightarrow> True" by (simp add: latency_json_def)
  have "- (2 ^ 63) \<le> uint p" for p :: "16 word" by (rule order_trans [OF _ uint_ge_0]) simp
  then show "decode_KernelEvent (latency_json ev) = Some (to_kernel_event ev)"
    using uint_ranges by (simp add: decode_KernelEvent_def latency_json_def to_kernel_event_def)
qed

section \<open>Faults\<close>

definition chaos_json :: "chaosLifecycleEvent \<Rightarrow> json" where
  "chaos_json ev = JObj
     [(''session_id'', JStr (ch_SessionID ev)), (''sandbox_id'', JStr (ch_SandboxID ev)),
      (''event_type'', JStr (ch_EventType ev)), (''fault_type'', JStr (ch_FaultType ev)),
      (''timestamp_ns'', JInt (ch_TimestampNS ev))]"

definition decode_ChaosEvent :: "json \<Rightarrow> ChaosEvent option" where
  "decode_ChaosEvent j = do {
     o1 \<leftarrow> members j;
     sid \<leftarrow> into dec_str ''session_id'' [] o1;
     sbx \<leftarrow> into dec_str ''sandbox_id'' [] o1;
     et \<leftarrow> into dec_str ''event_type'' [] o1;
     ft \<leftarrow> into dec_str ''fault_type'' [] o1;
     ts \<leftarrow> into dec_i64 ''timestamp_ns'' 0 o1;
     Some \<lparr>ce_SessionID = sid, ce_SandboxID = sbx, ce_EventType = et, ce_FaultType = ft, ce_TimestampNS = ts\<rparr> }"

text \<open>The leaderboard decodes two of the fields.\<close>

definition decode_chaos_mark :: "json \<Rightarrow> (string \<times> string) option" where
  "decode_chaos_mark j = do {
     o1 \<leftarrow> members j;
     sid \<leftarrow> into dec_str ''session_id'' [] o1;
     et \<leftarrow> into dec_str ''event_type'' [] o1;
     Some (sid, et) }"

definition as_chaos_event :: "chaosLifecycleEvent \<Rightarrow> ChaosEvent" where
  "as_chaos_event ev =
     \<lparr>ce_SessionID = ch_SessionID ev, ce_SandboxID = ch_SandboxID ev, ce_EventType = ch_EventType ev,
      ce_FaultType = ch_FaultType ev, ce_TimestampNS = ch_TimestampNS ev\<rparr>"

interpretation chaos_wire: wire chaos_json decode_ChaosEvent as_chaos_event "\<lambda>ev. in64 (ch_TimestampNS ev)" "\<lambda>_. True"
  by unfold_locales (simp_all add: chaos_json_def decode_ChaosEvent_def as_chaos_event_def in64_def)

interpretation mark_wire: wire chaos_json decode_chaos_mark "\<lambda>ev. (ch_SessionID ev, ch_EventType ev)" "\<lambda>_. True" "\<lambda>_. True"
  by unfold_locales (simp_all add: chaos_json_def decode_chaos_mark_def)

section \<open>Scores\<close>

definition score_json :: "CompositeScore \<Rightarrow> json" where
  "score_json c = JObj
     [(''session_id'', JStr (cs_SessionID c)), (''team_name'', JStr (cs_TeamName c)),
      (''p50_ns'', JFloat (cs_P50NS c)), (''p90_ns'', JFloat (cs_P90NS c)), (''p99_ns'', JFloat (cs_P99NS c)),
      (''p999_ns'', JFloat (cs_P999NS c)), (''tps'', JFloat (cs_TPS c)), (''peak_tps'', JFloat (cs_PeakTPS c)),
      (''fill_accuracy'', JFloat (cs_FillAccuracy c)), (''price_time_violations'', JInt (cs_PriceTimeViolations c)),
      (''recovery_time_ms'', JFloat (cs_RecoveryTimeMS c)), (''degradation_ratio'', JFloat (cs_DegradationRatio c)),
      (''throughput_score'', JFloat (cs_ThroughputScore c)),
      (''tail_latency_score'', JFloat (cs_TailLatencyScore c)),
      (''correctness_score'', JFloat (cs_CorrectnessScore c)), (''resilience_score'', JFloat (cs_ResilienceScore c)),
      (''total_score'', JFloat (cs_TotalScore c)), (''active_bots'', JInt (cs_ActiveBots c)),
      (''score_history'', JArr (map JFloat (cs_ScoreHistory c))),
      (''archetype_counts'', enc_map JInt (cs_ArchetypeCounts c)), (''computed_at_ns'', JInt (cs_ComputedAt c))]"

text \<open>The leaderboard's mirror of the struct.\<close>

definition decode_CompositeScore :: "json \<Rightarrow> CompositeScore option" where
  "decode_CompositeScore j = do {
     o1 \<leftarrow> members j;
     xSessionID \<leftarrow> into dec_str ''session_id'' [] o1;
     xTeamName \<leftarrow> into dec_str ''team_name'' [] o1;
     xP50NS \<leftarrow> into dec_f64 ''p50_ns'' f0 o1;
     xP90NS \<leftarrow> into dec_f64 ''p90_ns'' f0 o1;
     xP99NS \<leftarrow> into dec_f64 ''p99_ns'' f0 o1;
     xP999NS \<leftarrow> into dec_f64 ''p999_ns'' f0 o1;
     xTPS \<leftarrow> into dec_f64 ''tps'' f0 o1;
     xPeakTPS \<leftarrow> into dec_f64 ''peak_tps'' f0 o1;
     xFillAccuracy \<leftarrow> into dec_f64 ''fill_accuracy'' f0 o1;
     xPriceTimeViolations \<leftarrow> into dec_i64 ''price_time_violations'' 0 o1;
     xRecoveryTimeMS \<leftarrow> into dec_f64 ''recovery_time_ms'' f0 o1;
     xDegradationRatio \<leftarrow> into dec_f64 ''degradation_ratio'' f0 o1;
     xThroughputScore \<leftarrow> into dec_f64 ''throughput_score'' f0 o1;
     xTailLatencyScore \<leftarrow> into dec_f64 ''tail_latency_score'' f0 o1;
     xCorrectnessScore \<leftarrow> into dec_f64 ''correctness_score'' f0 o1;
     xResilienceScore \<leftarrow> into dec_f64 ''resilience_score'' f0 o1;
     xTotalScore \<leftarrow> into dec_f64 ''total_score'' f0 o1;
     xActiveBots \<leftarrow> into dec_i32 ''active_bots'' 0 o1;
     xScoreHistory \<leftarrow> into (dec_slice f0 dec_f64) ''score_history'' [] o1;
     xArchetypeCounts \<leftarrow> into (dec_map 0 dec_i32) ''archetype_counts'' Map.empty o1;
     xComputedAt \<leftarrow> into dec_i64 ''computed_at_ns'' 0 o1;
     Some \<lparr>cs_SessionID = xSessionID, cs_TeamName = xTeamName, cs_P50NS = xP50NS, cs_P90NS = xP90NS, cs_P99NS = xP99NS,
       cs_P999NS = xP999NS, cs_TPS = xTPS, cs_PeakTPS = xPeakTPS, cs_FillAccuracy = xFillAccuracy,
       cs_PriceTimeViolations = xPriceTimeViolations, cs_RecoveryTimeMS = xRecoveryTimeMS,
       cs_DegradationRatio = xDegradationRatio, cs_ThroughputScore = xThroughputScore,
       cs_TailLatencyScore = xTailLatencyScore, cs_CorrectnessScore = xCorrectnessScore,
       cs_ResilienceScore = xResilienceScore, cs_TotalScore = xTotalScore, cs_ActiveBots = xActiveBots,
       cs_ScoreHistory = xScoreHistory, cs_ArchetypeCounts = xArchetypeCounts, cs_ComputedAt = xComputedAt\<rparr> }"

definition score_typed :: "CompositeScore \<Rightarrow> bool" where
  "score_typed c \<longleftrightarrow> in64 (cs_PriceTimeViolations c) \<and> in32 (cs_ActiveBots c) \<and> in64 (cs_ComputedAt c) \<and>
     finite (dom (cs_ArchetypeCounts c)) \<and> (\<forall>n \<in> ran (cs_ArchetypeCounts c). in32 n)"

lemma counts_enc:
  assumes "score_typed c"
  shows "dec_map 0 dec_i32 Map.empty (enc_map JInt (cs_ArchetypeCounts c)) = Some (cs_ArchetypeCounts c)"
  by (rule dec_map_enc) (use assms in \<open>auto simp: score_typed_def in32_def\<close>)

lemma history_enc:
  assumes "list_all is_fin xs"
  shows "dec_slice f0 dec_f64 [] (JArr (map JFloat xs)) = Some xs"
  by (rule dec_slice_enc) (use assms in \<open>auto simp: list_all_iff\<close>)

interpretation score_wire: wire score_json decode_CompositeScore "\<lambda>c. c" score_typed json_ok
proof
  fix c :: CompositeScore
  have "renderable (enc_map JInt (cs_ArchetypeCounts c))" by (rule renderable_enc_map) simp
  then show "renderable (score_json c) \<longleftrightarrow> json_ok c"
    by (auto simp: score_json_def json_ok_def list_all_iff)
  assume t: "score_typed c" and "json_ok c"
  then have "list_all is_fin (cs_ScoreHistory c)" by (simp add: json_ok_def)
  note simps = counts_enc [OF t, simplified] history_enc [OF this]
  from t \<open>json_ok c\<close> show "decode_CompositeScore (score_json c) = Some c"
    by (simp add: decode_CompositeScore_def score_json_def json_ok_def score_typed_def simps in64_def in32_def)
qed

section \<open>Orders\<close>

text \<open>\<open>omitempty\<close> leaves a price of zero, also of negative zero, out.\<close>

definition order_json :: "'a fix_order_scheme \<Rightarrow> json" where
  "order_json o1 = JObj
     ([(''order_id'', JStr (fo_ID o1)), (''symbol'', JStr (fo_Symbol o1)), (''side'', JStr (sideStr (fo_Side o1))),
       (''type'', JStr (typeStr (fo_Type o1)))] @
      (if feq (fo_Price o1) (Num False 0) then [] else [(''price'', JFloat (fo_Price o1))]) @
      [(''quantity'', JInt (fo_Quantity o1))])"

definition decode_OrderRequest :: "json \<Rightarrow> OrderRequest option" where
  "decode_OrderRequest j = do {
     o1 \<leftarrow> members j;
     oid \<leftarrow> into dec_str ''order_id'' [] o1;
     sym \<leftarrow> into dec_str ''symbol'' [] o1;
     sd \<leftarrow> into dec_str ''side'' [] o1;
     ty \<leftarrow> into dec_str ''type'' [] o1;
     pr \<leftarrow> into dec_f64 ''price'' (Num False 0) o1;
     qty \<leftarrow> into dec_i64 ''quantity'' 0 o1;
     Some \<lparr>req_OrderID = oid, req_Symbol = sym, req_Side = sd, req_Type = ty, req_Price = pr, req_Quantity = qty\<rparr> }"

interpretation order_wire: wire order_json decode_OrderRequest wire_request "\<lambda>o1. in64 (fo_Quantity o1)" "\<lambda>o1. is_fin (fo_Price o1)"
proof
  fix o1 :: "'a fix_order_scheme"
  have "feq (fo_Price o1) (Num False 0) \<Longrightarrow> is_fin (fo_Price o1)" by (cases "fo_Price o1") simp_all
  then show "renderable (order_json o1) \<longleftrightarrow> is_fin (fo_Price o1)" by (auto simp: order_json_def)
  assume "in64 (fo_Quantity o1)" "is_fin (fo_Price o1)"
  then show "decode_OrderRequest (order_json o1) = Some (wire_request o1)"
    by (simp add: order_json_def decode_OrderRequest_def wire_request_def in64_def)
qed

definition response_json :: "OrderResponse \<Rightarrow> json" where
  "response_json r = JObj
     [(''order_id'', JStr (resp_OrderID r)), (''fill_price'', JFloat (resp_FillPrice r)),
      (''fill_qty'', JInt (resp_FillQty r)), (''status'', JStr (resp_Status r))]"

definition decode_OrderResponse :: "json \<Rightarrow> OrderResponse option" where
  "decode_OrderResponse j = do {
     o1 \<leftarrow> members j;
     oid \<leftarrow> into dec_str ''order_id'' [] o1;
     pr \<leftarrow> into dec_f64 ''fill_price'' (Num False 0) o1;
     qty \<leftarrow> into dec_i64 ''fill_qty'' 0 o1;
     st \<leftarrow> into dec_str ''status'' [] o1;
     Some \<lparr>resp_OrderID = oid, resp_FillPrice = pr, resp_FillQty = qty, resp_Status = st\<rparr> }"

interpretation response_wire: wire response_json decode_OrderResponse "\<lambda>r. r" "\<lambda>r. in64 (resp_FillQty r)"
  "\<lambda>r. is_fin (resp_FillPrice r)"
  by unfold_locales (simp_all add: response_json_def decode_OrderResponse_def in64_def)

section \<open>Spawn requests\<close>

definition spawn_json :: "spawn_body \<Rightarrow> json" where
  "spawn_json b = JObj
     [(''bot_count'', JInt (sb_bot_count b)), (''duration_secs'', JInt (sb_duration_secs b)),
      (''endpoint_url'', JStr (sb_endpoint_url b)), (''fix_endpoint'', JStr (sb_fix_endpoint b)),
      (''session_id'', JStr (sb_session_id b)), (''symbol'', JStr (sb_symbol b)),
      (''target_tps'', JInt (sb_target_tps b)), (''team_name'', JStr (sb_team_name b))]"

definition decode_spawn_body :: "json \<Rightarrow> spawn_body option" where
  "decode_spawn_body j = do {
     o1 \<leftarrow> members j;
     sid \<leftarrow> into dec_str ''session_id'' [] o1;
     team \<leftarrow> into dec_str ''team_name'' [] o1;
     url \<leftarrow> into dec_str ''endpoint_url'' [] o1;
     fx \<leftarrow> into dec_str ''fix_endpoint'' [] o1;
     sym \<leftarrow> into dec_str ''symbol'' [] o1;
     bots \<leftarrow> into dec_i32 ''bot_count'' 0 o1;
     tps \<leftarrow> into dec_i32 ''target_tps'' 0 o1;
     dur \<leftarrow> into dec_i64 ''duration_secs'' 0 o1;
     Some \<lparr>sb_session_id = sid, sb_team_name = team, sb_endpoint_url = url, sb_fix_endpoint = fx, sb_symbol = sym,
       sb_bot_count = bots, sb_target_tps = tps, sb_duration_secs = dur\<rparr> }"

interpretation spawn_wire: wire spawn_json decode_spawn_body "\<lambda>b. b"
  "\<lambda>b. in32 (sb_bot_count b) \<and> in32 (sb_target_tps b) \<and> in64 (sb_duration_secs b)" "\<lambda>_. True"
  by unfold_locales (simp_all add: spawn_json_def decode_spawn_body_def in64_def in32_def)

section \<open>Properties\<close>

text \<open>What a receiver reads of the messages a sender tried to send, in their order: those that were
  rendered and decode.\<close>

definition received_by :: "('a \<Rightarrow> json) \<Rightarrow> (json \<Rightarrow> 'b option) \<Rightarrow> 'a list \<Rightarrow> 'b list" where
  "received_by enc dec xs = List.map_filter (\<lambda>x. Option.bind (Marshal (enc x)) dec) xs"

text \<open>C15. No message between the services is lost or altered by its encoding: of the reports, the
  telemetry service reads all whose price is finite; of the kernel latencies all, unsigned 64-bit
  numbers included; of the scores the leaderboard reads all whose numbers are finite, with their
  history and counts; of the chaos events both the telemetry service and the leaderboard read
  all. Each is read with the fields it was sent with.\<close>

theorem messages_survive_the_wire:
  assumes "list_all payload_typed pls" "list_all score_typed cs" "list_all (\<lambda>ev. in64 (ch_TimestampNS ev)) evs"
  shows "received_by payload_json decode_RawMetric pls = map metric_of_payload (filter (\<lambda>pl. is_fin (pl_fill_price pl)) pls) \<and>
    received_by latency_json decode_KernelEvent ls = map to_kernel_event ls \<and>
    received_by score_json decode_CompositeScore cs = filter json_ok cs \<and>
    received_by chaos_json decode_ChaosEvent evs = map as_chaos_event evs \<and>
    received_by chaos_json decode_chaos_mark evs = map (\<lambda>ev. (ch_SessionID ev, ch_EventType ev)) evs"
  using report_wire.stream [OF assms(1)] latency_wire.stream [of ls] score_wire.stream [OF assms(2)]
    chaos_wire.stream [OF assms(3)] mark_wire.stream [of evs]
  by (simp add: received_by_def list_all_iff)

definition unlucky_payload :: payload where
  "unlucky_payload = \<lparr>pl_session_id = ''s1'', pl_team_name = ''t'', pl_fleet_id = ''f'', pl_order_id = ''o'', pl_archetype = ''noise'',
     pl_app_rtt_ns = 5, pl_correct = True, pl_fill_price = NaN, pl_fill_qty = 1, pl_emitted_ns = 0, pl_replay_seq = 1,
     pl_active_bots = 3\<rparr>"

theorem messages_survive_the_wire_witness:
  "received_by payload_json decode_RawMetric [unlucky_payload, unlucky_payload\<lparr>pl_fill_price := Num False 101\<rparr>] =
     [metric_of_payload (unlucky_payload\<lparr>pl_fill_price := Num False 101\<rparr>)]"
  using messages_survive_the_wire [of "[unlucky_payload, unlucky_payload\<lparr>pl_fill_price := Num False 101\<rparr>]" "[]" "[]"]
  by (simp add: unlucky_payload_def payload_typed_def in64_def in32_def)



end
