(* ===== verification/Sql.thy ===== *)
theory Sql
  imports Leaderboard
begin

text \<open>
  The statements of \<open>store.go\<close> against the tables of \<open>infra/timescale/init.sql\<close>, and the query of the
  leaderboard's time series. A statement is its text and its arguments; the columns and the
  placeholders are read out of the text. The database is not part of the sources: what the query
  returns for the rows of a table is the hypothesis \<open>series_query\<close>.
\<close>

section \<open>The tables\<close>

datatype sql_type = Timestamptz | Text | Bigint | Integer | Boolean | Double

record column =
  co_name :: string
  co_type :: sql_type
  co_notNull :: bool
  co_default :: bool

definition col :: "string \<Rightarrow> sql_type \<Rightarrow> column" where
  "col n t = \<lparr>co_name = n, co_type = t, co_notNull = False, co_default = False\<rparr>"

definition raw_metrics_table :: "column list" where
  "raw_metrics_table =
     [(col ''time'' Timestamptz)\<lparr>co_notNull := True, co_default := True\<rparr>, (col ''session_id'' Text)\<lparr>co_notNull := True\<rparr>,
      (col ''sandbox_id'' Text)\<lparr>co_notNull := True\<rparr>, (col ''order_id'' Text)\<lparr>co_notNull := True\<rparr>,
      (col ''archetype'' Text)\<lparr>co_notNull := True\<rparr>, col ''app_rtt_ns'' Bigint, col ''kernel_rtt_ns'' Bigint,
      col ''fill_correct'' Boolean, col ''fill_price'' Double, col ''fill_qty'' Bigint, col ''replay_seq'' Bigint]"

definition composite_scores_table :: "column list" where
  "composite_scores_table =
     [(col ''time'' Timestamptz)\<lparr>co_notNull := True, co_default := True\<rparr>, (col ''session_id'' Text)\<lparr>co_notNull := True\<rparr>,
      col ''team_name'' Text, col ''p50_ns'' Double, col ''p90_ns'' Double, col ''p99_ns'' Double, col ''p999_ns'' Double,
      col ''tps'' Double, col ''peak_tps'' Double, col ''fill_accuracy'' Double, col ''price_time_violations'' Bigint,
      col ''recovery_time_ms'' Double, col ''degradation_ratio'' Double, col ''throughput_score'' Double,
      col ''tail_latency_score'' Double, col ''correctness_score'' Double, col ''resilience_score'' Double,
      col ''total_score'' Double]"

definition kernel_latency_table :: "column list" where
  "kernel_latency_table =
     [(col ''time'' Timestamptz)\<lparr>co_notNull := True, co_default := True\<rparr>, (col ''session_id'' Text)\<lparr>co_notNull := True\<rparr>,
      (col ''sandbox_id'' Text)\<lparr>co_notNull := True\<rparr>, col ''src_ip'' Text, col ''dst_ip'' Text, col ''src_port'' Integer,
      col ''dst_port'' Integer, (col ''rtt_ns'' Bigint)\<lparr>co_notNull := True\<rparr>, col ''ingress_ns'' Bigint,
      col ''egress_ns'' Bigint]"

definition tables :: "string \<rightharpoonup> column list" where
  "tables = map_of [(''raw_metrics'', raw_metrics_table), (''composite_scores'', composite_scores_table),
     (''kernel_latency'', kernel_latency_table)]"

section \<open>The statements\<close>

text \<open>An argument with its Go type: \<open>time.Time\<close>, \<open>string\<close>, an integer, \<open>bool\<close>, \<open>float64\<close>.\<close>

datatype sql_arg = ATime int64 | AText string | AInt int | ABool bool | ADouble float64

type_synonym statement = "string \<times> sql_arg list"

definition insertRawMetric :: "int64 \<Rightarrow> RawMetricRow \<Rightarrow> statement" where
  "insertRawMetric now r =
     (''
INSERT INTO raw_metrics
  (time, session_id, sandbox_id, order_id, archetype,
   app_rtt_ns, kernel_rtt_ns, fill_correct, fill_price, fill_qty, replay_seq)
VALUES ($1,$2,$3,$4,$5,$6,$7,$8,$9,$10,$11)
ON CONFLICT DO NOTHING'',
      [ATime now, AText (rr_SessionID r), AText (rr_SandboxID r), AText (rr_OrderID r), AText (rr_Archetype r),
       AInt (rr_AppRTTNS r), AInt (rr_KernelRTTNS r), ABool (rr_FillCorrect r), ADouble (rr_FillPrice r),
       AInt (rr_FillQty r), AInt (rr_ReplaySeq r)])"

definition insertCompositeScore :: "int64 \<Rightarrow> CompositeScoreRow \<Rightarrow> statement" where
  "insertCompositeScore now r =
     (''
INSERT INTO composite_scores
  (time, session_id, team_name, p50_ns, p90_ns, p99_ns, p999_ns,
   tps, peak_tps, fill_accuracy, price_time_violations,
   recovery_time_ms, degradation_ratio,
   throughput_score, tail_latency_score, correctness_score,
   resilience_score, total_score)
VALUES ($1,$2,$3,$4,$5,$6,$7,$8,$9,$10,$11,$12,$13,$14,$15,$16,$17,$18)'',
      [ATime now, AText (cr_SessionID r), AText (cr_TeamName r), ADouble (cr_P50NS r), ADouble (cr_P90NS r),
       ADouble (cr_P99NS r), ADouble (cr_P999NS r), ADouble (cr_TPS r), ADouble (cr_PeakTPS r),
       ADouble (cr_FillAccuracy r), AInt (cr_PriceTimeViolations r), ADouble (cr_RecoveryTimeMS r),
       ADouble (cr_DegradationRatio r), ADouble (cr_ThroughputScore r), ADouble (cr_TailLatencyScore r),
       ADouble (cr_CorrectnessScore r), ADouble (cr_ResilienceScore r), ADouble (cr_TotalScore r)])"

definition insertKernelLatency :: "int64 \<Rightarrow> KernelLatencyRow \<Rightarrow> statement" where
  "insertKernelLatency now r =
     (''
INSERT INTO kernel_latency
  (time, session_id, sandbox_id, src_ip, dst_ip,
   src_port, dst_port, rtt_ns, ingress_ns, egress_ns)
VALUES ($1,$2,$3,$4,$5,$6,$7,$8,$9,$10)'',
      [ATime now, AText (kr_SessionID r), AText (kr_SandboxID r), AText (kr_SrcIP r), AText (kr_DstIP r),
       AInt (kr_SrcPort r), AInt (kr_DstPort r), AInt (kr_RTTNS r), AInt (kr_IngressNS r), AInt (kr_EgressNS r)])"

text \<open>The statement the worker executes for a job.\<close>

definition job_statement :: "int64 \<Rightarrow> writeJob \<Rightarrow> statement option" where
  "job_statement now j =
     (if wj_kind j = ''raw'' then map_option (insertRawMetric now) (wj_raw j)
      else if wj_kind j = ''score'' then map_option (insertCompositeScore now) (wj_score j)
      else if wj_kind j = ''kernel'' then map_option (insertKernelLatency now) (wj_kernel j)
      else None)"

section \<open>Reading a statement\<close>

definition is_blank :: "char \<Rightarrow> bool" where
  "is_blank c \<longleftrightarrow> c = CHR '' '' \<or> c = CHR 0x0A"

definition trim :: "string \<Rightarrow> string" where
  "trim s = rev (dropWhile is_blank (rev (dropWhile is_blank s)))"

text \<open>The text between the next pair of parentheses, and what follows it.\<close>

definition parens :: "string \<Rightarrow> string \<times> string" where
  "parens s = (let a = tl (dropWhile (\<lambda>c. c \<noteq> CHR ''('') s) in
     (takeWhile (\<lambda>c. c \<noteq> CHR '')'') a, tl (dropWhile (\<lambda>c. c \<noteq> CHR '')'') a)))"

definition into_table :: "string \<Rightarrow> string" where
  "into_table q = trim (drop (length ''INSERT INTO '') (trim (takeWhile (\<lambda>c. c \<noteq> CHR ''('') q)))"

definition columns_of :: "string \<Rightarrow> string list" where
  "columns_of q = map trim (split_on (CHR '','') (fst (parens q)))"

definition placeholders :: "string \<Rightarrow> string list" where
  "placeholders q = map trim (split_on (CHR '','') (fst (parens (snd (parens q)))))"

text \<open>A row: the argument each column gets.\<close>

definition row_of :: "statement \<Rightarrow> (string \<rightharpoonup> sql_arg)" where
  "row_of s = map_of (zip (columns_of (fst s)) (snd s))"

fun fits :: "sql_type \<Rightarrow> sql_arg \<Rightarrow> bool" where
  "fits Timestamptz (ATime t) = True"
| "fits Text (AText s) = True"
| "fits Bigint (AInt n) = in64 n"
| "fits Integer (AInt n) = in32 n"
| "fits Boolean (ABool b) = True"
| "fits Double (ADouble x) = True"
| "fits _ _ = False"

text \<open>The table exists, the placeholders number the arguments, the columns are the table's, each gets
  one argument of its type, and a column that must not be null gets one or has a default.\<close>

definition statement_ok :: "statement \<Rightarrow> bool" where
  "statement_ok s =
     (case tables (into_table (fst s)) of None \<Rightarrow> False
      | Some cols \<Rightarrow>
          placeholders (fst s) = map (\<lambda>i. CHR ''$'' # itoa (int i)) [1 ..< Suc (length (snd s))] \<and>
          length (columns_of (fst s)) = length (snd s) \<and> distinct (columns_of (fst s)) \<and>
          set (columns_of (fst s)) \<subseteq> set (map co_name cols) \<and>
          list_all (\<lambda>c. case row_of s (co_name c) of Some a \<Rightarrow> fits (co_type c) a
             | None \<Rightarrow> \<not> co_notNull c \<or> co_default c) cols)"

lemmas reading = into_table_def columns_of_def placeholders_def parens_def trim_def is_blank_def Let_def

lemmas numbering = itoa_def nat_digits.simps digit_char_def char_of_def bit_0 upt_rec

lemma raw_text:
  "into_table (fst (insertRawMetric now r)) = ''raw_metrics''"
  "columns_of (fst (insertRawMetric now r)) = map co_name raw_metrics_table"
  "placeholders (fst (insertRawMetric now r)) = map (\<lambda>i. CHR ''$'' # itoa (int i)) [1 ..< 12]"
  by (simp_all add: insertRawMetric_def reading raw_metrics_table_def col_def numbering)

lemma score_text:
  "into_table (fst (insertCompositeScore now r)) = ''composite_scores''"
  "columns_of (fst (insertCompositeScore now r)) = map co_name composite_scores_table"
  "placeholders (fst (insertCompositeScore now r)) = map (\<lambda>i. CHR ''$'' # itoa (int i)) [1 ..< 19]"
  by (simp_all add: insertCompositeScore_def reading composite_scores_table_def col_def numbering)

lemma kernel_text:
  "into_table (fst (insertKernelLatency now r)) = ''kernel_latency''"
  "columns_of (fst (insertKernelLatency now r)) = map co_name kernel_latency_table"
  "placeholders (fst (insertKernelLatency now r)) = map (\<lambda>i. CHR ''$'' # itoa (int i)) [1 ..< 11]"
  by (simp_all add: insertKernelLatency_def reading kernel_latency_table_def col_def numbering)

lemma arg_counts:
  "length (snd (insertRawMetric now r)) = 11" "length (snd (insertCompositeScore now c)) = 18"
  "length (snd (insertKernelLatency now k)) = 10"
  by (simp_all add: insertRawMetric_def insertCompositeScore_def insertKernelLatency_def)

text \<open>Columns in the table's order: each gets the argument at its place.\<close>

lemma row_of_in_order:
  assumes "columns_of (fst s) = map co_name cols" "distinct (map co_name cols)" "list_all2 (\<lambda>c. fits (co_type c)) cols (snd s)"
  shows "list_all (\<lambda>c. case row_of s (co_name c) of Some a \<Rightarrow> fits (co_type c) a
             | None \<Rightarrow> \<not> co_notNull c \<or> co_default c) cols"
proof -
  have "row_of s (co_name (cols ! i)) = Some (snd s ! i)" if "i < length cols" for i
    using assms that map_of_zip_nth [of "map co_name cols" "snd s" i] by (simp add: row_of_def list_all2_lengthD)
  with assms(3) show ?thesis by (simp add: list_all_length list_all2_conv_all_nth)
qed

lemma statement_okI:
  assumes "tables (into_table (fst s)) = Some cols" "columns_of (fst s) = map co_name cols" "distinct (map co_name cols)"
    and "placeholders (fst s) = map (\<lambda>i. CHR ''$'' # itoa (int i)) [1 ..< Suc (length (snd s))]"
    and "list_all2 (\<lambda>c. fits (co_type c)) cols (snd s)"
  shows "statement_ok s"
  using assms row_of_in_order [OF assms(2,3,5)] by (simp add: statement_ok_def list_all2_lengthD)

definition job_typed :: "writeJob \<Rightarrow> bool" where
  "job_typed j \<longleftrightarrow>
     (case wj_raw j of None \<Rightarrow> True | Some r \<Rightarrow>
        in64 (rr_AppRTTNS r) \<and> in64 (rr_KernelRTTNS r) \<and> in64 (rr_FillQty r) \<and> in64 (rr_ReplaySeq r)) \<and>
     (case wj_score j of None \<Rightarrow> True | Some r \<Rightarrow> in64 (cr_PriceTimeViolations r)) \<and>
     (case wj_kernel j of None \<Rightarrow> True | Some r \<Rightarrow>
        in32 (kr_SrcPort r) \<and> in32 (kr_DstPort r) \<and> in64 (kr_RTTNS r) \<and> in64 (kr_IngressNS r) \<and> in64 (kr_EgressNS r))"

lemma table_columns:
  "tables ''raw_metrics'' = Some raw_metrics_table" "distinct (map co_name raw_metrics_table)"
  "tables ''composite_scores'' = Some composite_scores_table" "distinct (map co_name composite_scores_table)"
  "tables ''kernel_latency'' = Some kernel_latency_table" "distinct (map co_name kernel_latency_table)"
  by (simp_all add: tables_def raw_metrics_table_def composite_scores_table_def kernel_latency_table_def col_def)

lemma raw_ok: "job_typed (raw_job r) \<Longrightarrow> statement_ok (insertRawMetric now r)"
  by (rule statement_okI [OF _ raw_text(2)])
    (simp_all add: raw_text table_columns arg_counts del: upt_Suc,
     simp add: insertRawMetric_def raw_metrics_table_def col_def job_typed_def raw_job_def)

lemma score_ok: "job_typed (score_job r) \<Longrightarrow> statement_ok (insertCompositeScore now r)"
  by (rule statement_okI [OF _ score_text(2)])
    (simp_all add: score_text table_columns arg_counts del: upt_Suc,
     simp add: insertCompositeScore_def composite_scores_table_def col_def job_typed_def score_job_def)

lemma kernel_ok: "job_typed (kernel_job r) \<Longrightarrow> statement_ok (insertKernelLatency now r)"
  by (rule statement_okI [OF _ kernel_text(2)])
    (simp_all add: kernel_text table_columns arg_counts del: upt_Suc,
     simp add: insertKernelLatency_def kernel_latency_table_def col_def job_typed_def kernel_job_def)

lemma score_row_of:
  "row_of (insertCompositeScore now r) ''time'' = Some (ATime now)"
  "row_of (insertCompositeScore now r) ''session_id'' = Some (AText (cr_SessionID r))"
  "row_of (insertCompositeScore now r) ''p50_ns'' = Some (ADouble (cr_P50NS r))"
  "row_of (insertCompositeScore now r) ''p90_ns'' = Some (ADouble (cr_P90NS r))"
  "row_of (insertCompositeScore now r) ''p99_ns'' = Some (ADouble (cr_P99NS r))"
  "row_of (insertCompositeScore now r) ''p999_ns'' = Some (ADouble (cr_P999NS r))"
  "row_of (insertCompositeScore now r) ''tps'' = Some (ADouble (cr_TPS r))"
  "row_of (insertCompositeScore now r) ''total_score'' = Some (ADouble (cr_TotalScore r))"
  unfolding row_of_def score_text
  by (simp_all add: insertCompositeScore_def composite_scores_table_def col_def)

section \<open>The time series\<close>

text \<open>What PostgreSQL returns for the query of the endpoint on the rows of \<open>composite_scores\<close>: those of
  the session, the newest first, at most the limit, each with its time in milliseconds (\<open>epoch\<close>) and
  the value of the column, which scans if it is a double.\<close>

definition scan_point :: "(int64 \<Rightarrow> float64) \<Rightarrow> string \<Rightarrow> (string \<rightharpoonup> sql_arg) \<Rightarrow> (float64 \<times> float64) option" where
  "scan_point epoch cl r =
     (case (r ''time'', r cl) of (Some (ATime t), Some (ADouble x)) \<Rightarrow> Some (epoch t, x) | _ \<Rightarrow> None)"

definition row_time :: "(string \<rightharpoonup> sql_arg) \<Rightarrow> int64" where
  "row_time r = (case r ''time'' of Some (ATime t) \<Rightarrow> t | _ \<Rightarrow> 0)"

definition series_query :: "(int64 \<Rightarrow> float64) \<Rightarrow> (string \<rightharpoonup> sql_arg) list \<Rightarrow> db_query \<Rightarrow> bool" where
  "series_query epoch rows query \<longleftrightarrow>
     (\<forall>cl sid limit. cl \<in> ran allowed \<longrightarrow>
        (\<exists>rs. mset rs = mset (filter (\<lambda>r. r ''session_id'' = Some (AText sid)) rows) \<and>
           sorted_wrt (\<lambda>a b. row_time b \<le> row_time a) rs \<and>
           query (ts_query cl) sid limit = Some (map (scan_point epoch cl) (take (nat limit) rs))))"

text \<open>The field of a stored score that a metric of the endpoint names.\<close>

definition metric_field :: "string \<Rightarrow> CompositeScoreRow \<Rightarrow> float64" where
  "metric_field metric r =
     (if metric = ''p50'' then cr_P50NS r else if metric = ''p90'' then cr_P90NS r else if metric = ''p99'' then cr_P99NS r
      else if metric = ''p999'' then cr_P999NS r else if metric = ''tps'' then cr_TPS r else cr_TotalScore r)"

definition score_rows :: "(int64 \<times> CompositeScoreRow) list \<Rightarrow> (string \<rightharpoonup> sql_arg) list" where
  "score_rows stored = map (\<lambda>(t, r). row_of (insertCompositeScore t r)) stored"

lemma scan_score:
  "allowed metric = Some cl \<Longrightarrow>
     scan_point epoch cl (row_of (insertCompositeScore t r)) = Some (epoch t, metric_field metric r)"
  by (auto simp: allowed_def scan_point_def score_row_of metric_field_def split: if_splits)

lemma row_time_score: "row_time (row_of (insertCompositeScore t r)) = t"
  by (simp add: row_time_def score_row_of)

lemma mset_map_obtain:
  assumes "mset ys = mset (map f xs)"
  shows "\<exists>zs. mset zs = mset xs \<and> ys = map f zs"
  using assms
proof (induction ys arbitrary: xs)
  case (Cons y ys)
  then have "y \<in> set (map f xs)" by (metis list.set_intros(1) mset_eq_setD)
  then obtain x where x: "x \<in> set xs" "y = f x" by auto
  with Cons.prems have "mset ys = mset (map f (remove1 x xs))"
    by (metis (no_types, lifting) add_mset_remove_trivial mset.simps(2) image_mset_add_mset mset_map mset_remove1 insert_DiffM set_mset_mset)
  from Cons.IH [OF this] obtain zs where "mset zs = mset (remove1 x xs)" "ys = map f zs" by blast
  with x show ?case by (intro exI [of _ "x # zs"]) (simp add: insert_DiffM)
qed simp

lemma map_filter_all: "(\<And>x. g x = Some (h x)) \<Longrightarrow> List.map_filter id (map g xs) = map h xs"
  by (induction xs) (simp_all add: map_filter_simps)

text \<open>A database that does what the hypothesis says.\<close>

definition series_columns :: "string list" where
  "series_columns = [''p50_ns'', ''p90_ns'', ''p99_ns'', ''p999_ns'', ''tps'', ''total_score'']"

definition list_db :: "(int64 \<Rightarrow> float64) \<Rightarrow> (string \<rightharpoonup> sql_arg) list \<Rightarrow> db_query" where
  "list_db epoch rows text1 sid limit =
     (case find (\<lambda>cl. ts_query cl = text1) series_columns of
        None \<Rightarrow> None
      | Some cl \<Rightarrow> Some (map (scan_point epoch cl) (take (nat limit)
          (sort_key (\<lambda>r. - row_time r) (filter (\<lambda>r. r ''session_id'' = Some (AText sid)) rows)))))"

lemma ts_query_inject: "ts_query a = ts_query b \<longleftrightarrow> a = b"
  by (simp add: ts_query_def)

lemma find_ts_query: "cl \<in> set cls \<Longrightarrow> find (\<lambda>c. ts_query c = ts_query cl) cls = Some cl"
  by (induction cls) (auto simp: ts_query_inject)

lemma list_db_series: "series_query epoch rows (list_db epoch rows)"
proof -
  have "\<exists>rs. mset rs = mset (filter (\<lambda>r. r ''session_id'' = Some (AText sid)) rows) \<and>
      sorted_wrt (\<lambda>a b. row_time b \<le> row_time a) rs \<and>
      list_db epoch rows (ts_query cl) sid limit = Some (map (scan_point epoch cl) (take (nat limit) rs))"
    if "cl \<in> ran allowed" for cl sid limit
  proof -
    let ?rs = "sort_key (\<lambda>r. - row_time r) (filter (\<lambda>r. r ''session_id'' = Some (AText sid)) rows)"
    have "cl \<in> set series_columns" using that by (auto simp: allowed_def series_columns_def)
    then have "list_db epoch rows (ts_query cl) sid limit = Some (map (scan_point epoch cl) (take (nat limit) ?rs))"
      by (simp add: list_db_def find_ts_query)
    moreover have "sorted_wrt (\<lambda>a b. row_time b \<le> row_time a) ?rs"
      using sorted_sort_key [of "\<lambda>r. - row_time r" "filter (\<lambda>r. r ''session_id'' = Some (AText sid)) rows"]
      by (simp add: sorted_map)
    ultimately show ?thesis by (intro exI [of _ ?rs]) simp
  qed
  then show ?thesis by (simp add: series_query_def)
qed

section \<open>Properties\<close>

text \<open>C33. Every statement the store executes fits the table it writes: the table exists in the schema, the
  columns are distinct columns of the table, the placeholders are numbered from one to the number
  of arguments, every column gets one argument of its type, and none that must not be null is
  left out. The integers have to be within the types of the row's fields, and the ports within
  the \<open>INTEGER\<close> of the table.\<close>

theorem every_insert_fits_its_table:
  assumes "job_typed j" "job_statement now j = Some s"
  shows "statement_ok s"
proof -
  have "job_typed (raw_job r) \<and> s = insertRawMetric now r" if "wj_kind j = ''raw''" "wj_raw j = Some r" for r
    using that assms by (simp add: job_statement_def job_typed_def raw_job_def)
  moreover have "job_typed (score_job r) \<and> s = insertCompositeScore now r" if "wj_kind j = ''score''" "wj_score j = Some r" for r
    using that assms by (simp add: job_statement_def job_typed_def score_job_def)
  moreover have "job_typed (kernel_job r) \<and> s = insertKernelLatency now r" if "wj_kind j = ''kernel''" "wj_kernel j = Some r" for r
    using that assms by (simp add: job_statement_def job_typed_def kernel_job_def)
  ultimately show ?thesis
    using assms(2) raw_ok score_ok kernel_ok by (auto simp: job_statement_def split: if_splits)
qed

theorem every_insert_fits_its_table_witness:
  "statement_ok (insertRawMetric 5 test_raw) \<and> row_of (insertRawMetric 5 test_raw) ''time'' = Some (ATime 5)"
  using every_insert_fits_its_table [of "raw_job test_raw" 5 "insertRawMetric 5 test_raw"]
  unfolding row_of_def raw_text
  by (simp add: job_statement_def raw_job_def job_typed_def test_raw_def in64_def insertRawMetric_def raw_metrics_table_def col_def)



end
