(* ===== verification/Packet.thy ===== *)
theory Packet
  imports Ebpf
begin

text \<open>
  The packet side of \<open>sandbox/internal/ebpf/bpf/tc_latency.c\<close>: \<open>parse_flow\<close> on the bytes between
  \<open>data\<close> and \<open>data_end\<close>, the two programs on packets, and their runs over a sequence of packets. A read
  outside the packet is \<open>None\<close>, so that staying within it is a theorem.
\<close>

section \<open>Parsing\<close>

type_synonym packet = "8 word list"

definition rd8 :: "packet \<Rightarrow> nat \<Rightarrow> 8 word option" where
  "rd8 b i = (if i < length b then Some (b ! i) else None)"

text \<open>\<open>ntohs\<close> of two bytes; a 32-bit field as the little-endian machine loads it.\<close>

definition rd_be16 :: "packet \<Rightarrow> nat \<Rightarrow> 16 word option" where
  "rd_be16 b i =
     (if i + 2 \<le> length b then Some (push_bit 8 (ucast (b ! i)) OR ucast (b ! (i + 1))) else None)"

definition rd_le32 :: "packet \<Rightarrow> nat \<Rightarrow> 32 word option" where
  "rd_le32 b i = (if i + 4 \<le> length b then Some (leUint32 (take 4 (drop i b))) else None)"

text \<open>The outer \<open>None\<close> is a read outside the packet, the inner one the return value \<open>-1\<close>. The
  Ethernet header has 14 bytes, the IP header 20 and its options, TCP's 20 and UDP's 8.\<close>

definition parse_flow :: "packet \<Rightarrow> flow_key option option" where
  "parse_flow b =
     (if length b < 14 then Some None
      else Option.bind (rd_be16 b 12) (\<lambda>h_proto.
        if h_proto \<noteq> 0x0800 then Some None
        else if length b < 14 + 20 then Some None
        else Option.bind (rd8 b (14 + 9)) (\<lambda>proto.
          if proto \<noteq> 6 \<and> proto \<noteq> 17 then Some None
          else Option.bind (rd8 b 14) (\<lambda>vihl.
            let transport = 14 + 4 * unat (vihl AND 15) in
            if length b < transport + (if proto = 6 then 20 else 8) then Some None
            else Option.bind (rd_be16 b transport) (\<lambda>sport.
              Option.bind (rd_be16 b (transport + 2)) (\<lambda>dport.
                Option.bind (rd_le32 b (14 + 12)) (\<lambda>saddr.
                  Option.bind (rd_le32 b (14 + 16)) (\<lambda>daddr.
                    Some (Some \<lparr>fk_saddr = saddr, fk_daddr = daddr, fk_sport = sport, fk_dport = dport,
                      fk_proto = proto\<rparr>)))))))))"

section \<open>The programs\<close>

text \<open>The flow table is an LRU map: an update may evict entries, \<open>evicted\<close>.\<close>

type_synonym flow_table = "flow_key \<rightharpoonup> 64 word"

definition ingress_prog :: "flow_key set \<Rightarrow> packet \<Rightarrow> 64 word \<Rightarrow> flow_table \<Rightarrow> flow_table option" where
  "ingress_prog evicted b ts m =
     (case parse_flow b of None \<Rightarrow> None
      | Some None \<Rightarrow> Some m
      | Some (Some key) \<Rightarrow> Some (tc_ingress key ts (m |` (- evicted))))"

definition egress_prog :: "packet \<Rightarrow> 64 word \<Rightarrow> bool \<Rightarrow> flow_table \<Rightarrow> (flow_table \<times> rawEvent option) option" where
  "egress_prog b now room m =
     (case parse_flow b of None \<Rightarrow> None
      | Some None \<Rightarrow> Some (m, None)
      | Some (Some key) \<Rightarrow> Some (tc_egress key now room m))"

datatype tc_event =
    InPkt packet "64 word" "flow_key set"   \<comment> \<open>arrival, its time, what is evicted\<close>
  | OutPkt packet "64 word" bool            \<comment> \<open>departure, its time, room in the ring buffer\<close>

fun tc_step :: "tc_event \<Rightarrow> flow_table \<times> rawEvent list \<Rightarrow> (flow_table \<times> rawEvent list) option" where
  "tc_step (InPkt b ts evicted) (m, out) = map_option (\<lambda>m'. (m', out)) (ingress_prog evicted b ts m)"
| "tc_step (OutPkt b now room) (m, out) =
     map_option (\<lambda>(m', ev). (m', case ev of None \<Rightarrow> out | Some r \<Rightarrow> out @ [r])) (egress_prog b now room m)"

fun tc_run :: "tc_event list \<Rightarrow> flow_table \<times> rawEvent list \<Rightarrow> (flow_table \<times> rawEvent list) option" where
  "tc_run [] s = Some s"
| "tc_run (e # es) s = Option.bind (tc_step e s) (tc_run es)"

section \<open>Within the packet\<close>

lemma rd_in [simp]:
  "i < length b \<Longrightarrow> rd8 b i = Some (b ! i)"
  "i + 2 \<le> length b \<Longrightarrow> rd_be16 b i = Some (push_bit 8 (ucast (b ! i)) OR ucast (b ! (i + 1)))"
  "i + 4 \<le> length b \<Longrightarrow> rd_le32 b i = Some (leUint32 (take 4 (drop i b)))"
  by (simp_all add: rd8_def rd_be16_def rd_le32_def)

lemma parse_flow_reads: "parse_flow b \<noteq> None"
  by (simp add: parse_flow_def Let_def)

lemma parse_flow_cases:
  obtains "parse_flow b = Some None" | k where "parse_flow b = Some (Some k)"
  using parse_flow_reads [of b] by (cases "parse_flow b") auto

lemma tc_run_total: "\<exists>s'. tc_run es s = Some s'"
proof (induction es arbitrary: s)
  case (Cons e es)
  have "tc_step e s \<noteq> None"
    using parse_flow_reads
    by (cases e; cases s) (auto simp: ingress_prog_def egress_prog_def split: option.splits)
  with Cons show ?case by auto
qed simp

section \<open>Frames\<close>

text \<open>An Ethernet frame with an IPv4 packet: addresses, IP options and ports as bytes.\<close>

record frame =
  fr_macs :: "8 word list"
  fr_vihl :: "8 word"
  fr_mid :: "8 word list"       \<comment> \<open>type of service to time to live\<close>
  fr_proto :: "8 word"
  fr_sum :: "8 word list"
  fr_saddr :: "8 word list"
  fr_daddr :: "8 word list"
  fr_options :: "8 word list"
  fr_sport :: "8 word list"
  fr_dport :: "8 word list"
  fr_rest :: "8 word list"

definition frame_bytes :: "frame \<Rightarrow> packet" where
  "frame_bytes f =
     fr_macs f @ [8, 0] @ [fr_vihl f] @ fr_mid f @ [fr_proto f] @ fr_sum f @ fr_saddr f @ fr_daddr f @ fr_options f @
     fr_sport f @ fr_dport f @ fr_rest f"

definition frame_ok :: "frame \<Rightarrow> bool" where
  "frame_ok f \<longleftrightarrow>
     length (fr_macs f) = 12 \<and> length (fr_mid f) = 8 \<and> length (fr_sum f) = 2 \<and> length (fr_saddr f) = 4 \<and>
     length (fr_daddr f) = 4 \<and> length (fr_sport f) = 2 \<and> length (fr_dport f) = 2 \<and>
     20 + length (fr_options f) = 4 * unat (fr_vihl f AND 15) \<and>
     (fr_proto f = 6 \<and> 16 \<le> length (fr_rest f) \<or> fr_proto f = 17 \<and> 4 \<le> length (fr_rest f))"

definition be16 :: "8 word list \<Rightarrow> 16 word" where
  "be16 b = push_bit 8 (ucast (b ! 0)) OR ucast (b ! 1)"

definition flow_of_frame :: "frame \<Rightarrow> flow_key" where
  "flow_of_frame f =
     \<lparr>fk_saddr = leUint32 (fr_saddr f), fk_daddr = leUint32 (fr_daddr f), fk_sport = be16 (fr_sport f),
      fk_dport = be16 (fr_dport f), fk_proto = fr_proto f\<rparr>"

text \<open>The answer: the ends swapped, the rest its own.\<close>

definition answers :: "frame \<Rightarrow> frame \<Rightarrow> bool" where
  "answers g f \<longleftrightarrow> fr_saddr g = fr_daddr f \<and> fr_daddr g = fr_saddr f \<and> fr_sport g = fr_dport f \<and> fr_dport g = fr_sport f \<and>
     fr_proto g = fr_proto f"

lemma parse_frame:
  assumes "frame_ok f"
  shows "parse_flow (frame_bytes f) = Some (Some (flow_of_frame f))"
proof -
  let ?b = "frame_bytes f" and ?n = "length (fr_options f)"
  have ls: "length (fr_macs f) = 12" "length (fr_mid f) = 8" "length (fr_sum f) = 2" "length (fr_saddr f) = 4"
    "length (fr_daddr f) = 4" "length (fr_sport f) = 2" "length (fr_dport f) = 2"
    and ihl: "20 + ?n = 4 * unat (fr_vihl f AND 15)"
    and pr: "fr_proto f = 6 \<and> 16 \<le> length (fr_rest f) \<or> fr_proto f = 17 \<and> 4 \<le> length (fr_rest f)"
    using assms by (simp_all add: frame_ok_def)
  have len: "length ?b = 38 + ?n + length (fr_rest f)" using ls by (simp add: frame_bytes_def)
  have at: "?b ! 12 = 8" "?b ! 13 = 0" "?b ! 14 = fr_vihl f" "?b ! 23 = fr_proto f"
    "take 4 (drop 26 ?b) = fr_saddr f" "take 4 (drop 30 ?b) = fr_daddr f"
    "?b ! (34 + ?n) = fr_sport f ! 0" "?b ! (35 + ?n) = fr_sport f ! 1"
    "?b ! (36 + ?n) = fr_dport f ! 0" "?b ! (37 + ?n) = fr_dport f ! 1"
    using ls by (simp_all add: frame_bytes_def nth_append)
  have p: "push_bit 8 (ucast (8 :: 8 word)) OR ucast (0 :: 8 word) = (0x0800 :: 16 word)" by simp
  have "\<not> length ?b < 34 + ?n + (if fr_proto f = 6 then 20 else 8)" "fr_proto f = 6 \<or> fr_proto f = 17"
    using pr by (auto simp: len)
  then show ?thesis
    by (auto simp: parse_flow_def rd_be16_def rd8_def rd_le32_def at p ihl [symmetric] Let_def len flow_of_frame_def be16_def)
qed

section \<open>What the records measure\<close>

text \<open>When the last packet of a flow arrived, and how many did.\<close>

definition arrives :: "flow_key \<Rightarrow> tc_event \<Rightarrow> 64 word option" where
  "arrives k e = (case e of InPkt b ts ev \<Rightarrow> if parse_flow b = Some (Some k) then Some ts else None | _ \<Rightarrow> None)"

fun last_arrival :: "flow_key \<Rightarrow> tc_event list \<Rightarrow> 64 word option" where
  "last_arrival k [] = None"
| "last_arrival k (e # es) =
     (case last_arrival k es of Some ts \<Rightarrow> Some ts | None \<Rightarrow> arrives k e)"

definition arrivals :: "flow_key \<Rightarrow> tc_event list \<Rightarrow> nat" where
  "arrivals k es = length (filter (\<lambda>e. arrives k e \<noteq> None) es)"

definition record_of :: "flow_key \<Rightarrow> 64 word \<Rightarrow> 64 word \<Rightarrow> rawEvent" where
  "record_of k ts now =
     \<lparr>re_Saddr = fk_saddr k, re_Daddr = fk_daddr k, re_Sport = fk_sport k, re_Dport = fk_dport k, re_Proto = fk_proto k,
      re_RTTNS = now - ts, re_IngressNS = ts, re_EgressNS = now\<rparr>"

definition record_flow :: "rawEvent \<Rightarrow> flow_key" where
  "record_flow r =
     \<lparr>fk_saddr = re_Saddr r, fk_daddr = re_Daddr r, fk_sport = re_Sport r, fk_dport = re_Dport r, fk_proto = re_Proto r\<rparr>"

text \<open>A record of a reply: the reply's packet is in the trace, its flow is the record's reversed, and the
  record holds the last arrival of its flow before it.\<close>

definition measured :: "tc_event list \<Rightarrow> rawEvent \<Rightarrow> bool" where
  "measured es r \<longleftrightarrow>
     (\<exists>xs b now room ys ts. es = xs @ OutPkt b now room # ys \<and> parse_flow b = Some (Some (rev_key (record_flow r))) \<and>
        last_arrival (record_flow r) xs = Some ts \<and> now - ts \<le> 5000000000 \<and> r = record_of (record_flow r) ts now)"

lemma record_flow_of [simp]: "record_flow (record_of k ts now) = k"
  by (simp add: record_flow_def record_of_def)

lemma last_arrival_snoc: "last_arrival k (es @ [e]) = (case arrives k e of Some ts \<Rightarrow> Some ts | None \<Rightarrow> last_arrival k es)"
  by (induction es) (auto split: option.split)

lemma arrivals_snoc: "arrivals k (es @ [e]) = arrivals k es + (if arrives k e = None then 0 else 1)"
  by (simp add: arrivals_def)

lemma measured_snoc: "measured es r \<Longrightarrow> measured (es @ [e]) r"
  unfolding measured_def by (metis append.assoc append_Cons)

lemma tc_run_append: "tc_run (xs @ ys) s = Option.bind (tc_run xs s) (tc_run ys)"
  by (induction xs arbitrary: s) (auto simp del: tc_step.simps split: Option.bind_split)

lemma tc_run_one: "tc_run [e] = tc_step e"
proof
  have "tc_run [] = Some" by (rule ext) simp
  then show "tc_run [e] s = tc_step e s" for s by (simp del: tc_step.simps)
qed

lemma tc_run_snoc: "tc_run (es @ [e]) s = Option.bind (tc_run es s) (tc_step e)"
  by (simp only: tc_run_append tc_run_one)

definition trace_inv :: "tc_event list \<Rightarrow> flow_table \<times> rawEvent list \<Rightarrow> bool" where
  "trace_inv es s \<longleftrightarrow>
     (\<forall>k ts. fst s k = Some ts \<longrightarrow> last_arrival k es = Some ts) \<and> (\<forall>r \<in> set (snd s). measured es r) \<and>
     (\<forall>k. length (filter (\<lambda>r. record_flow r = k) (snd s)) + (if fst s k = None then 0 else 1) \<le> arrivals k es)"

lemma tc_egress_cases:
  assumes "tc_egress key now room m = (m', ev)"
  obtains "m' = m" "ev = None" | "m' = m(rev_key key := None)" "ev = None"
  | ts where "m (rev_key key) = Some ts" "m' = m(rev_key key := None)" "now - ts \<le> 5000000000"
      "ev = Some (record_of (rev_key key) ts now)"
  using assms by (auto simp: tc_egress_def record_of_def Let_def split: option.splits if_splits)

lemmas trace_snocs = trace_inv_def last_arrival_snoc arrivals_snoc

lemma trace_inv_idle: "trace_inv es s \<Longrightarrow> (\<And>k. arrives k e = None) \<Longrightarrow> trace_inv (es @ [e]) s"
  by (auto simp: trace_snocs intro: measured_snoc)

lemma trace_inv_in:
  assumes "trace_inv es (m, out)" "tc_step (InPkt b ts evicted) (m, out) = Some s'"
  shows "trace_inv (es @ [InPkt b ts evicted]) s'"
proof (rule parse_flow_cases [of b])
  assume p: "parse_flow b = Some None"
  with assms(2) have "s' = (m, out)" by (simp add: ingress_prog_def)
  with assms(1) p show ?thesis by (auto intro!: trace_inv_idle simp: arrives_def)
next
  fix key
  assume p: "parse_flow b = Some (Some key)"
  then have s': "s' = ((m |` (- evicted))(key \<mapsto> ts), out)" using assms(2) by (auto simp: ingress_prog_def tc_ingress_def)
  have a: "arrives k (InPkt b ts evicted) = (if k = key then Some ts else None)" for k by (simp add: arrives_def p)
  note inv = assms(1) [unfolded trace_inv_def fst_conv snd_conv]
  have "length (filter (\<lambda>r. record_flow r = k) out) + (if fst s' k = None then 0 else 1) \<le>
      arrivals k (es @ [InPkt b ts evicted])" for k
    using inv [THEN conjunct2, THEN conjunct2, rule_format, of k]
    by (auto simp: s' a arrivals_snoc restrict_map_def split: if_splits)
  with inv show ?thesis
    by (auto simp: trace_inv_def s' last_arrival_snoc a restrict_map_def intro: measured_snoc split: if_splits)
qed

lemma trace_inv_out:
  assumes "trace_inv es (m, out)" "tc_step (OutPkt b now room) (m, out) = Some s'"
  shows "trace_inv (es @ [OutPkt b now room]) s'"
proof (rule parse_flow_cases [of b])
  have a: "arrives k (OutPkt b now room) = None" for k by (simp add: arrives_def)
  {
    assume "parse_flow b = Some None"
    with assms(2) have "s' = (m, out)" by (simp add: egress_prog_def)
    with assms(1) show ?thesis by (simp add: trace_inv_idle a)
  next
    fix key
    assume p: "parse_flow b = Some (Some key)"
    note inv = assms(1) [unfolded trace_inv_def fst_conv snd_conv]
    obtain m' ev where eg: "tc_egress key now room m = (m', ev)" by (cases "tc_egress key now room m")
    then have s': "s' = (m', case ev of None \<Rightarrow> out | Some r \<Rightarrow> out @ [r])" using assms(2) by (auto simp: egress_prog_def p)
    from eg have "trace_inv (es @ [OutPkt b now room]) (m', case ev of None \<Rightarrow> out | Some r \<Rightarrow> out @ [r])"
    proof (cases rule: tc_egress_cases)
      case 1
      with assms(1) show ?thesis by (simp add: trace_inv_idle a)
    next
      case 2
      have "length (filter (\<lambda>r. record_flow r = k) out) + (if m' k = None then 0 else 1) \<le> arrivals k es" for k
        using inv [THEN conjunct2, THEN conjunct2, rule_format, of k] 2(1) by (auto split: if_splits)
      with inv 2 show ?thesis by (auto simp: trace_snocs a intro: measured_snoc split: if_splits)
    next
      case (3 ts)
      have "last_arrival (rev_key key) es = Some ts" using inv 3(1) by blast
      then have "measured (es @ [OutPkt b now room]) (record_of (rev_key key) ts now)"
        unfolding measured_def using p 3(3)
        by (intro exI [of _ es] exI [of _ b] exI [of _ now] exI [of _ room] exI [of _ "[]"] exI [of _ ts]) simp
      moreover have "length (filter (\<lambda>r. record_flow r = k) (snd s')) + (if m' k = None then 0 else 1) \<le> arrivals k es" for k
        using inv [THEN conjunct2, THEN conjunct2, rule_format, of k] 3 s' by (auto split: if_splits)
      ultimately show ?thesis using inv s' 3 by (auto simp: trace_snocs a intro: measured_snoc split: if_splits)
    qed
    then show ?thesis using s' by simp
  }
qed

lemma trace_inv_step: "trace_inv es s \<Longrightarrow> tc_step e s = Some s' \<Longrightarrow> trace_inv (es @ [e]) s'"
  by (cases e; cases s) (simp_all del: tc_step.simps add: trace_inv_in trace_inv_out)

lemma trace_inv_run: "tc_run es (Map.empty, []) = Some s \<Longrightarrow> trace_inv es s"
proof (induction es arbitrary: s rule: rev_induct)
  case Nil
  then show ?case by (auto simp: trace_inv_def)
next
  case (snoc e es)
  then obtain s0 where "tc_run es (Map.empty, []) = Some s0" "tc_step e s0 = Some s"
    by (auto simp: tc_run_snoc bind_eq_Some_conv simp del: tc_step.simps)
  with snoc.IH show ?case by (blast intro: trace_inv_step)
qed

text \<open>Between a request and its reply: no other packet of the flow, and its entry is not evicted.\<close>

definition quiet :: "flow_key \<Rightarrow> tc_event \<Rightarrow> bool" where
  "quiet k e =
     (case e of InPkt b ts evicted \<Rightarrow> k \<notin> evicted \<and> parse_flow b \<noteq> Some (Some k)
      | OutPkt b now room \<Rightarrow> parse_flow b \<noteq> Some (Some (rev_key k)))"

lemma quiet_step:
  assumes "quiet k e" "tc_step e s = Some s'"
  shows "fst s' k = fst s k"
proof (cases e)
  case (InPkt b ts evicted)
  with assms show ?thesis
    by (cases s) (auto simp: quiet_def ingress_prog_def tc_ingress_def split: option.splits)
next
  case (OutPkt b now room)
  with assms show ?thesis
    by (cases s) (auto simp: quiet_def egress_prog_def split: option.splits prod.splits elim!: tc_egress_cases)
qed

lemma quiet_run: "list_all (quiet k) es \<Longrightarrow> tc_run es s = Some s' \<Longrightarrow> fst s' k = fst s k"
proof (induction es arbitrary: s)
  case (Cons e es)
  then obtain s1 where "tc_step e s = Some s1" "tc_run es s1 = Some s'" by (auto simp: bind_eq_Some_conv)
  with Cons quiet_step [of k e s s1] show ?case by simp
qed simp

lemma flow_of_answer: "answers g f \<Longrightarrow> flow_of_frame g = rev_key (flow_of_frame f)"
  by (simp add: answers_def flow_of_frame_def rev_key_def)

section \<open>Properties\<close>

text \<open>C20. The kernel programs measure what happened. Over any sequence of packets, of any bytes, they never
  read outside a packet, and every record they emit belongs to a reply in the sequence: it holds
  the arrival of the last packet of its flow before the reply and the time between the two, at
  most five seconds. No flow has more records than packets that arrived, whatever the flow table
  evicts.\<close>

theorem kernel_records_measure_replies:
  "\<exists>m out. tc_run es (Map.empty, []) = Some (m, out) \<and> list_all (measured es) out \<and>
     length (filter (\<lambda>r. record_flow r = k) out) \<le> arrivals k es"
proof -
  obtain m out where r: "tc_run es (Map.empty, []) = Some (m, out)" using tc_run_total by (metis surj_pair)
  from trace_inv_run [OF r] have "list_all (measured es) out \<and> length (filter (\<lambda>r. record_flow r = k) out) \<le> arrivals k es"
    unfolding trace_inv_def list_all_iff by (auto dest: spec [of _ k])
  with r show ?thesis by blast
qed

text \<open>C21. Every reply in time is measured. For any two TCP or UDP frames that answer one another, with any
  IP options, payloads and link addresses: when the first arrives and the second leaves within
  five seconds, in between no packet of the flow passes and its entry is not evicted, and the ring
  buffer has room, then a record with the flow's ends and the time between the two is emitted.\<close>

theorem replies_in_time_are_measured:
  assumes "frame_ok f" "frame_ok g" "answers g f" "now - ts \<le> 5000000000"
    and "list_all (quiet (flow_of_frame f)) between"
  shows "\<exists>m out. tc_run (InPkt (frame_bytes f) ts evicted # between @ [OutPkt (frame_bytes g) now True]) s = Some (m, out) \<and>
     last out = record_of (flow_of_frame f) ts now \<and> m (flow_of_frame f) = None"
proof -
  let ?k = "flow_of_frame f"
  obtain m0 out0 where s: "s = (m0, out0)" by (cases s)
  obtain m1 out1 where r: "tc_run between ((m0 |` (- evicted))(?k \<mapsto> ts), out0) = Some (m1, out1)"
    using tc_run_total by (metis surj_pair)
  with quiet_run [OF assms(5) r] have "m1 ?k = Some ts" by simp
  then have "tc_egress (rev_key ?k) now True m1 = (m1(?k := None), Some (record_of ?k ts now))"
    using assms(4) by (auto simp: tc_egress_def record_of_def Let_def not_less)
  then have "tc_step (OutPkt (frame_bytes g) now True) (m1, out1) = Some (m1(?k := None), out1 @ [record_of ?k ts now])"
    by (simp add: egress_prog_def parse_frame [OF assms(2)] flow_of_answer [OF assms(3)])
  moreover have "tc_step (InPkt (frame_bytes f) ts evicted) s = Some ((m0 |` (- evicted))(?k \<mapsto> ts), out0)"
    by (simp add: s ingress_prog_def tc_ingress_def parse_frame [OF assms(1)])
  ultimately have "tc_run (InPkt (frame_bytes f) ts evicted # between @ [OutPkt (frame_bytes g) now True]) s =
      Some (m1(?k := None), out1 @ [record_of ?k ts now])"
    by (simp only: tc_run.simps(2) Option.bind.bind_lunit tc_run_append tc_run_one r)
  then show ?thesis by simp
qed

definition sample_frame :: frame where
  "sample_frame = \<lparr>fr_macs = replicate 12 0, fr_vihl = 0x45, fr_mid = replicate 8 0, fr_proto = 17, fr_sum = [0, 0],
     fr_saddr = [10, 0, 0, 1], fr_daddr = [10, 0, 0, 2], fr_options = [], fr_sport = [15, 160], fr_dport = [31, 144],
     fr_rest = replicate 4 0\<rparr>"

definition sample_reply :: frame where
  "sample_reply = sample_frame\<lparr>fr_saddr := [10, 0, 0, 2], fr_daddr := [10, 0, 0, 1], fr_sport := [31, 144], fr_dport := [15, 160]\<rparr>"

theorem replies_in_time_are_measured_witness:
  "\<exists>m out. tc_run [InPkt (frame_bytes sample_frame) 1000 {}, InPkt [] 1500 {}, OutPkt (frame_bytes sample_reply) 2500 True] (Map.empty, []) =
     Some (m, out) \<and> re_RTTNS (last out) = 1500"
proof -
  have "frame_ok sample_frame" "frame_ok sample_reply" "answers sample_reply sample_frame"
    by (simp_all add: frame_ok_def sample_frame_def sample_reply_def answers_def)
  moreover have "list_all (quiet (flow_of_frame sample_frame)) [InPkt [] 1500 {}]" by (simp add: quiet_def parse_flow_def)
  ultimately show ?thesis
    using replies_in_time_are_measured [of sample_frame sample_reply 2500 1000 "[InPkt [] 1500 {}]" "{}" "(Map.empty, [])"]
    by (auto simp: record_of_def)
qed

end
