(* ===== verification/FixTime.thy ===== *)
theory FixTime
  imports Fix
begin

text \<open>
  The time stamps of FIX messages: \<open>t.UTC().Format("20060102-15:04:05.000")\<close>, in
  \<open>fixTimestamp\<close> (\<open>fix_client.go\<close>) and in the acceptor of \<open>dummy-engine/main.go\<close>. An instant is
  the number of nanoseconds since the beginning of 1970 in UTC, of any sign. What is used of
  package \<open>time\<close> is the proleptic Gregorian calendar: a day number is split into cycles of 400, 100,
  4 and 1 years as \<open>time.Time.Date\<close> does, and shown to be the date that the plain count of days
  gives back.
\<close>

section \<open>The calendar\<close>

definition leap :: "int \<Rightarrow> bool" where
  "leap y \<longleftrightarrow> 4 dvd y \<and> (100 dvd y \<longrightarrow> 400 dvd y)"

definition month_days :: "int \<Rightarrow> nat list" where
  "month_days y = [31, if leap y then 29 else 28, 31, 30, 31, 30, 31, 31, 30, 31, 30, 31]"

text \<open>The month (from 0) and the day of the month (from 0) of a day of the year (from 0).\<close>

fun in_months :: "nat list \<Rightarrow> nat \<Rightarrow> nat \<times> nat" where
  "in_months [] d = (0, d)"
| "in_months (n # ns) d = (if d < n then (0, d) else (case in_months ns (d - n) of (m, k) \<Rightarrow> (Suc m, k)))"

text \<open>Days are counted from the first of January of the year 1.\<close>

record civil =
  cv_year :: int
  cv_month :: nat
  cv_day :: nat

definition year_of :: "int \<Rightarrow> int \<times> int" where
  "year_of d =
     (let n400 = d div 146097; d1 = d mod 146097;
          n100 = min 3 (d1 div 36524); d2 = d1 - 36524 * n100;
          n4 = d2 div 1461; d3 = d2 - 1461 * n4;
          n1 = min 3 (d3 div 365)
      in (400 * n400 + 100 * n100 + 4 * n4 + n1 + 1, d3 - 365 * n1))"

definition date_of :: "int \<Rightarrow> civil" where
  "date_of d =
     (case year_of d of (y, yd) \<Rightarrow>
      case in_months (month_days y) (nat yd) of (m, k) \<Rightarrow> \<lparr>cv_year = y, cv_month = Suc m, cv_day = Suc k\<rparr>)"

text \<open>The reference: whole years, then whole months, then days.\<close>

definition days_before_year :: "int \<Rightarrow> int" where
  "days_before_year y = 365 * (y - 1) + (y - 1) div 4 - (y - 1) div 100 + (y - 1) div 400"

definition days_of :: "civil \<Rightarrow> int" where
  "days_of c =
     days_before_year (cv_year c) + int (sum_list (take (cv_month c - 1) (month_days (cv_year c)))) + int (cv_day c) - 1"

definition valid_date :: "civil \<Rightarrow> bool" where
  "valid_date c \<longleftrightarrow>
     1 \<le> cv_month c \<and> cv_month c \<le> 12 \<and> 1 \<le> cv_day c \<and> cv_day c \<le> month_days (cv_year c) ! (cv_month c - 1)"

lemma div_as: "0 < n \<Longrightarrow> n * q \<le> x \<Longrightarrow> x < n * q + n \<Longrightarrow> (x :: int) div n = q"
  by (rule int_div_pos_eq [of _ _ _ "x - n * q"]) auto

lemma dvd_as: "0 \<le> r \<Longrightarrow> r < n \<Longrightarrow> (n :: int) dvd n * q + (r + 1) \<longleftrightarrow> r + 1 = n"
  using zdvd_not_zless [of "r + 1" n] dvd_add_right_iff [of n "n * q" "r + 1"] by (cases "r + 1 = n") auto

lemma year_parts:
  fixes a b c e :: int
  assumes "0 \<le> b" "b \<le> 3" "0 \<le> c" "c \<le> 24" "0 \<le> e" "e \<le> 3"
  defines "y \<equiv> 400 * a + 100 * b + 4 * c + e + 1"
  shows "days_before_year y = 146097 * a + 36524 * b + 1461 * c + 365 * e"
    "leap y \<longleftrightarrow> e = 3 \<and> (c = 24 \<longrightarrow> b = 3)"
proof -
  have "(y - 1) div 4 = 100 * a + 25 * b + c" "(y - 1) div 100 = 4 * a + b" "(y - 1) div 400 = a"
    unfolding y_def using assms(1-6) by (auto intro!: div_as)
  then show "days_before_year y = 146097 * a + 36524 * b + 1461 * c + 365 * e"
    unfolding days_before_year_def by (simp add: y_def)
  show "leap y \<longleftrightarrow> e = 3 \<and> (c = 24 \<longrightarrow> b = 3)"
  proof -
    have "4 dvd y \<longleftrightarrow> e = 3" using dvd_as [of e 4 "100 * a + 25 * b + c"] assms(5,6) by (simp add: y_def algebra_simps)
    moreover have "100 dvd y \<longleftrightarrow> 4 * c + e = 99"
      using dvd_as [of "4 * c + e" 100 "4 * a + b"] assms(3-6) by (simp add: y_def algebra_simps)
    moreover have "400 dvd y \<longleftrightarrow> 100 * b + 4 * c + e = 399"
      using dvd_as [of "100 * b + 4 * c + e" 400 a] assms(1-6) by (simp add: y_def algebra_simps)
    ultimately show ?thesis unfolding leap_def using assms(1-6) by auto
  qed
qed

text \<open>The year and the day of the year are right.\<close>

lemma year_of_correct:
  assumes "year_of d = (y, yd)"
  shows "days_before_year y + yd = d" "0 \<le> yd" "yd < (if leap y then 366 else 365)"
proof -
  define a where "a = d div 146097"
  define d1 where "d1 = d mod 146097"
  define b where "b = min 3 (d1 div 36524)"
  define d2 where "d2 = d1 - 36524 * b"
  define c where "c = d2 div 1461"
  define d3 where "d3 = d2 - 1461 * c"
  define e where "e = min 3 (d3 div 365)"
  have d: "d = 146097 * a + d1" "0 \<le> d1" "d1 < 146097" by (simp_all add: a_def d1_def)
  then have b: "0 \<le> b" "b \<le> 3" "0 \<le> d2" "d2 < 36524 + (if b = 3 then 1 else 0)"
    unfolding b_def d2_def by (auto simp: min_def)
  then have c: "0 \<le> c" "c \<le> 24" "0 \<le> d3" "d3 < 1461" "c = 24 \<and> b < 3 \<longrightarrow> d3 < 1460"
    unfolding c_def d3_def by (auto split: if_splits)
  then have e: "0 \<le> e" "e \<le> 3" "0 \<le> d3 - 365 * e" "d3 - 365 * e < 365 + (if e = 3 \<and> d3 = 1460 then 1 else 0)"
    unfolding e_def by (auto simp: min_def)
  have y: "y = 400 * a + 100 * b + 4 * c + e + 1" "yd = d3 - 365 * e"
    using assms unfolding year_of_def Let_def prod.inject a_def [symmetric] d1_def [symmetric] b_def [symmetric]
      d2_def [symmetric] c_def [symmetric] d3_def [symmetric] e_def [symmetric] by blast+
  note p = year_parts [OF b(1,2) c(1,2) e(1,2), of a, folded y(1)]
  show "days_before_year y + yd = d" unfolding p(1) y(2) using d(1) by (simp add: d3_def d2_def)
  show "0 \<le> yd" using e(3) y(2) by simp
  show "yd < (if leap y then 366 else 365)" unfolding p(2) y(2) using e c b by (auto split: if_splits)
qed

lemma in_months_correct:
  assumes "d < sum_list ns" "in_months ns d = (m, k)"
  shows "m < length ns \<and> k < ns ! m \<and> sum_list (take m ns) + k = d"
  using assms
proof (induction ns arbitrary: d m)
  case (Cons n ns)
  show ?case
  proof (cases "d < n")
    case False
    obtain m' k' where i: "in_months ns (d - n) = (m', k')" by fastforce
    moreover have "d - n < sum_list ns" using Cons.prems(1) False by simp
    ultimately show ?thesis using Cons.IH [of "d - n" m'] Cons.prems(2) False by auto
  qed (use Cons.prems in auto)
qed simp

lemma sum_month_days: "sum_list (month_days y) = (if leap y then 366 else 365)"
  by (simp add: month_days_def)

lemma date_of_correct: "valid_date (date_of d) \<and> days_of (date_of d) = d"
proof -
  obtain y yd where y: "year_of d = (y, yd)" by fastforce
  obtain m k where m: "in_months (month_days y) (nat yd) = (m, k)" by fastforce
  note c = year_of_correct [OF y]
  have "nat yd < sum_list (month_days y)" using c(2,3) by (auto simp: sum_month_days)
  note i = in_months_correct [OF this m]
  have "date_of d = \<lparr>cv_year = y, cv_month = Suc m, cv_day = Suc k\<rparr>" by (simp add: date_of_def y m)
  moreover have "length (month_days y) = 12" by (simp add: month_days_def)
  moreover have "int (sum_list (take m (month_days y))) + int k = yd"
    using i c(2) by (metis int_nat_eq of_nat_add)
  ultimately show ?thesis using i c(1) by (simp add: valid_date_def days_of_def)
qed

section \<open>The stamp\<close>

text \<open>\<open>appendInt\<close> of package \<open>time\<close>: zero padded to a width, the sign first.\<close>

definition append_int :: "int \<Rightarrow> nat \<Rightarrow> string" where
  "append_int x w = (if x < 0 then ''-'' @ pad_digits w (nat (- x)) else pad_digits w (nat x))"

definition unix_day :: int where "unix_day = 719162"

definition fixTimestamp :: "int \<Rightarrow> string" where
  "fixTimestamp t =
     (let secs = t div 1000000000; c = date_of (secs div 86400 + unix_day); sod = nat (secs mod 86400)
      in append_int (cv_year c) 4 @ pad_digits 2 (cv_month c) @ pad_digits 2 (cv_day c) @ ''-'' @
         pad_digits 2 (sod div 3600) @ '':'' @ pad_digits 2 (sod div 60 mod 60) @ '':'' @ pad_digits 2 (sod mod 60) @
         ''.'' @ pad_digits 3 (nat (t mod 1000000000 div 1000000)))"

text \<open>Reading a stamp: the milliseconds since 1970.\<close>

definition stamp_part :: "nat \<Rightarrow> nat \<Rightarrow> string \<Rightarrow> nat" where
  "stamp_part i n s = digits_val (take n (drop i s))"

definition read_stamp :: "string \<Rightarrow> int" where
  "read_stamp s =
     86400000 * (days_of \<lparr>cv_year = int (stamp_part 0 4 s), cv_month = stamp_part 4 2 s, cv_day = stamp_part 6 2 s\<rparr> - unix_day) +
     3600000 * int (stamp_part 9 2 s) + 60000 * int (stamp_part 12 2 s) + 1000 * int (stamp_part 15 2 s) +
     int (stamp_part 18 3 s)"

lemma unix_day_is_1970: "days_of \<lparr>cv_year = 1970, cv_month = 1, cv_day = 1\<rparr> = unix_day"
  by (simp add: days_of_def days_before_year_def unix_day_def)

lemma digits_val_zeros: "digits_val (replicate n (CHR ''0'') @ ds) = digits_val ds"
proof -
  have "foldl (\<lambda>a c. 10 * a + digit_val c) 0 (replicate n (CHR ''0'')) = 0" for n
    by (induction n) (simp_all add: digit_val_def)
  then show ?thesis by (simp add: digits_val_def)
qed

lemma digits_val_pad [simp]: "digits_val (pad_digits w n) = n"
  by (simp add: pad_digits_def digits_val_zeros)

lemma length_pad: "n < 10 ^ w \<Longrightarrow> 0 < w \<Longrightarrow> length (pad_digits w n) = w"
  using length_nat_digits_le [of n "w - 1"] by (simp add: pad_digits_def)

lemma length_pads:
  "n < 100 \<Longrightarrow> length (pad_digits 2 n) = 2" "n < 1000 \<Longrightarrow> length (pad_digits 3 n) = 3"
  "n < 10000 \<Longrightarrow> length (pad_digits 4 n) = 4"
  by (rule length_pad; simp)+

lemma clean_fixTimestamp [simp]: "clean (fixTimestamp t)"
  by (rule clean_no_eq) (simp_all add: fixTimestamp_def Let_def append_int_def soh_def)

lemma stamp_parts:
  assumes "length a = 4" "length b = 2" "length c = 2" "length d = 2" "length e = 2" "length f = 2" "length g = 3"
  defines "s \<equiv> a @ b @ c @ ''-'' @ d @ '':'' @ e @ '':'' @ f @ ''.'' @ g"
  shows "stamp_part 0 4 s = digits_val a" "stamp_part 4 2 s = digits_val b" "stamp_part 6 2 s = digits_val c"
    "stamp_part 9 2 s = digits_val d" "stamp_part 12 2 s = digits_val e" "stamp_part 15 2 s = digits_val f"
    "stamp_part 18 3 s = digits_val g" "length s = 21"
  using assms(1-7) by (simp_all add: stamp_part_def s_def)

text \<open>What the acceptor draws for one message: \<open>execID\<close> is \<open>strconv.FormatInt(now, 36)\<close>.\<close>

definition digit36 :: "nat \<Rightarrow> char" where
  "digit36 d = (if d < 10 then digit_char d else char_of (87 + d))"

fun nat_digits36 :: "nat \<Rightarrow> string" where
  "nat_digits36 n = (if n < 36 then [digit36 n] else nat_digits36 (n div 36) @ [digit36 (n mod 36)])"

declare nat_digits36.simps [simp del]

definition FormatInt36 :: "int \<Rightarrow> string" where
  "FormatInt36 i = (if i < 0 then CHR ''-'' # nat_digits36 (nat (- i)) else nat_digits36 (nat i))"

definition acceptor_env :: "float64 \<Rightarrow> int \<Rightarrow> int \<Rightarrow> int \<Rightarrow> fix_env" where
  "acceptor_env roll now1 now2 now3 =
     \<lparr>env_roll = roll, env_transact = fixTimestamp now1, env_execID = FormatInt36 now2, env_sending = fixTimestamp now3\<rparr>"

lemma digit36_range: "d < 36 \<Longrightarrow> 48 \<le> (of_char (digit36 d) :: nat) \<and> (of_char (digit36 d) :: nat) < 128 \<and> of_char (digit36 d) \<noteq> (61 :: nat)"
  by (auto simp: digit36_def)

lemma nat_digits36_chars: "c \<in> set (nat_digits36 n) \<Longrightarrow> 48 \<le> (of_char c :: nat) \<and> of_char c \<noteq> (61 :: nat)"
proof (induction n rule: nat_digits36.induct)
  case (1 n)
  from 1(2) 1(1) show ?case
    using digit36_range [of n] digit36_range [of "n mod 36"] by (subst (asm) nat_digits36.simps) (auto split: if_splits)
qed

lemma clean_FormatInt36 [simp]: "clean (FormatInt36 i)"
proof -
  have "CHR ''='' \<notin> set (nat_digits36 n)" "soh \<notin> set (nat_digits36 n)" for n
    using nat_digits36_chars [of "CHR ''=''" n] nat_digits36_chars [of soh n] by (auto simp: soh_def)
  then show ?thesis by (intro clean_no_eq) (auto simp: FormatInt36_def soh_def)
qed

lemma env_ok_acceptor [simp]: "env_ok (acceptor_env roll t1 t2 t3)"
  by (simp add: env_ok_def acceptor_env_def)

text \<open>The last instant that has a year of four digits.\<close>

definition year_10000 :: int where "year_10000 = (days_before_year 10000 - unix_day) * 86400000000000"

lemma leap_sums:
  fixes a a' b b' q q' y z :: int
  assumes "q' \<le> q + (z - y)" "a \<le> a'" "b \<le> b'" "y \<le> z"
  shows "365 * (y - 1) + a - q + b \<le> 365 * (z - 1) + a' - q' + b'"
  using assms by simp

lemma days_before_year_mono:
  assumes "y \<le> z"
  shows "days_before_year y \<le> days_before_year z"
proof -
  have "(z - 1) div 100 \<le> ((y - 1) + (z - y) * 100) div 100" using assms by (intro zdiv_mono1) auto
  then have "(z - 1) div 100 \<le> (y - 1) div 100 + (z - y)" by simp
  moreover have "(y - 1) div 4 \<le> (z - 1) div 4" "(y - 1) div 400 \<le> (z - 1) div 400"
    using assms by (auto intro: zdiv_mono1)
  ultimately show ?thesis using assms unfolding days_before_year_def by (intro leap_sums)
qed

lemma date_parts:
  assumes "valid_date c" "days_of c = d"
  shows "days_before_year (cv_year c) \<le> d" "d < days_before_year (cv_year c) + 366" "cv_month c < 100" "cv_day c < 100"
proof -
  obtain m where m: "cv_month c = Suc m" "m < 12" using assms(1) by (cases "cv_month c") (auto simp: valid_date_def)
  let ?ns = "month_days (cv_year c)"
  have len: "m < length ?ns" using m(2) by (simp add: month_days_def)
  have dy: "1 \<le> cv_day c" "cv_day c \<le> ?ns ! m" using assms(1) m(1) by (auto simp: valid_date_def)
  have "\<forall>n \<in> set ?ns. n \<le> 31" by (simp add: month_days_def)
  with len dy(2) have m31: "cv_day c \<le> 31" by (meson le_trans nth_mem)
  have "sum_list ?ns = sum_list (take m ?ns) + (?ns ! m + sum_list (drop (Suc m) ?ns))"
    by (metis Cons_nth_drop_Suc append_take_drop_id len sum_list.Cons sum_list_append)
  then have u: "sum_list (take m ?ns) + cv_day c \<le> 366" using dy(2) by (auto simp: sum_month_days split: if_splits)
  then show "days_before_year (cv_year c) \<le> d" "d < days_before_year (cv_year c) + 366" "cv_month c < 100" "cv_day c < 100"
    using assms(2) dy(1) m m31 by (auto simp: days_of_def)
qed

lemma four_digit_years:
  assumes "unix_day \<le> d" "d < days_before_year 10000"
  shows "0 \<le> cv_year (date_of d)" "cv_year (date_of d) < 10000"
proof -
  note p = date_parts [OF conjunct1 [OF date_of_correct] conjunct2 [OF date_of_correct], of d]
  show "cv_year (date_of d) < 10000"
    using days_before_year_mono [of 10000 "cv_year (date_of d)"] p(1) assms(2) by linarith
  have "days_before_year (- 1) = - 731" by (simp add: days_before_year_def)
  then show "0 \<le> cv_year (date_of d)"
    using days_before_year_mono [of "cv_year (date_of d)" "- 1"] p(2) assms(1) by (force simp: unix_day_def)
qed

lemma clock_sums:
  fixes secs q sod h m x r ms :: int
  assumes "x = 60 * h + m" "sod = 60 * x + r" "secs = 86400 * q + sod"
  shows "1000 * secs + ms = 86400000 * q + 3600000 * h + 60000 * m + 1000 * r + ms"
  using assms by simp

lemma split_instant:
  fixes t :: int
  assumes "secs = t div 1000000000" "sod = secs mod 86400"
  shows "t div 1000000 = 86400000 * (secs div 86400) + 3600000 * (sod div 3600) + 60000 * (sod div 60 mod 60) +
    1000 * (sod mod 60) + t mod 1000000000 div 1000000"
proof -
  have "t = t mod 1000000000 + (1000 * secs) * 1000000" using assms(1) by simp
  then have t: "t div 1000000 = 1000 * secs + t mod 1000000000 div 1000000"
    using div_mult_self1 [of 1000000 "t mod 1000000000" "1000 * secs"] by simp
  have "sod div 60 = 60 * (sod div 3600) + sod div 60 mod 60" using zdiv_zmult2_eq [of 60 sod 60] by simp
  moreover have "sod = 60 * (sod div 60) + sod mod 60" by simp
  moreover have "secs = 86400 * (secs div 86400) + sod" using assms(2) by simp
  ultimately show ?thesis unfolding t by (rule clock_sums)
qed

text \<open>C29. A time stamp is well formed and means its instant: from 1970 to the end of the year 9999 it has 21
  characters and, read by a plain count of whole years, months and days, it gives the instant's
  milliseconds back, so two instants have the same stamp only within one millisecond. Of no
  instant at all does it contain a separator, an equals sign or what would end a message.\<close>

theorem stamps_are_read_back:
  assumes "0 \<le> t" "t < year_10000"
  shows "length (fixTimestamp t) = 21 \<and> read_stamp (fixTimestamp t) = t div 1000000 \<and> clean (fixTimestamp t')"
proof -
  define secs where "secs = t div 1000000000"
  define sod where "sod = secs mod 86400"
  let ?c = "date_of (secs div 86400 + unix_day)"
  have s0: "0 \<le> sod" "sod < 86400" "0 \<le> secs" using assms(1) by (simp_all add: sod_def secs_def)
  have "secs div 86400 = t div 86400000000000"
    using zdiv_zmult2_eq [of 86400 t 1000000000] by (simp add: secs_def)
  moreover have "t div 86400000000000 < days_before_year 10000 - unix_day"
    using assms(2) by (simp add: year_10000_def div_less_iff_less_mult)
  ultimately have d: "unix_day \<le> secs div 86400 + unix_day" "secs div 86400 + unix_day < days_before_year 10000"
    using assms(1) s0(3) by (simp_all add: pos_imp_zdiv_nonneg_iff)
  note y = four_digit_years [OF d]
  note p = date_parts [OF conjunct1 [OF date_of_correct] conjunct2 [OF date_of_correct], of "secs div 86400 + unix_day"]
  have st: "fixTimestamp t = pad_digits 4 (nat (cv_year ?c)) @ pad_digits 2 (cv_month ?c) @ pad_digits 2 (cv_day ?c) @ ''-'' @
      pad_digits 2 (nat sod div 3600) @ '':'' @ pad_digits 2 (nat sod div 60 mod 60) @ '':'' @ pad_digits 2 (nat sod mod 60) @
      ''.'' @ pad_digits 3 (nat (t mod 1000000000 div 1000000))"
    using y(1) by (simp add: fixTimestamp_def Let_def append_int_def secs_def sod_def)
  let ?ms = "t mod 1000000000 div 1000000"
  have n: "nat (cv_year ?c) < 10000" "nat sod div 3600 < 100" "nat sod div 60 mod 60 < 100" "nat sod mod 60 < 100"
    "nat ?ms < 1000" using y s0(2) by (simp_all add: nat_less_iff)
  have ms: "0 \<le> ?ms" by (simp add: pos_imp_zdiv_nonneg_iff)
  note parts = stamp_parts [OF length_pads(3) [OF n(1)] length_pads(1) [OF p(3)] length_pads(1) [OF p(4)] length_pads(1) [OF n(2)]
      length_pads(1) [OF n(3)] length_pads(1) [OF n(4)] length_pads(2) [OF n(5)], folded st]
  have "days_of ?c = secs div 86400 + unix_day" using date_of_correct by blast
  moreover have "\<lparr>cv_year = int (nat (cv_year ?c)), cv_month = cv_month ?c, cv_day = cv_day ?c\<rparr> = ?c" using y(1) by simp
  moreover have "int (nat sod div 3600) = sod div 3600" "int (nat sod div 60 mod 60) = sod div 60 mod 60"
    "int (nat sod mod 60) = sod mod 60" using s0(1) by (simp_all add: zdiv_int zmod_int)
  ultimately have "read_stamp (fixTimestamp t) = t div 1000000"
    using split_instant [OF secs_def sod_def] ms by (simp add: read_stamp_def parts(1-7))
  then show ?thesis using parts(8) by simp
qed

theorem stamps_are_read_back_witness:
  "fixTimestamp 1709251199999000000 = ''20240229-23:59:59.999'' \<and> read_stamp ''20240229-23:59:59.999'' = 1709251199999"
proof -
  have "date_of 738944 = \<lparr>cv_year = 2024, cv_month = 2, cv_day = 29\<rparr>"
    by (simp add: date_of_def year_of_def month_days_def leap_def numeral_2_eq_2)
  then have "fixTimestamp 1709251199999000000 = ''20240229-23:59:59.999''"
    by (simp add: fixTimestamp_def Let_def unix_day_def append_int_def pad_digits_def nat_digits.simps)
  with stamps_are_read_back [of 1709251199999000000] show ?thesis
    by (simp add: year_10000_def days_before_year_def unix_day_def)
qed

end
