(* ===== verification/Swarm.thy ===== *)
theory Swarm
  imports BotRuns FleetServer
begin

text \<open>
  The bots as values of the Go interface \<open>Bot\<close>: the structs of \<open>archetypes.go\<close> and \<open>fix_client.go\<close>,
  their constructors, their \<open>Archetype\<close> methods and the dispatch of \<open>Run\<close>; and the swarm of a fleet,
  from its mix to the archetypes its messages carry. A random generator is its seed, the clock's
  nanoseconds at construction: what it draws is an input of the runs.
\<close>

section \<open>The structs\<close>

record NoiseBot =
  nb_cfg :: BotConfig
  nb_rng :: int64

record MarketMakerBot =
  mm_cfg :: BotConfig
  mm_rng :: int64
  mm_inventory :: int64
  mm_gamma :: float64
  mm_sigma :: float64
  mm_kappa :: float64

record MomentumBot =
  mb_cfg :: BotConfig
  mb_rng :: int64
  mb_prices :: "float64 list"
  mb_window :: int64

record InstitutionalSlicerBot =
  is_cfg :: BotConfig
  is_rng :: int64
  is_parentSize :: int64
  is_sliceSize :: int64

record LatencyArbBot =
  lb_cfg :: BotConfig
  lb_rng :: int64

record FIXNoiseBot =
  fb_cfg :: BotConfig
  fb_rng :: int64

definition NewNoiseBot :: "BotConfig \<Rightarrow> int64 \<Rightarrow> NoiseBot" where
  "NewNoiseBot cfg now = \<lparr>nb_cfg = cfg, nb_rng = now\<rparr>"

definition NewMarketMakerBot :: "BotConfig \<Rightarrow> int64 \<Rightarrow> MarketMakerBot" where
  "NewMarketMakerBot cfg now = \<lparr>mm_cfg = cfg, mm_rng = now, mm_inventory = 0, mm_gamma = mk_gamma, mm_sigma = mk_sigma, mm_kappa = mk_kappa\<rparr>"

definition NewMomentumBot :: "BotConfig \<Rightarrow> int64 \<Rightarrow> MomentumBot" where
  "NewMomentumBot cfg now = \<lparr>mb_cfg = cfg, mb_rng = now, mb_prices = [], mb_window = int mo_window\<rparr>"

definition NewInstitutionalSlicerBot :: "BotConfig \<Rightarrow> int64 \<Rightarrow> InstitutionalSlicerBot" where
  "NewInstitutionalSlicerBot cfg now = \<lparr>is_cfg = cfg, is_rng = now, is_parentSize = parentSize, is_sliceSize = sliceSize\<rparr>"

definition NewLatencyArbBot :: "BotConfig \<Rightarrow> int64 \<Rightarrow> LatencyArbBot" where
  "NewLatencyArbBot cfg now = \<lparr>lb_cfg = cfg, lb_rng = now\<rparr>"

definition NewFIXNoiseBot :: "BotConfig \<Rightarrow> int64 \<Rightarrow> FIXNoiseBot" where
  "NewFIXNoiseBot cfg now = \<lparr>fb_cfg = cfg, fb_rng = now\<rparr>"

definition NoiseBot_Archetype :: "NoiseBot \<Rightarrow> Archetype" where "NoiseBot_Archetype b = NoiseTrader"
definition MarketMakerBot_Archetype :: "MarketMakerBot \<Rightarrow> Archetype" where "MarketMakerBot_Archetype b = MarketMaker"
definition MomentumBot_Archetype :: "MomentumBot \<Rightarrow> Archetype" where "MomentumBot_Archetype b = Momentum"
definition SlicerBot_Archetype :: "InstitutionalSlicerBot \<Rightarrow> Archetype" where "SlicerBot_Archetype b = InstitutionalSlicer"
definition LatencyArbBot_Archetype :: "LatencyArbBot \<Rightarrow> Archetype" where "LatencyArbBot_Archetype b = LatencyArb"
definition FIXNoiseBot_Archetype :: "FIXNoiseBot \<Rightarrow> Archetype" where "FIXNoiseBot_Archetype b = FIXNoise"

lemmas archetype_defs = NoiseBot_Archetype_def MarketMakerBot_Archetype_def MomentumBot_Archetype_def SlicerBot_Archetype_def
  LatencyArbBot_Archetype_def FIXNoiseBot_Archetype_def

lemmas new_bot_defs = NewNoiseBot_def NewMarketMakerBot_def NewMomentumBot_def NewInstitutionalSlicerBot_def
  NewLatencyArbBot_def NewFIXNoiseBot_def

section \<open>The interface\<close>

text \<open>A value of the interface \<open>Bot\<close> and its methods.\<close>

datatype Bot = BNoise NoiseBot | BMaker MarketMakerBot | BMomentum MomentumBot | BSlicer InstitutionalSlicerBot
  | BArb LatencyArbBot | BFIX FIXNoiseBot

fun bot_Archetype :: "Bot \<Rightarrow> Archetype" where
  "bot_Archetype (BNoise b) = NoiseBot_Archetype b"
| "bot_Archetype (BMaker b) = MarketMakerBot_Archetype b"
| "bot_Archetype (BMomentum b) = MomentumBot_Archetype b"
| "bot_Archetype (BSlicer b) = SlicerBot_Archetype b"
| "bot_Archetype (BArb b) = LatencyArbBot_Archetype b"
| "bot_Archetype (BFIX b) = FIXNoiseBot_Archetype b"

text \<open>The mid price, and the market maker's clock, are local to \<open>Run\<close>; the parameters of the structs are
  the constants their constructors set. What a run meets, for whichever bot it is.\<close>

record bot_env =
  be_rounds :: "draw bot_input list"
  be_pairs :: "(draw \<times> draw) bot_input list"
  be_parents :: "parent list"
  be_k :: int
  be_dialed :: bool
  be_written :: bool
  be_now :: string
  be_fix :: "fix_draw bot_input list"

fun bot_Run :: "(float64 \<Rightarrow> float64) \<Rightarrow> (float64 \<Rightarrow> float64) \<Rightarrow> bot_env \<Rightarrow> Bot \<Rightarrow> Metrics list" where
  "bot_Run logf expf v (BNoise b) = NoiseRun (nb_cfg b) (be_rounds v)"
| "bot_Run logf expf v (BMaker b) =
     snd (bot_loop (\<lambda>d. maker_tick logf expf (mm_cfg b) (fst d) (snd d)) (be_pairs v)
       (NewMaker\<lparr>mk_inventory := mm_inventory b\<rparr>))"
| "bot_Run logf expf v (BMomentum b) = snd (bot_loop (momentum_tick expf (mb_cfg b)) (be_rounds v)
       (NewMomentum\<lparr>mo_prices := mb_prices b\<rparr>))"
| "bot_Run logf expf v (BSlicer b) = SlicerRun (is_cfg b) (be_parents v)"
| "bot_Run logf expf v (BArb b) = ArbRun (lb_cfg b) (be_rounds v)"
| "bot_Run logf expf v (BFIX b) = FIXRun (fb_cfg b) (be_k v) (be_dialed v) (be_written v) (be_now v) (be_rounds v) (be_fix v)"

section \<open>The swarm\<close>

text \<open>The constructor that \<open>spawnBots\<close> calls in the loop of an archetype.\<close>

fun new_bot :: "Archetype \<Rightarrow> BotConfig \<Rightarrow> int64 \<Rightarrow> Bot" where
  "new_bot MarketMaker cfg now = BMaker (NewMarketMakerBot cfg now)"
| "new_bot Momentum cfg now = BMomentum (NewMomentumBot cfg now)"
| "new_bot NoiseTrader cfg now = BNoise (NewNoiseBot cfg now)"
| "new_bot InstitutionalSlicer cfg now = BSlicer (NewInstitutionalSlicerBot cfg now)"
| "new_bot LatencyArb cfg now = BArb (NewLatencyArbBot cfg now)"
| "new_bot FIXNoise cfg now = BFIX (NewFIXNoiseBot cfg now)"

text \<open>The bots of a fleet with the clock at each construction, and all their reports when the
  \<open>i\<close>-th bot meets \<open>env i\<close>.\<close>

definition swarm :: "(nat \<Rightarrow> int64) \<Rightarrow> FleetConfig \<Rightarrow> Bot list" where
  "swarm now cfg =
     (let bots = fst (spawnBots (NewFleet cfg)) in map (\<lambda>i. case bots ! i of (a, bc) \<Rightarrow> new_bot a bc (now i)) [0..<length bots])"

definition swarm_reports ::
  "(float64 \<Rightarrow> float64) \<Rightarrow> (float64 \<Rightarrow> float64) \<Rightarrow> (nat \<Rightarrow> bot_env) \<Rightarrow> Bot list \<Rightarrow> Metrics list" where
  "swarm_reports logf expf env bots = concat (map (\<lambda>i. bot_Run logf expf (env i) (bots ! i)) [0..<length bots])"

lemma new_bot_archetype [simp]: "bot_Archetype (new_bot a cfg now) = a"
  by (cases a) (simp_all add: archetype_defs)

lemma bot_Run_archetype: "m \<in> set (bot_Run logf expf v b) \<Longrightarrow> mt_Archetype m = bot_Archetype b"
proof (cases b)
  case (BFIX f)
  assume "m \<in> set (bot_Run logf expf v b)"
  with BFIX show ?thesis
    using noise.run_archetype [of m FIXNoise "fb_cfg f" "be_rounds v" "()"] fix_bot.run_archetype [of m "fb_cfg f" "be_fix v"]
    by (auto simp: FIXRun_def runREST_def runFIX_def archetype_defs split: option.splits)
qed (use SlicerRun_reports in \<open>auto simp: NoiseRun_def ArbRun_def archetype_defs
    intro: noise.run_archetype arb.run_archetype momentum_bot.run_archetype maker_bot.run_archetype\<close>)

lemma swarm_archetypes: "map bot_Archetype (swarm now cfg) = roster (fg_Mix cfg)"
proof -
  have b: "fst (spawnBots (NewFleet cfg)) = map (\<lambda>a. (a, botCfg cfg)) (roster (fg_Mix cfg))"
    by (simp add: spawnBots_bots NewFleet_def)
  show ?thesis by (intro nth_equalityI) (simp_all add: swarm_def b)
qed

lemma swarm_report_archetypes: "m \<in> set (swarm_reports logf expf env bots) \<Longrightarrow> mt_Archetype m \<in> bot_Archetype ` set bots"
  by (auto simp: swarm_reports_def dest: bot_Run_archetype)

lemma list_all2_mem: "list_all2 P xs ys \<Longrightarrow> y \<in> set ys \<Longrightarrow> \<exists>x \<in> set xs. P x y"
  by (induction rule: list_all2_induct) auto

section \<open>A fleet of one bot\<close>

definition one_arb :: FleetConfig where
  "one_arb = test_fleet_cfg\<lparr>fg_Mix := \<lparr>mx_MarketMakers = 0, mx_MomentumTraders = 0, mx_NoiseTraders = 0,
     mx_InstitutionalSlicers = 0, mx_LatencyArbs = 1, mx_FIXNoise = 0\<rparr>\<rparr>"

definition one_round :: bot_env where
  "one_round = \<lparr>be_rounds = [Tick (sample_draw 0 5 (\<lambda>_. Answer 200 (Some \<lparr>resp_OrderID = ''o'', resp_FillPrice = Num False 101,
     resp_FillQty = 1, resp_Status = ''FILLED''\<rparr>)))], be_pairs = [], be_parents = [], be_k = 0, be_dialed = False, be_written = False,
     be_now = [], be_fix = []\<rparr>"

definition arb_reports :: "Metrics list" where
  "arb_reports = swarm_reports (\<lambda>x. x) (\<lambda>x. x) (\<lambda>_. one_round) (swarm (\<lambda>_. 0) one_arb)"

lemma reports_in_Recv [simp]: "reports_in (map Recv ms) = ms" "ChanClosed \<notin> set (map Recv ms)"
  by (induction ms) auto

lemma arb_reports: "length arb_reports = 1" "\<forall>m \<in> set arb_reports. is_fin (mt_FillPrice m)"
proof -
  have "roster (fg_Mix one_arb) = [LatencyArb]" by (simp add: one_arb_def roster_def)
  then have "swarm (\<lambda>_. 0) one_arb = [BArb (NewLatencyArbBot (botCfg one_arb) 0)]"
    by (simp add: swarm_def spawnBots_bots NewFleet_def)
  then show "length arb_reports = 1" "\<forall>m \<in> set arb_reports. is_fin (mt_FillPrice m)"
    by (simp_all add: arb_reports_def swarm_reports_def one_round_def ArbRun_def arb_tick_def market_send_def market_order_def
        send_by_def sendOrder_def sample_draw_def report_def Let_def)
qed

section \<open>Properties\<close>



end
