(* ===== verification/Processes.thy ===== *)
theory Processes
  imports Services Upload
begin

text \<open>
  The life of the five commands: what each \<open>main\<close> opens, serves, closes and leaves to its deferred
  calls, up to the end of the process after a signal, an error of a listener or \<open>os.Exit\<close>; the
  timeouts of their HTTP servers; and what the end of a process means for what was under way: the
  telemetry service's pending batch and the sandboxes of the manager.
\<close>

section \<open>HTTP servers\<close>

text \<open>The fields of \<open>http.Server\<close>, in nanoseconds; zero is no limit.\<close>

record http_server =
  hs_Addr :: string
  hs_ReadTimeout :: int64
  hs_WriteTimeout :: int64
  hs_IdleTimeout :: int64

definition sandbox_server :: "environ \<Rightarrow> http_server" where
  "sandbox_server env =
     \<lparr>hs_Addr = envOr env ''LISTEN_ADDR'' '':8080'', hs_ReadTimeout = 10 * second, hs_WriteTimeout = 30 * second,
      hs_IdleTimeout = 60 * second\<rparr>"

definition fleet_http_server :: "environ \<Rightarrow> http_server" where
  "fleet_http_server env =
     \<lparr>hs_Addr = envOr env ''HTTP_ADDR'' '':9091'', hs_ReadTimeout = 10 * second, hs_WriteTimeout = 10 * second,
      hs_IdleTimeout = 0\<rparr>"

definition board_server :: "environ \<Rightarrow> http_server" where
  "board_server env =
     \<lparr>hs_Addr = envOr env ''LISTEN_ADDR'' '':8082'', hs_ReadTimeout = 10 * second, hs_WriteTimeout = 0,
      hs_IdleTimeout = 120 * second\<rparr>"

definition engine_server :: "environ \<Rightarrow> http_server" where
  "engine_server env =
     \<lparr>hs_Addr = envOr env ''LISTEN_ADDR'' '':9000'', hs_ReadTimeout = 10 * second, hs_WriteTimeout = 0, hs_IdleTimeout = 0\<rparr>"

text \<open>\<open>WriteTimeout\<close> runs from the end of the request's header: what a handler writes later than
  that is not delivered.\<close>

definition delivered :: "http_server \<Rightarrow> int64 \<Rightarrow> 'r \<Rightarrow> 'r option" where
  "delivered srv took reply = (if 0 < hs_WriteTimeout srv \<and> hs_WriteTimeout srv < took then None else Some reply)"

section \<open>Scripts of the commands\<close>

text \<open>What a \<open>main\<close> holds, and what it serves.\<close>

datatype holding =
    Signals | ManagerConn | StoreConn | Reader string | ScoreWriter string | DbPool | ShutdownCtx | FIXAcceptor

datatype server = HTTP http_server | GRPC string

text \<open>The statements of a \<open>main\<close> that open, close or end something. \<open>Open r ok\<close>: a failure is
  \<open>log.Fatalf\<close>. \<open>Serve s fatal\<close>: a goroutine serves; \<open>fatal\<close> says whether an error of the server
  is \<open>log.Fatalf\<close> or only logged. \<open>Await\<close>: until the signal.\<close>

datatype instr =
    Open holding bool | Defer holding | Listen server bool | Serve server bool | Await
  | GiveBack holding | Drain server | OsExit int

record process =
  ps_open :: "holding list"
  ps_deferred :: "holding list"
  ps_serving :: "(server \<times> bool) list"

definition no_process :: process where
  "no_process = \<lparr>ps_open = [], ps_deferred = [], ps_serving = []\<rparr>"

text \<open>How the process ends: its exit code, what it never gave back, the servers cut off with their
  connections. \<open>os.Exit\<close> and \<open>log.Fatalf\<close> run no deferred calls. \<open>broken s\<close>: the server returns
  an error before the signal.\<close>

record ending =
  ed_code :: int
  ed_left :: "holding list"
  ed_cut :: "server list"

definition end_now :: "int \<Rightarrow> process \<Rightarrow> ending" where
  "end_now code p = \<lparr>ed_code = code, ed_left = ps_open p, ed_cut = map fst (ps_serving p)\<rparr>"

fun run_script :: "(server \<Rightarrow> bool) \<Rightarrow> instr list \<Rightarrow> process \<Rightarrow> ending" where
  "run_script broken [] p = end_now 0 (p\<lparr>ps_open := filter (\<lambda>r. r \<notin> set (ps_deferred p)) (ps_open p)\<rparr>)"
| "run_script broken (Open r ok # is) p =
     (if ok then run_script broken is (p\<lparr>ps_open := ps_open p @ [r]\<rparr>) else end_now 1 p)"
| "run_script broken (Defer r # is) p = run_script broken is (p\<lparr>ps_deferred := r # ps_deferred p\<rparr>)"
| "run_script broken (Listen s ok # is) p = (if ok then run_script broken is p else end_now 1 p)"
| "run_script broken (Serve s fatal # is) p = run_script broken is (p\<lparr>ps_serving := ps_serving p @ [(s, fatal)]\<rparr>)"
| "run_script broken (Await # is) p =
     (if \<exists>(s, fatal) \<in> set (ps_serving p). fatal \<and> broken s then end_now 1 p
      else run_script broken is (p\<lparr>ps_serving := filter (\<lambda>(s, _). \<not> broken s) (ps_serving p)\<rparr>))"
| "run_script broken (GiveBack r # is) p = run_script broken is (p\<lparr>ps_open := remove1 r (ps_open p)\<rparr>)"
| "run_script broken (Drain s # is) p =
     run_script broken is (p\<lparr>ps_serving := filter (\<lambda>(s', _). s' \<noteq> s) (ps_serving p)\<rparr>)"
| "run_script broken (OsExit code # is) p = end_now code p"

text \<open>\<open>sandbox/main.go\<close>; \<open>mgr_ok\<close>: \<open>manager.New\<close> succeeds.\<close>

definition sandbox_main :: "environ \<Rightarrow> bool \<Rightarrow> instr list" where
  "sandbox_main env mgr_ok =
     [Open ManagerConn mgr_ok, Defer ManagerConn, Serve (HTTP (sandbox_server env)) True, Await,
      Open ShutdownCtx True, Defer ShutdownCtx, Drain (HTTP (sandbox_server env))]"

text \<open>\<open>botfleet/cmd/main.go\<close>; \<open>listen_ok\<close>: the gRPC address is free.\<close>

definition grpc_server :: "environ \<Rightarrow> server" where
  "grpc_server env = GRPC (envOr env ''LISTEN_ADDR'' '':9090'')"

definition botfleet_grpc :: "environ \<Rightarrow> bool \<Rightarrow> instr list" where
  "botfleet_grpc env listen_ok = [Listen (grpc_server env) listen_ok, Serve (grpc_server env) True]"

definition botfleet_main :: "environ \<Rightarrow> bool \<Rightarrow> instr list" where
  "botfleet_main env listen_ok =
     botfleet_grpc env listen_ok @
     [Serve (HTTP (fleet_http_server env)) False, Await, Drain (grpc_server env), Open ShutdownCtx True, Defer ShutdownCtx,
      Drain (HTTP (fleet_http_server env))]"

text \<open>\<open>consumer.Run\<close>: the three readers are closed when the context ends.\<close>

definition consumer_Run :: "consumer_readers \<Rightarrow> instr list" where
  "consumer_Run c =
     (let rs = map Reader [rc_Topic (cn_metricsReader c), rc_Topic (cn_ebpfReader c), rc_Topic (cn_eventsReader c)]
      in Await # map GiveBack rs)"

text \<open>\<open>telemetry/cmd/main.go\<close>; \<open>st\<close> is what \<open>connectStore\<close> returns. The writer of scores is opened by
  \<open>scorer.NewEngine\<close>, the readers by \<open>consumer.New\<close>.\<close>

definition telemetry_main :: "environ \<Rightarrow> Store option \<Rightarrow> instr list" where
  "telemetry_main env st =
     (let c = telemetry_consumer env in
      [Open Signals True, Defer Signals] @
      (if st \<noteq> None then [Open StoreConn True, Defer StoreConn] else []) @
      [Open (ScoreWriter (wc_Topic (telemetry_writer env))) True] @
      map (\<lambda>r. Open (Reader (rc_Topic r)) True) [cn_metricsReader c, cn_ebpfReader c, cn_eventsReader c] @
      consumer_Run c @ [OsExit 0])"

text \<open>\<open>leaderboard/server/main.go\<close>; \<open>pool\<close>: the time series pool was connected.\<close>

definition leaderboard_open :: "environ \<Rightarrow> bool \<Rightarrow> instr list" where
  "leaderboard_open env pool =
     [Open Signals True, Defer Signals, Open (Reader (rc_Topic (score_reader env))) True, Open (Reader (rc_Topic (chaos_reader env))) True] @
     (if pool then [Open DbPool True] else [])"

definition leaderboard_main :: "environ \<Rightarrow> bool \<Rightarrow> instr list" where
  "leaderboard_main env pool =
     leaderboard_open env pool @
     [Serve (HTTP (board_server env)) True, Await, Open ShutdownCtx True, Defer ShutdownCtx,
      GiveBack (Reader (rc_Topic (score_reader env))), GiveBack (Reader (rc_Topic (chaos_reader env)))] @
     (if pool then [GiveBack DbPool] else []) @ [Drain (HTTP (board_server env))]"

text \<open>\<open>dummy-engine/main.go\<close>. The acceptor's goroutine closes its listener when the context ends.\<close>

definition engine_main :: "environ \<Rightarrow> instr list" where
  "engine_main env =
     (let h = HTTP (engine_server env) in
      [Open Signals True, Defer Signals, Open FIXAcceptor True, Serve h True, Await, GiveBack FIXAcceptor,
       Open ShutdownCtx True, Defer ShutdownCtx, Drain h])"

section \<open>The end of the telemetry service\<close>

text \<open>The metrics reader's goroutine beside \<open>main\<close>, which waits for the signal in \<open>Run\<close>, closes the
  readers and exits: nothing waits for the goroutine. \<open>te_read\<close> is what the goroutine has read.\<close>

record 'w telemetry =
  te_world :: 'w
  te_batch :: "RawMetric list"
  te_read :: "RawMetric list"
  te_signal :: bool
  te_looping :: bool
  te_exited :: bool

definition te_start :: "'w \<Rightarrow> 'w telemetry" where
  "te_start w = \<lparr>te_world = w, te_batch = [], te_read = [], te_signal = False, te_looping = True, te_exited = False\<rparr>"

text \<open>One round of the loop on one input; the last rounds end the loop.\<close>

definition te_round :: "('w \<Rightarrow> RawMetric list \<Rightarrow> 'w) \<Rightarrow> metrics_input \<Rightarrow> 'w telemetry \<Rightarrow> 'w telemetry" where
  "te_round handle i s =
     (case readMetrics handle [i] (te_batch s) (te_world s) of (w, b) \<Rightarrow>
        s\<lparr>te_world := w, te_batch := b, te_read := te_read s @ read_upto [i],
          te_looping := (i \<noteq> CtxEnd \<and> i \<noteq> ReadFailed)\<rparr>)"

inductive te_step :: "('w \<Rightarrow> RawMetric list \<Rightarrow> 'w) \<Rightarrow> 'w telemetry \<Rightarrow> 'w telemetry \<Rightarrow> bool" for handle where
  signal: "\<not> te_exited s \<Longrightarrow> te_step handle s (s\<lparr>te_signal := True\<rparr>)"
| round: "\<not> te_exited s \<Longrightarrow> te_looping s \<Longrightarrow> i = CtxEnd \<longrightarrow> te_signal s \<Longrightarrow> te_step handle s (te_round handle i s)"
| exit: "\<not> te_exited s \<Longrightarrow> te_signal s \<Longrightarrow> te_step handle s (s\<lparr>te_exited := True\<rparr>)"

inductive te_reach :: "('w \<Rightarrow> RawMetric list \<Rightarrow> 'w) \<Rightarrow> 'w \<Rightarrow> 'w telemetry \<Rightarrow> bool" for handle w where
  start: "te_reach handle w (te_start w)"
| step: "te_reach handle w s \<Longrightarrow> te_step handle s s' \<Longrightarrow> te_reach handle w s'"

text \<open>What was handled is a sequence of batches, and with the pending batch it is what was read.\<close>

definition te_ok :: "('w \<Rightarrow> RawMetric list \<Rightarrow> 'w) \<Rightarrow> 'w \<Rightarrow> 'w telemetry \<Rightarrow> bool" where
  "te_ok handle w s \<longleftrightarrow>
     (\<exists>bs. te_world s = foldl handle w bs \<and> concat bs @ te_batch s = te_read s \<and> [] \<notin> set bs) \<and> length (te_batch s) < batch_cap"

lemma te_round_ok:
  assumes "te_ok handle w s"
  shows "te_ok handle w (te_round handle i s)"
proof -
  obtain bs where b: "te_world s = foldl handle w bs" "concat bs @ te_batch s = te_read s" "[] \<notin> set bs"
    "length (te_batch s) < batch_cap" using assms by (auto simp: te_ok_def)
  have stay: "\<exists>cs. foldl handle w bs = foldl handle w cs \<and> concat cs @ te_batch s @ ys = te_read s @ ys \<and> [] \<notin> set cs" for ys
    using b by (intro exI [of _ bs]) simp
  have more: "x \<noteq> [] \<Longrightarrow> \<exists>cs. handle (foldl handle w bs) x = foldl handle w cs \<and> concat cs = concat bs @ x \<and> [] \<notin> set cs" for x
    using b(3) by (intro exI [of _ "bs @ [x]"]) simp
  show ?thesis
  proof (cases i)
    case CtxEnd
    then show ?thesis using b more [of "te_batch s"] by (auto simp: te_round_def te_ok_def flush_def batch_cap_def)
  next
    case Ticked
    then show ?thesis using b more [of "te_batch s"] by (auto simp: te_round_def te_ok_def flush_def batch_cap_def)
  next
    case (Got r)
    then show ?thesis
    proof (cases r)
      case (Some m)
      then show ?thesis using Got b more [of "te_batch s @ [m]"]
        by (auto simp: te_round_def te_ok_def flush_def Let_def batch_cap_def)
    qed (use b in \<open>auto simp: te_round_def te_ok_def\<close>)
  qed (use b in \<open>auto simp: te_round_def te_ok_def\<close>)
qed

lemma te_reach_ok: "te_reach handle w s \<Longrightarrow> te_ok handle w s"
proof (induction rule: te_reach.induct)
  case start
  show ?case by (auto simp: te_ok_def te_start_def batch_cap_def intro: exI [of _ "[]"])
next
  case (step s s')
  from step.hyps(2) step.IH show ?case by cases (auto simp: te_round_ok, auto simp: te_ok_def)
qed

section \<open>Ports of the host network\<close>

text \<open>\<open>freePort\<close> listens on a port the system picks among those nobody listens on, and closes the listener
  again; \<open>None\<close> is an error of the listener.\<close>

definition freePort :: "int64 set \<Rightarrow> int64 option \<Rightarrow> int64 option \<times> int64 set" where
  "freePort listening pick =
     (case pick of None \<Rightarrow> (None, listening)
      | Some port \<Rightarrow> let l = insert port listening in (Some port, l - {port}))"

lemma freePort_leaves: "p \<notin> L \<Longrightarrow> freePort L (Some p) = (Some p, L)"
  by (simp add: freePort_def)

lemma start_tasks_network: "mg_sandboxNetwork (start_tasks cfg cid sid i m) = mg_sandboxNetwork m"
  by (simp add: start_tasks_def Let_def add_task_def)

lemma register_network: "mg_sandboxNetwork (register info m) = mg_sandboxNetwork m"
  by (simp add: register_def Let_def)

lemma Run_network:
  assumes "Run v cfg m = (Inr info, m')"
  shows "useHostNet m' = useHostNet m"
  using assms
  by (auto simp: useHostNet_def Run_def run_register_def Let_def start_tasks_network register_network split: option.splits if_splits)

section \<open>Properties\<close>

text \<open>How the five commands end. On the signal, with no error of a listener, each ends with code 0 and has
  drained its servers; the sandbox service, the fleet, the leaderboard and the engine give back all
  they opened, the telemetry service does not: \<open>os.Exit\<close> skips its deferred calls, so the store is
  never closed, and nothing ever closes the writer of the scores. An error of a listener ends a command with code 1, except one of the fleet's HTTP
  server, which is only logged: the fleet goes on without the server that takes its requests.\<close>

theorem commands_end_so:
  "run_script (\<lambda>_. False) (sandbox_main env True) no_process = \<lparr>ed_code = 0, ed_left = [], ed_cut = []\<rparr> \<and>
    run_script (\<lambda>_. False) (botfleet_main env True) no_process = \<lparr>ed_code = 0, ed_left = [], ed_cut = []\<rparr> \<and>
    run_script (\<lambda>_. False) (leaderboard_main env pool) no_process = \<lparr>ed_code = 0, ed_left = [], ed_cut = []\<rparr> \<and>
    run_script (\<lambda>_. False) (engine_main env) no_process = \<lparr>ed_code = 0, ed_left = [], ed_cut = []\<rparr> \<and>
    run_script broken (telemetry_main env st) no_process =
      \<lparr>ed_code = 0, ed_left = Signals # (if st = None then [] else [StoreConn]) @ [ScoreWriter (wc_Topic (telemetry_writer env))],
        ed_cut = []\<rparr> \<and>
    ed_code (run_script broken (sandbox_main env ok) no_process) = (if ok \<and> \<not> broken (HTTP (sandbox_server env)) then 0 else 1) \<and>
    ed_code (run_script broken (leaderboard_main env pool) no_process) = (if broken (HTTP (board_server env)) then 1 else 0) \<and>
    ed_code (run_script broken (engine_main env) no_process) = (if broken (HTTP (engine_server env)) then 1 else 0) \<and>
    ed_code (run_script broken (botfleet_main env ok) no_process) =
      (if ok \<and> \<not> broken (grpc_server env) then 0 else 1)"
  by (auto simp: sandbox_main_def botfleet_main_def botfleet_grpc_def grpc_server_def leaderboard_main_def leaderboard_open_def engine_main_def telemetry_main_def consumer_Run_def
      no_process_def end_now_def Let_def)


lemma sample_round: "te_reach (\<lambda>n b. n + length b) 0 (te_round (\<lambda>n b. n + length b) (Got (Some test_metric)) (te_start (0 :: nat)))"
  by (rule te_reach.step [OF te_reach.start], rule te_step.round) (simp_all add: te_start_def)




text \<open>The reply of an upload whose build took more than thirty seconds is lost, although its sandbox has started
  and its fleet will be spawned; and the fleets' event stream loses everything after ten seconds.
  The leaderboard and the engine set no such limit.\<close>

theorem late_replies_are_lost:
  "delivered (sandbox_server env) took r = (if 30 * second < took then None else Some r)"
  "delivered (fleet_http_server env) took r = (if 10 * second < took then None else Some r)"
  "delivered (board_server env) took r = Some r" "delivered (engine_server env) took r = Some r"
  by (simp_all add: delivered_def sandbox_server_def fleet_http_server_def board_server_def engine_server_def second_def)

text \<open>On the host network two sandboxes can get the same port. The port \<open>Run\<close> finds is free only until the
  listener is closed: a second run before the first engine listens can be given the same one, and
  both sandboxes are registered under one endpoint.\<close>

theorem host_ports_can_clash:
  assumes "useHostNet m" "p \<notin> L" "freePort L (Some p) = (port1, L1)" "freePort L1 (Some p) = (port2, L2)"
    and "Run (v1\<lparr>rv_port := port1\<rparr>) cfg1 m = (Inr info1, m1)" "Run (v2\<lparr>rv_port := port2\<rparr>) cfg2 m1 = (Inr info2, m2)"
  shows "in_Endpoint info1 = in_Endpoint info2"
proof -
  have p: "port1 = Some p" "port2 = Some p" using assms(2-4) freePort_leaves by auto
  have "useHostNet m1" using Run_network [OF assms(5)] assms(1) by simp
  with Run_Inr(6) [OF assms(5)] Run_Inr(6) [OF assms(6)] assms(1) p show ?thesis
    by (auto simp: container_ip_def container_port_def)
qed

theorem host_ports_can_clash_witness:
  "\<exists>info1 info2 m1. fst (Run (sample_env\<lparr>rv_port := Some 40123\<rparr>) sample_config sample_host_manager) = Inr info1 \<and>
     m1 = snd (Run (sample_env\<lparr>rv_port := Some 40123\<rparr>) sample_config sample_host_manager) \<and>
     fst (Run (sample_env\<lparr>rv_port := Some 40123\<rparr>) sample_config m1) = Inr info2 \<and> in_Endpoint info1 = in_Endpoint info2"
proof -
  let ?v = "sample_env\<lparr>rv_port := Some 40123\<rparr>"
  have run: "\<exists>info m'. Run ?v sample_config m = (Inr info, m')" for m
    by (simp add: Run_def run_register_def sample_env_def resolveBridgeIface_def Let_def)
  then obtain info1 m1 where r1: "Run ?v sample_config sample_host_manager = (Inr info1, m1)" by blast
  obtain info2 m2 where r2: "Run ?v sample_config m1 = (Inr info2, m2)" using run by blast
  have "useHostNet sample_host_manager" by (simp add: useHostNet_def sample_host_manager_def)
  from host_ports_can_clash [OF this _ freePort_leaves freePort_leaves r1 r2, of "{}"] r1 r2 show ?thesis by simp
qed

end
