(* ===== verification/Accuracy.thy ===== *)
theory Accuracy
  imports Scorer
begin

text \<open>
  How current a published score is: the last one of a session carries the fill accuracy of
  all the metrics the engine (\<open>telemetry/internal/scorer/composite.go\<close>) has counted for it, after
  every call of the three loops.
\<close>

section \<open>The last score of a session\<close>

definition last_score :: "string \<Rightarrow> CompositeScore list \<Rightarrow> CompositeScore option" where
  "last_score sid cs = (let ys = filter (\<lambda>c. cs_SessionID c = sid) cs in if ys = [] then None else Some (last ys))"

lemma last_score_simps [simp]:
  "last_score sid [] = None"
  "last_score sid (cs @ [c]) = (if cs_SessionID c = sid then Some c else last_score sid cs)"
  by (simp_all add: last_score_def Let_def)

lemma last_score_SomeD: "last_score sid cs = Some c \<Longrightarrow> c \<in> set cs \<and> cs_SessionID c = sid"
  using last_in_set [of "filter (\<lambda>c. cs_SessionID c = sid) cs"]
  by (auto simp: last_score_def Let_def split: if_splits)

text \<open>The fill accuracy of \<open>k\<close> correct fills out of \<open>t\<close>, as \<open>Compute\<close> divides them.\<close>

fun accuracy :: "int \<times> int \<Rightarrow> float64" where
  "accuracy (t, k) = (if 0 < t then fdiv (f_of_int k) (f_of_int t) else f0)"

lemma score_of_accuracy: "cs_FillAccuracy (score_of L log10 sid clk s) = accuracy (ss_totalFills s, ss_correctFills s)"
  by (simp add: score_of_def Let_def split: prod.split)

text \<open>The last score of a session says what the engine has counted; without one it has counted nothing.\<close>

fun tells :: "CompositeScore option \<Rightarrow> int \<times> int \<times> int \<Rightarrow> bool" where
  "tells None c \<longleftrightarrow> fst c = 0"
| "tells (Some s) c \<longleftrightarrow> cs_FillAccuracy s = accuracy (snd c)"

definition told :: "'h Engine \<Rightarrow> string \<Rightarrow> bool" where
  "told e sid \<longleftrightarrow> tells (last_score sid (en_written e)) (counts_of e sid)"

lemma emit_score_told:
  assumes "emit_score L log10 sid clk k e = (e', None)"
  shows "\<exists>c. en_written e' = en_written e @ [c] \<and> cs_SessionID c = sid \<and>
    cs_FillAccuracy c = accuracy (snd (counts_of e sid))"
proof (cases "en_sessions e sid")
  case None
  with assms have "publish k (blank_score sid) e = (e', None)" by (simp add: emit_score_def Compute_def Let_def)
  from publish_writes [OF this] None show ?thesis by (auto simp: blank_score_def counts_of_def)
next
  case (Some s)
  with assms publish_writes show ?thesis
    by (fastforce simp: emit_score_Some Let_def counts_of_def score_of_accuracy)
qed

lemma emit_all_told:
  "emit_all L log10 seen ms clk k i e = (e', None) \<Longrightarrow>
     (if sid \<in> rm_SessionID ` set ms - set seen
      then \<exists>c. last_score sid (en_written e') = Some c \<and> cs_FillAccuracy c = accuracy (snd (counts_of e sid))
      else last_score sid (en_written e') = last_score sid (en_written e))"
proof (induction ms arbitrary: seen i e)
  case (Cons m ms)
  show ?case
  proof (cases "rm_SessionID m \<in> set seen")
    case True
    with Cons.IH [of seen "Suc i" e] Cons.prems show ?thesis by (auto split: if_splits)
  next
    case False
    with Cons.prems obtain e1 where h: "emit_score L log10 (rm_SessionID m) (clk i) (k i) e = (e1, None)"
      and r: "emit_all L log10 (rm_SessionID m # seen) ms clk k (Suc i) e1 = (e', None)"
      by (auto split: prod.splits option.splits)
    have c: "counts_of e1 sid = counts_of e sid"
      using emit_score_counts [of L log10 "rm_SessionID m" "clk i" "k i" e sid] h by simp
    from emit_score_told [OF h] Cons.IH [OF r] False show ?thesis
      unfolding c by (cases "sid = rm_SessionID m") (auto split: if_splits)
  qed
qed simp

lemma Handle_told:
  assumes "engine_ok n e" "int (n + length ms) < 2 ^ 62" "Handle L log10 v ms e = (e', None)" "told e sid"
  shows "told e' sid"
proof -
  obtain e1 where r: "ingest_all L ms (he_ingest v) 0 e = (e1, None)"
    and em: "emit_all L log10 [] ms (he_compute v) (he_kafka v) 0 e1 = (e', None)"
    using assms(3) by (auto simp: Handle_def split: prod.splits option.splits)
  have c: "counts_of e1 sid = counts_of e' sid"
    using emit_all_counts [of L log10 "[]" ms "he_compute v" "he_kafka v" 0 e1 sid] em by simp
  have w: "en_written e1 = en_written e" using ingest_all_written [of L ms "he_ingest v" 0 e] r by simp
  note t = emit_all_told [OF em, of sid, unfolded c w]
  show ?thesis
  proof (cases "sid \<in> rm_SessionID ` set ms")
    case True
    with t show ?thesis by (auto simp: told_def)
  next
    case False
    then have "metrics_of sid ms = []" by (auto simp: metrics_of_def filter_empty_conv)
    then have "counts_of e' sid = counts_of e sid"
      using Handle_adds [OF assms(1-3), of sid] by (simp add: add_counts_def split: prod.split)
    with t False assms(4) show ?thesis by (simp add: told_def)
  qed
qed

section \<open>Through the calls of the three loops\<close>

text \<open>The metrics a call ingests, and the batches among the calls.\<close>

fun call_rows :: "handler_call \<Rightarrow> RawMetric list" where
  "call_rows (CallBatch ms) = ms"
| "call_rows (CallKernel ev) = [kernel_metric ev]"
| "call_rows (CallChaos ev) = []"

fun batches_of :: "handler_call list \<Rightarrow> RawMetric list list" where
  "batches_of [] = []"
| "batches_of (CallBatch ms # cs) = ms # batches_of cs"
| "batches_of (CallKernel ev # cs) = batches_of cs"
| "batches_of (CallChaos ev # cs) = batches_of cs"

lemma length_call_rows: "length (call_rows c) = call_metrics c"
  by (cases c) simp_all

text \<open>What stays true of the engine between two calls: its invariant, a store that takes rows, and the
  scores of all sessions.\<close>

definition engine_current :: "nat \<Rightarrow> 'h Engine \<Rightarrow> bool" where
  "engine_current n e \<longleftrightarrow> engine_ok n e \<and> store_open (en_store e) \<and> (\<forall>sid. told e sid)"

lemma engine_current_new: "store_open st \<Longrightarrow> engine_current 0 (NewEngine st)"
  using engine_ok_new [of 0 st] by (simp add: engine_current_def told_def counts_of_def NewEngine_def)

lemma counts_new: "counts_of (NewEngine st) sid = (0, 0, 0)"
  by (simp add: counts_of_def NewEngine_def)

lemma Handle_current:
  assumes "engine_current n e" "int (n + length ms) < 2 ^ 62" "hdr_laws L" "log10_laws log10" "\<forall>i. he_kafka v i"
  shows "engine_current (n + length ms) (fst (Handle L log10 v ms e))"
    "counts_of (fst (Handle L log10 v ms e)) sid = add_counts (metrics_of sid ms) (counts_of e sid)"
proof -
  have e: "engine_ok n e" "store_open (en_store e)" "\<And>sid. told e sid" using assms(1) by (simp_all add: engine_current_def)
  note o = Handle_open [OF e(1) assms(2-4) e(2) assms(5)]
  then have h: "Handle L log10 v ms e = (fst (Handle L log10 v ms e), None)" by (metis prod.collapse)
  show "engine_current (n + length ms) (fst (Handle L log10 v ms e))"
    using Handle_ok [OF e(1) assms(2-4)] o(2) Handle_told [OF e(1) assms(2) h e(3)] by (simp add: engine_current_def)
  show "counts_of (fst (Handle L log10 v ms e)) sid = add_counts (metrics_of sid ms) (counts_of e sid)"
    by (rule Handle_adds [OF e(1) assms(2) h])
qed

lemma HandleChaosEvent_frames:
  "counts_of (HandleChaosEvent L now ev e) sid = counts_of e sid"
  "en_written (HandleChaosEvent L now ev e) = en_written e" "en_store (HandleChaosEvent L now ev e) = en_store e"
  by (auto simp: HandleChaosEvent_def getOrCreateSession_def new_session_def counts_of_def Let_def split: prod.split option.split)

lemma world_write_frames:
  "counts_of (fst (world_write r w)) sid = counts_of (fst w) sid" "en_written (fst (world_write r w)) = en_written (fst w)"
  "engine_ok n (fst (world_write r w)) = engine_ok n (fst w)" "snd (world_write r w) = snd w"
  by (simp_all add: world_write_def counts_of_def engine_ok_def split: sum.split)

lemma world_write_open: "store_open (en_store (fst w)) \<Longrightarrow> store_open (en_store (fst (world_write r w)))"
  using write_to_open [of "en_store (fst w)" "kernel_job r"] by (auto simp: world_write_def WriteKernelLatency_def)

lemma call_current:
  assumes "engine_current n (fst w)" "int (n + call_metrics c) < 2 ^ 62" "hdr_laws L" "log10_laws log10" "\<forall>j i. he_kafka (env j) i"
  shows "engine_current (n + call_metrics c) (fst (do_call (world_handle L log10 env) (world_chaos L now) world_write w c)) \<and>
    counts_of (fst (do_call (world_handle L log10 env) (world_chaos L now) world_write w c)) sid =
      add_counts (metrics_of sid (call_rows c)) (counts_of (fst w) sid)"
proof (cases c)
  case (CallBatch ms)
  with Handle_current [OF assms(1) _ assms(3,4), of ms "env (snd w)"] assms(2,5) show ?thesis by (simp add: world_handle_def)
next
  case (CallKernel ev)
  let ?w = "world_write (kernel_row ev) w"
  have "engine_current n (fst ?w)"
    using assms(1) by (simp add: engine_current_def world_write_frames world_write_open told_def)
  from Handle_current [OF this _ assms(3,4), of "[kernel_metric ev]" "env (snd ?w)"] CallKernel assms(2,5) show ?thesis
    by (simp add: world_handle_def world_write_frames)
next
  case (CallChaos ev)
  with assms(1) HandleChaosEvent_ok [OF _ assms(3), of n "fst w"] show ?thesis
    by (simp add: engine_current_def world_chaos_def HandleChaosEvent_frames told_def metrics_of_def add_counts_def split: prod.split)
qed

lemma calls_current:
  assumes "hdr_laws L" "log10_laws log10" "\<forall>j i. he_kafka (env j) i"
  shows "engine_current n (fst w) \<Longrightarrow> int (n + sum_list (map call_metrics cs)) < 2 ^ 62 \<Longrightarrow>
    engine_current (n + sum_list (map call_metrics cs)) (fst (foldl (do_call (world_handle L log10 env) (world_chaos L now) world_write) w cs)) \<and>
    counts_of (fst (foldl (do_call (world_handle L log10 env) (world_chaos L now) world_write) w cs)) sid =
      add_counts (metrics_of sid (concat (map call_rows cs))) (counts_of (fst w) sid)"
proof (induction cs arbitrary: n w)
  case Nil
  then show ?case by (simp add: metrics_of_def add_counts_def split: prod.split)
next
  case (Cons c cs)
  have "int (n + call_metrics c) < 2 ^ 62" using Cons.prems(2) by simp
  from call_current [OF Cons.prems(1) this assms, of now sid]
    Cons.IH [of "n + call_metrics c" "do_call (world_handle L log10 env) (world_chaos L now) world_write w c"] Cons.prems(2)
  show ?case by (simp add: metrics_of_def add_counts_append add.assoc)
qed

text \<open>Only batches report fills: kernel latencies count as orders, and chaos events as nothing.\<close>

lemma kernel_no_fill [simp]: "\<not> is_fill (kernel_metric ev)"
  by (simp add: is_fill_def kernel_metric_def f0_def)

lemma fills_of_calls:
  "snd (add_counts (metrics_of sid (concat (map call_rows cs))) c) = snd (add_counts (metrics_of sid (concat (batches_of cs))) c)"
  "fst (add_counts (metrics_of sid (concat (batches_of cs))) c) \<le> fst (add_counts (metrics_of sid (concat (map call_rows cs))) c)"
  by (induction cs rule: batches_of.induct) (cases c; simp add: add_counts_def metrics_of_def)+

text \<open>So a session that some batch reports has a score, and the last one carries its accuracy.\<close>

lemma last_score_accuracy:
  fixes L :: "'h hdr_lib" and log10 env now st cs sid
  defines "sent \<equiv> en_written (fst (foldl (do_call (world_handle L log10 env) (world_chaos L now) world_write) (NewEngine st, 0) cs))"
    and "b \<equiv> metrics_of sid (concat (batches_of cs))"
  assumes "hdr_laws L" "log10_laws log10" "\<forall>j i. he_kafka (env j) i" "store_open st"
    and "int (sum_list (map call_metrics cs)) < 2 ^ 62" "b \<noteq> []"
  shows "\<exists>c. last_score sid sent = Some c \<and>
    cs_FillAccuracy c = accuracy (int (length (filter is_fill b)), int (length (filter (\<lambda>m. is_fill m \<and> rm_Correct m) b)))"
proof -
  let ?e = "fst (foldl (do_call (world_handle L log10 env) (world_chaos L now) world_write) (NewEngine st, 0) cs)"
  have "engine_current 0 (fst (NewEngine st :: 'h Engine, 0 :: nat))" using engine_current_new [OF assms(6)] by simp
  from calls_current [OF assms(3-5) this, of cs now sid]
  have "engine_current (sum_list (map call_metrics cs)) ?e"
    and c: "counts_of ?e sid = add_counts (metrics_of sid (concat (map call_rows cs))) (0, 0, 0)"
    using assms(7) by (simp_all add: counts_new)
  then have "told ?e sid" by (simp add: engine_current_def)
  moreover have "snd (counts_of ?e sid) = (int (length (filter is_fill b)), int (length (filter (\<lambda>m. is_fill m \<and> rm_Correct m) b)))"
    using fills_of_calls(1) [of sid cs "(0, 0, 0)"] unfolding c b_def by (simp add: add_counts_def)
  moreover have "0 < fst (counts_of ?e sid)"
    using fills_of_calls(2) [of sid cs "(0, 0, 0)"] assms(8) unfolding c b_def by (auto simp: add_counts_def)
  ultimately show ?thesis unfolding sent_def told_def by (cases "last_score sid (en_written ?e)") simp_all
qed

end
