(* ===== verification/Spec2Isabelle.thy ===== *)
theory Spec2Isabelle
  imports Validator OrderBook Fix Store Histogram Consumer Scorer Leaderboard Ebpf Bots BotRuns Fleet FleetServer Sandbox Chaos ProberSetup Upload Wire Sql Services Packet FixTime Swarm Processes Accuracy
begin

text \<open>
  Verification development of the distributed trading benchmark platform.

  \<^bold>\<open>The program.\<close> Contestants upload a trading engine; the platform runs it in a sandbox, attacks it
  with a fleet of bots and ranks it. Five Go services do this. The sandbox service
  (\<open>sandbox/\<close>) builds the image, starts the container, injects a fault, probes the kernel's latencies
  and stops the container after its time. The bot fleet (\<open>botfleet/\<close>) spawns bots of six archetypes
  that send orders by REST and FIX 4.4 and report every answer to Kafka. The telemetry service
  (\<open>telemetry/\<close>) reads the reports, the kernel latencies and the chaos events from Kafka, keeps
  histograms and counters per session, and publishes a composite score. The leaderboard server
  (\<open>leaderboard/server/\<close>) ranks the scores and sends them to browsers. \<open>dummy-engine/\<close> is the bundled
  sample of a contestant's engine.

  \<^bold>\<open>Theories, bottom up.\<close>
  \<^item> \<open>Prelude\<close>: Go's fixed-width integers (as \<open>int\<close> with the wrap-around written out, or \<open>word\<close> in
    \<open>Ebpf\<close>), results that can be errors, shared lemmas. \<open>Float64\<close>: binary64 with rounding, infinities
    and NaN. \<open>GoText\<close>: formatting and scanning of text. \<open>Ordering\<close>: the contracts of comparison
    functions and of \<open>sort.Slice\<close>, the locales \<open>weak_order\<close> and \<open>sort_slice\<close>, with insertion sort as
    their provider.
  \<^item> \<open>Validator\<close> (\<open>scorer/validator.go\<close>): which fills respect price-time priority.
  \<^item> \<open>OrderBook\<close> (\<open>dummy-engine/main.go\<close>): books, matching, the REST handlers; the locale
    \<open>matching_engine\<close> is what a session of orders relies on. \<open>Fix\<close> (\<open>fix_client.go\<close> and the acceptor of
    \<open>dummy-engine/main.go\<close>): messages, framing, sessions from both ends. \<open>FixTime\<close>: the time stamps and
    execution ids of the messages, over the Gregorian calendar.
  \<^item> \<open>Store\<close> (\<open>store.go\<close>): the write queue before the database. \<open>Histogram\<close> (\<open>hdr.go\<close>), \<open>Consumer\<close>
    (\<open>consumer.go\<close>): the three reader loops, over the locale \<open>metric_handler\<close> of the scorer's interface;
    \<open>Scorer\<close> (\<open>composite.go\<close>): counting, scoring, publishing; it interprets \<open>metric_handler\<close>.
    \<open>Accuracy\<close>: the last published score of a session is up to date with what was counted.
  \<^item> \<open>Leaderboard\<close> (\<open>leaderboard/server/main.go\<close>): the hub, its goroutines as a step relation, the time
    series endpoint.
  \<^item> \<open>Ebpf\<close> (\<open>ebpf/prober.go\<close>, \<open>reader.go\<close>, \<open>bpf/tc_latency.c\<close>): the kernel's flow table and the decoding
    of its records; \<open>Packet\<close>: the kernel programs on the bytes of packets. \<open>ProberSetup\<close>: what a prober
    takes from the kernel and gives back.
  \<^item> \<open>Bots\<close> (\<open>types.go\<close>, \<open>http_client.go\<close>, \<open>archetypes.go\<close>): one round of every bot;
    \<open>BotRuns\<close>: their loops, over the locale \<open>bot\<close> of what a round promises; \<open>Swarm\<close>: their structs and
    constructors, the interface \<open>Bot\<close> as a datatype, and all bots of a fleet. \<open>Fleet\<close> (\<open>fleet.go\<close>): the
    swarm and its publisher. \<open>FleetServer\<close> (\<open>grpcserver/server.go\<close>, the spawn handler of
    \<open>botfleet/cmd/main.go\<close>): the running fleets.
  \<^item> \<open>Sandbox\<close> (\<open>manager.go\<close>): the life of containers as a step relation over the manager's
    operations and goroutines. \<open>Chaos\<close> (\<open>injector.go\<close>): the fault injector. \<open>Upload\<close> (\<open>handler.go\<close>,
    \<open>upload.go\<close>): the REST interface and the upload of an engine.
  \<^item> \<open>Json\<close>: what is used of \<open>encoding/json\<close>, with the locale \<open>wire\<close> of an encoder and the decoder at
    the other end; \<open>Wire\<close>: the messages between the services. \<open>Sql\<close> (\<open>store.go\<close>, \<open>init.sql\<close>): the
    statements of the store and the tables they write. \<open>Services\<close> (the \<open>main.go\<close> files): environments,
    topics, routes, the event stream of the fleets, the listeners. \<open>Processes\<close>: what each \<open>main\<close> opens,
    serves and gives back up to the end of its process, and what that end does to a pending batch
    and to running sandboxes.
  \<^item> This theory: what holds across services, from the bots' reports to the counters of the scorer,
    from its published scores to the entries of the board, from the reports to the accuracy shown
    there, and from the manager's chaos events to
    the leaderboard and the scores.

  \<^bold>\<open>Modelling.\<close> Structs are records with the source's fields, prefixed by two letters; functions
  and methods are functions of the same name on explicit state. Errors and panics are values. What
  comes from outside (clocks, random draws, the order of map iteration, answers of Docker, Kafka,
  the database, the kernel, the peer of a connection) is an argument, so that every lemma holds
  for all of it. Goroutines are steps of an inductive relation (\<open>hub_step\<close>, \<open>server_step\<close>,
  \<open>mgr_step\<close>) or, where only their inputs interleave, lists of inputs (\<open>readMetrics\<close>,
  \<open>publishMetrics\<close>). The functions of packages that are not part of the sources are parameters with
  named laws: \<open>hdr_laws\<close> (the HDR histogram), \<open>log10_laws\<close> (\<open>math.Log10\<close>), \<open>sort_slice\<close>; each is
  shown satisfiable by an instance.

  \<^bold>\<open>What is shown.\<close>
  \<^item> The engine: books stay sorted and uncrossed, all tradable volume trades, volume is conserved,
    and the answers say what happened; the validator accepts exactly the fills that respect
    price-time priority.
  \<^item> The wire: FIX messages are parsed and framed as they were printed and every order of a session
    is answered; kernel records are decoded as they were laid out; every JSON message is read with
    the fields it was sent with, every statement of the store fits its table, and the services agree
    on topics and routes.
  \<^item> The kernel programs: no read outside a packet, every record measures a reply, every reply in time
    is measured.
  \<^item> The pipeline: every report is published once per topic, batched and counted once; the store
    keeps order; scores stay in range and grow with better measurements; browsers see correct
    rankings.
  \<^item> The sandbox: containers are isolated, none outlives its timeout, pauses and faults are undone,
    the prober's resources are given back, an upload starts one benchmark or nothing, and a request
    that fails changes nothing.
  \<^item> The ends: how each command ends, that a shutdown of the telemetry service loses less than a batch,
    and that one of the sandbox service orphans its containers.
  \<^item> Where the code falls short of what it says, a theorem shows the behaviour: the notes beside the
    theorems and the manifest's findings list them.

  \<^bold>\<open>Bounds.\<close> Counters are \<open>int64\<close>; theorems that count assume fewer than 2^60 reports or 2^62 metrics,
  which no run reaches. No fuel is used: loops that read until an error recurse on their inputs, and
  the loops of the engine and the FIX reader terminate by a measure.

  \<^bold>\<open>Not modelled.\<close> Pure input and output: sockets, static files, log lines, loading the bytecode (the loader is a
  parameter). Multipart forms, the text of JSON (messages are values), URLs beyond
  \<open>http://host:port\<close>, and case mapping of non-ASCII text (a parameter). Real time: durations are compared as numbers, and the order of timed
  events is an argument. The generated protobuf code, the web client and the infrastructure files.
\<close>

section \<open>Messages between the services\<close>

text \<open>A chaos event as the leaderboard decodes it.\<close>

definition as_read :: "chaosLifecycleEvent \<Rightarrow> (string \<times> string) kafka_read" where
  "as_read ev = Read (Some (ch_SessionID ev, ch_EventType ev))"

text \<open>The events published between two states of the manager.\<close>

definition events_since :: "Manager \<Rightarrow> Manager \<Rightarrow> chaosLifecycleEvent list" where
  "events_since m m' = drop (length (mg_events m)) (mg_events m')"

definition report_is_fill :: "Metrics \<Rightarrow> bool" where
  "report_is_fill m \<longleftrightarrow> flt f0 (mt_FillPrice m) \<or> 0 < mt_FillQty m"

section \<open>From the bots to the scores\<close>

lemma add_counts_mset:
  assumes "mset xs = mset ys"
  shows "add_counts xs c = add_counts ys c"
proof -
  have "length (filter P xs) = length (filter P ys)" for P
    using assms by (metis mset_filter size_mset)
  moreover have "length xs = length ys" using assms by (rule mset_eq_length)
  ultimately show ?thesis by (cases c) (simp add: add_counts_def)
qed

lemma payload_metric_fields [simp]:
  "rm_SessionID (metric_of_payload (report_payload cfg sq act m)) = fg_SessionID cfg"
  "rm_Correct (metric_of_payload (report_payload cfg sq act m)) = mt_Correct m"
  "is_fill (metric_of_payload (report_payload cfg sq act m)) = report_is_fill m"
  by (simp_all add: metric_of_payload_def report_payload_def is_fill_def report_is_fill_def)

lemma payload_counts:
  assumes "list_all2 (\<lambda>m pl. \<exists>sq act. pl = report_payload cfg sq act m) ms pls"
  shows "metrics_of (fg_SessionID cfg) (map metric_of_payload pls) = map metric_of_payload pls \<and>
    add_counts (map metric_of_payload pls) (0, 0, 0) =
      (int (length ms), int (length (filter report_is_fill ms)),
       int (length (filter (\<lambda>m. report_is_fill m \<and> mt_Correct m) ms)))"
  using assms by (induction rule: list_all2_induct) (auto simp: metrics_of_def add_counts_def)

text \<open>The batches of a consumer that has read all reports hold what the bots measured.\<close>

lemma batches_report:
  fixes kafka es cfg
  defines "sent \<equiv> concat (map fst (pb_calls (snd (run_fleet kafka es (NewFleet cfg)))))"
  assumes "ChanClosed \<notin> set es" "length es < 2 ^ 60" "\<forall>m \<in> set (reports_in es). is_fin (mt_FillPrice m)"
    and "fg_MetricsTopic cfg \<noteq> fg_ReplayTopic cfg"
    and "mset (read_upto ins) = mset (map metric_of_payload (on_topic (fg_MetricsTopic cfg) sent))" "ends_by_ctx ins"
  shows "length (concat (fst (batches ins []))) \<le> length es"
    "add_counts (metrics_of (fg_SessionID cfg) (concat (fst (batches ins [])))) (0, 0, 0) =
      (int (length (reports_in es)), int (length (filter report_is_fill (reports_in es))),
       int (length (filter (\<lambda>m. report_is_fill m \<and> mt_Correct m) (reports_in es))))"
proof -
  obtain act where sent: "sent = numbered cfg 0 act es"
    using fleet_sent(3) [OF assms(2-4), of kafka cfg] unfolding sent_def by blast
  let ?pls = "on_topic (fg_MetricsTopic cfg) sent" and ?bs = "fst (batches ins [])"
  have p: "list_all2 (\<lambda>m pl. \<exists>sq act. pl = report_payload cfg sq act m) (reports_in es) ?pls"
    unfolding sent by (rule numbered_payloads [OF assms(5)])
  have l: "length ?pls = length (reports_in es)" "length (reports_in es) \<le> length es"
    using p by (simp add: list_all2_lengthD) (induction es rule: reports_in.induct; auto)
  have "concat ?bs = read_upto ins" using batches_concat [of ins "[]"] batches_ctx [of ins "[]"] assms(7) by simp
  then have "mset (concat ?bs) = mset (map metric_of_payload ?pls)" using assms(6) by simp
  then have c: "length (concat ?bs) = length ?pls"
    and m: "add_counts (metrics_of sid (concat ?bs)) c = add_counts (metrics_of sid (map metric_of_payload ?pls)) c" for sid c
    by (metis length_map mset_eq_length, unfold metrics_of_def) (rule add_counts_mset, simp)
  show "length (concat ?bs) \<le> length es" using l c by simp
  show "add_counts (metrics_of (fg_SessionID cfg) (concat ?bs)) (0, 0, 0) =
      (int (length (reports_in es)), int (length (filter report_is_fill (reports_in es))),
       int (length (filter (\<lambda>m. report_is_fill m \<and> mt_Correct m) (reports_in es))))"
    using m payload_counts [OF p] by simp
qed


lemma read_all: "read_upto (map (\<lambda>pl. Got (Some (metric_of_payload pl))) pls @ [CtxEnd]) = map metric_of_payload pls"
  "ends_by_ctx (map (\<lambda>pl. Got (Some (metric_of_payload pl))) pls @ [CtxEnd])"
  by (induction pls) simp_all


section \<open>From the scores to the board\<close>

text \<open>What the telemetry service has published after a run of its three loops.\<close>

definition published :: "'h hdr_lib \<Rightarrow> (float64 \<Rightarrow> float64) \<Rightarrow> (nat \<Rightarrow> handle_env) \<Rightarrow> (nat \<Rightarrow> int64) \<Rightarrow> Store option \<Rightarrow>
    handler_call list \<Rightarrow> CompositeScore list" where
  "published L log10 env now st cs =
     en_written (fst (foldl (do_call (world_handle L log10 env) (world_chaos L now) world_write) (NewEngine st, 0) cs))"

text \<open>The numbers of a session, and of the scores, have the width of their Go types.\<close>

definition counts_typed :: "(string \<rightharpoonup> int32) \<Rightarrow> bool" where
  "counts_typed m \<longleftrightarrow> finite (dom m) \<and> (\<forall>n \<in> ran m. in32 n)"

definition engine_typed :: "'h Engine \<Rightarrow> bool" where
  "engine_typed e \<longleftrightarrow>
     (\<forall>sid s. en_sessions e sid = Some s \<longrightarrow> in32 (ss_maxActiveBots s) \<and> counts_typed (ss_archetypeCounts s)) \<and>
     (\<forall>c \<in> set (en_written e). in32 (cs_ActiveBots c) \<and> counts_typed (cs_ArchetypeCounts c) \<and> in64 (cs_ComputedAt c))"

fun call_typed :: "handler_call \<Rightarrow> bool" where
  "call_typed (CallBatch ms) = list_all (\<lambda>m. in32 (rm_ActiveBots m)) ms"
| "call_typed (CallKernel ev) = True"
| "call_typed (CallChaos ev) = True"

lemma counts_typed_upd: "counts_typed m \<Longrightarrow> in32 n \<Longrightarrow> counts_typed (m(k \<mapsto> n))"
  by (auto simp: counts_typed_def ran_def)

lemma ingest_counts:
  "ss_maxActiveBots (ingest L m t s) = max (ss_maxActiveBots s) (rm_ActiveBots m)"
  "counts_typed (ss_archetypeCounts s) \<Longrightarrow> counts_typed (ss_archetypeCounts (ingest L m t s))"
  by (simp_all add: ingest_def note_order_def note_archetype_def note_bots_def note_fill_def note_kernel_def note_app_def
      note_team_def Let_def counts_typed_upd)

lemma getOrCreateSession_typed:
  "engine_typed e \<Longrightarrow> getOrCreateSession L sid now e = (s, e1) \<Longrightarrow>
     engine_typed e1 \<and> in32 (ss_maxActiveBots s) \<and> counts_typed (ss_archetypeCounts s)"
  by (auto simp: getOrCreateSession_def new_session_def engine_typed_def counts_typed_def in32_def Let_def split: option.splits if_splits)

lemma handle_metric_typed:
  assumes "engine_typed e" "in32 (rm_ActiveBots m)"
  shows "engine_typed (fst (handle_metric L m clk e))"
proof -
  obtain s e1 where g: "getOrCreateSession L (rm_SessionID m) (fst clk) e = (s, e1)" by fastforce
  from getOrCreateSession_typed [OF assms(1) g] assms(2) show ?thesis
    by (auto simp: handle_metric_def g engine_typed_def ingest_counts max_def Let_def split: sum.split)
qed

lemma ingest_all_typed:
  "engine_typed e \<Longrightarrow> list_all (\<lambda>m. in32 (rm_ActiveBots m)) ms \<Longrightarrow> engine_typed (fst (ingest_all L ms clk i e))"
proof (induction ms arbitrary: i e)
  case (Cons m ms)
  then show ?case using handle_metric_typed [of e m L "clk i"] by (auto split: prod.split option.split)
qed simp

lemma publish_typed:
  assumes "engine_typed e" "in32 (cs_ActiveBots c)" "counts_typed (cs_ArchetypeCounts c)" "in64 (cs_ComputedAt c)"
  shows "engine_typed (fst (publish k c e))"
  using assms by (auto simp: publish_def engine_typed_def Let_def split: sum.split)

lemma score_of_counts:
  "cs_ActiveBots (score_of L log10 sid clk s) = ss_maxActiveBots s"
  "cs_ArchetypeCounts (score_of L log10 sid clk s) = ss_archetypeCounts s"
  "cs_ComputedAt (score_of L log10 sid clk s) = snd clk"
  by (simp_all add: score_of_def Let_def split: prod.split)

lemma emit_score_typed:
  assumes "engine_typed e" "in64 (snd clk)"
  shows "engine_typed (fst (emit_score L log10 sid clk k e))"
proof (cases "en_sessions e sid")
  case None
  then show ?thesis using assms
    by (auto simp: emit_score_def Compute_def blank_score_def counts_typed_def in32_def in64_def intro!: publish_typed)
next
  case (Some s)
  then have "in32 (ss_maxActiveBots s)" "counts_typed (ss_archetypeCounts s)"
    and "engine_typed (e\<lparr>en_sessions := (en_sessions e)(sid \<mapsto> s\<lparr>ss_scoreHistory := h\<rparr>)\<rparr>)" for h
    using assms(1) unfolding engine_typed_def by auto
  then show ?thesis using assms(2) Some
    by (auto simp: emit_score_def Compute_def score_of_counts Let_def intro!: publish_typed)
qed

lemma emit_all_typed:
  "engine_typed e \<Longrightarrow> \<forall>i. in64 (snd (clk i)) \<Longrightarrow> engine_typed (fst (emit_all L log10 seen ms clk k i e))"
proof (induction ms arbitrary: seen i e)
  case (Cons m ms)
  then show ?case using emit_score_typed [of e "clk i" L log10 "rm_SessionID m" "k i"]
    by (auto split: prod.split option.split)
qed simp

lemma Handle_typed:
  assumes "engine_typed e" "list_all (\<lambda>m. in32 (rm_ActiveBots m)) ms" "\<forall>i. in64 (snd (he_compute v i))"
  shows "engine_typed (fst (Handle L log10 v ms e))"
  using ingest_all_typed [OF assms(1,2), of L "he_ingest v" 0] assms(3)
  by (auto simp: Handle_def emit_all_typed split: prod.split option.split)

lemma HandleChaosEvent_typed:
  assumes "engine_typed e"
  shows "engine_typed (HandleChaosEvent L now ev e)"
proof -
  obtain s e1 where g: "getOrCreateSession L (ce_SessionID ev) now e = (s, e1)" by fastforce
  from getOrCreateSession_typed [OF assms g] show ?thesis
    by (auto simp: HandleChaosEvent_def g engine_typed_def Let_def split: prod.split)
qed

lemma calls_typed:
  assumes env: "\<forall>j i. in64 (snd (he_compute (env j) i))"
  shows "list_all call_typed cs \<Longrightarrow> engine_typed (fst w) \<Longrightarrow>
    engine_typed (fst (foldl (do_call (world_handle L log10 env) (world_chaos L now) world_write) w cs))"
proof (induction cs arbitrary: w)
  case (Cons c cs)
  have "engine_typed (fst (do_call (world_handle L log10 env) (world_chaos L now) world_write w c))"
  proof (cases c)
    case (CallKernel ev)
    have "engine_typed (fst (world_write (kernel_row ev) w))"
      using Cons.prems(2) by (simp add: world_write_def engine_typed_def split: sum.split)
    then show ?thesis using env CallKernel
      by (simp add: world_handle_def kernel_metric_def in32_def Handle_typed)
  qed (use Cons.prems env in \<open>simp_all add: world_handle_def world_chaos_def Handle_typed HandleChaosEvent_typed\<close>)
  with Cons show ?case by simp
qed simp

lemma published_good:
  assumes "hdr_laws L" "log10_laws log10" "int (sum_list (map call_metrics cs)) < 2 ^ 62"
    and "list_all call_typed cs" "\<forall>j i. in64 (snd (he_compute (env j) i))"
  shows "\<forall>c \<in> set (published L log10 env now st cs). score_good c \<and> score_typed c"
proof -
  let ?e = "fst (foldl (do_call (world_handle L log10 env) (world_chaos L now) world_write) (NewEngine st, 0) cs)"
  have "world_ok L log10 0 (NewEngine st, 0)" by (simp add: world_ok_def)
  from telemetry.calls_inv [OF this, of cs env now] assms(1-3) have "engine_ok (sum_list (map call_metrics cs)) ?e"
    by (simp add: world_ok_def)
  moreover have "engine_typed ?e"
    using assms(4,5) by (intro calls_typed) (simp_all add: engine_typed_def NewEngine_def)
  ultimately show ?thesis
    by (auto simp: published_def engine_ok_def engine_typed_def counts_typed_def score_typed_def score_good_def in64_def)
qed

lemma last_of_session: "map_of (rev (map (\<lambda>c. (cs_SessionID c, c)) xs)) sid = last_score sid xs"
  by (induction xs rule: rev_induct) simp_all

lemma score_loop_ok:
  "hub_ok h \<Longrightarrow> \<forall>c \<in> set (read_scores rs). cs_TotalScore c \<noteq> NaN \<Longrightarrow> hub_ok (score_loop srt env k rs h)"
proof (induction srt env k rs h rule: score_loop.induct)
  case (4 srt env k c rs h)
  have "hub_ok (foldl (\<lambda>h c. write_one wok snap c h) g cs)" if "hub_ok g" for wok snap cs g
    using that by (induction cs arbitrary: g) simp_all
  with 4 show ?case by (simp add: upsert_def broadcast_def Let_def)
qed auto

lemma board_entries:
  fixes L log10 env now st cs
  defines "sent \<equiv> published L log10 env now st cs"
  assumes "hdr_laws L" "log10_laws log10" "int (sum_list (map call_metrics cs)) < 2 ^ 62" "list_all call_typed cs"
    and "\<forall>j i. in64 (snd (he_compute (env j) i))"
    and "read_scores rs = received_by score_json decode_CompositeScore sent" "h = score_loop srt cast 0 rs newHub"
    and "sort_slice srt" "order_of (hb_scores h) ord"
  shows "well_ranked (ls_Entries (snapshot srt ord t h))"
    "le_Score ` set (ls_Entries (snapshot srt ord t h)) = {c. last_score (cs_SessionID c) sent = Some c}"
proof -
  have good: "\<forall>c \<in> set sent. score_good c \<and> score_typed c" unfolding sent_def by (rule published_good [OF assms(2-6)])
  then have "filter json_ok sent = sent" "list_all score_typed sent" by (simp_all add: score_good_def filter_id_conv list_all_iff)
  then have r: "read_scores rs = sent" using score_wire.stream [of sent] assms(7) by (simp add: received_by_def)
  have "hub_ok h"
    unfolding assms(8) using good r by (intro score_loop_ok) (auto simp: score_good_def dest: fbetween_not_NaN)
  note s = snapshot_ranked [OF assms(9) this assms(10), of t]
  have sc: "hb_scores h sid = last_score sid sent" for sid
    unfolding assms(8) score_loop_scores r last_of_session map_add_def by (simp add: newHub_def split: option.split)
  have "le_Score ` set (ls_Entries (snapshot srt ord t h)) = fst ` set (map shown (ls_Entries (snapshot srt ord t h)))"
    by (simp add: shown_def image_image)
  moreover have "fst ` {(c, chaos_of h k) | k c. hb_scores h k = Some c} = {c. \<exists>sid. hb_scores h sid = Some c}" by force
  moreover have "{c. \<exists>sid. hb_scores h sid = Some c} = {c. last_score (cs_SessionID c) sent = Some c}"
    unfolding sc using last_score_SomeD by blast
  ultimately show "le_Score ` set (ls_Entries (snapshot srt ord t h)) = {c. last_score (cs_SessionID c) sent = Some c}"
    using s(1) unfolding s(2) by simp
  show "well_ranked (ls_Entries (snapshot srt ord t h))" using s(1) unfolding s(2) by simp
qed


lemma read_scores_all [simp]: "read_scores (map (\<lambda>c. Read (Some c)) xs) = xs"
  by (induction xs) simp_all

definition sample_published :: "RawMetric list \<Rightarrow> CompositeScore list" where
  "sample_published ms = published list_hdr step_log10 (\<lambda>_. test_env_h) (\<lambda>_. 0) None [CallBatch ms]"

definition sample_hub :: "RawMetric list \<Rightarrow> Hub" where
  "sample_hub ms = score_loop insertion_sort (\<lambda>_. test_cast) 0
     (map (\<lambda>c. Read (Some c)) (received_by score_json decode_CompositeScore (sample_published ms))) newHub"

lemma sample_published:
  assumes "length ms < 10" "first_seen [] ms = [''s1'']" "list_all (\<lambda>m. in32 (rm_ActiveBots m)) ms"
  obtains c where "sample_published ms = [c]" "order_of (hb_scores (sample_hub ms)) [''s1'']"
proof -
  have e: "sample_published ms = en_written (fst (Handle list_hdr step_log10 test_env_h ms (NewEngine None)))"
    by (simp add: sample_published_def published_def world_handle_def)
  have "map cs_SessionID (sample_published ms) = [''s1'']"
    using Handle_publishes_each_session_once [OF sample_call, OF assms(1), folded e] assms(2) by (simp add: NewEngine_def)
  then obtain c where c: "sample_published ms = [c]" "cs_SessionID c = ''s1''" by (auto simp: map_eq_Cons_conv)
  have "score_good c" "score_typed c"
    using published_good [OF list_hdr_laws step_log10_laws, of "[CallBatch ms]" "\<lambda>_. test_env_h" "\<lambda>_. 0" None] assms(1,3) c(1)
    by (simp_all add: sample_published_def test_env_h_def in64_def)
  then have r: "received_by score_json decode_CompositeScore [c] = [c]"
    using score_wire.stream [of "[c]"] by (simp add: received_by_def score_good_def)
  have "hb_scores (sample_hub ms) = [''s1'' \<mapsto> c]"
    unfolding sample_hub_def c(1) r score_loop_scores read_scores_all using c(2) by (simp add: newHub_def)
  then show thesis using that [OF c(1)] by (simp add: order_of_def)
qed


section \<open>From the reports to the board\<close>


definition sample_reports :: "RawMetric list" where
  "sample_reports = map metric_of_payload (on_topic (fg_MetricsTopic test_fleet_cfg)
     (concat (map fst (pb_calls (snd (run_fleet (\<lambda>_. True)
        [Recv (test_report ''o1''), BotDone, PubTick, Recv (test_report ''o2'')] (NewFleet test_fleet_cfg)))))))"

lemma sample_reports: "map (\<lambda>m. (rm_SessionID m, rm_ActiveBots m)) sample_reports = [(''s1'', 4), (''s1'', 3)]"
  by code_simp


section \<open>Interrupted faults\<close>

lemma events_frames [simp]:
  "mg_events (dcall c m) = mg_events m" "mg_eventsWriter (dcall c m) = mg_eventsWriter m"
  "mg_events (stop_lock sid m) = mg_events m" "mg_events (timeout_lock sid m) = mg_events m"
  "mg_eventsWriter (publishChaosEvent ok ev m) = mg_eventsWriter m"
  "mg_eventsWriter m \<Longrightarrow> mg_events (publishChaosEvent True ev m) = mg_events m @ [ev]"
  by (auto simp: dcall_def stop_lock_def timeout_lock_def unregister_def cancel_def publishChaosEvent_def Let_def split: option.split)

lemma setChaos_flag [simp]: "hb_chaosActive (setChaos srt v sid b h) sid = Some b"
  by (simp add: setChaos_def put_chaos_def broadcast_def Let_def)

lemma fault_events:
  assumes "mg_eventsWriter m" "m1 = chaos_begin cid sid ses t1 True m"
  shows "events_since m (chaos_abort cid (stop_lock sid m1)) = [chaos_event ''chaos_start'' sid ses t1]"
    "events_since m (chaos_abort cid (timeout_lock sid m1)) = [chaos_event ''chaos_start'' sid ses t1]"
    "events_since m (chaos_finish cid sid ses t2 True m1) =
       [chaos_event ''chaos_start'' sid ses t1, chaos_event ''chaos_end'' sid ses t2]"
  using assms by (simp_all add: events_since_def chaos_begin_def chaos_abort_def chaos_finish_def)

text \<open>A fault that is interrupted leaves its mark. When a sandbox is stopped, or times out, while
  the fault is on, the manager resumes the container but publishes no end of the fault: the
  leaderboard, having seen all its events, shows the session under chaos for good. After a fault
  that ran its time it does not.\<close>

theorem interrupted_fault_keeps_its_mark:
  assumes "mg_eventsWriter m" "m1 = chaos_begin cid sid ses t1 True m"
  shows "hb_chaosActive (event_loop srt env k (map as_read (events_since m (chaos_abort cid (stop_lock sid m1)))) h) ses = Some True \<and>
    hb_chaosActive (event_loop srt env k (map as_read (events_since m (chaos_abort cid (timeout_lock sid m1)))) h) ses = Some True \<and>
    hb_chaosActive (event_loop srt env k (map as_read (events_since m (chaos_finish cid sid ses t2 True m1))) h) ses = Some False"
  unfolding fault_events [OF assms] by (simp add: as_read_def chaos_event_def)

definition sample_events_manager :: Manager where
  "sample_events_manager = sample_manager\<lparr>mg_eventsWriter := True\<rparr>"

theorem interrupted_fault_keeps_its_mark_witness:
  "hb_chaosActive (event_loop (\<lambda>_ es. es) (\<lambda>_. \<lparr>ca_ord = [], ca_now = 0, ca_conns = [], ca_wok = (\<lambda>_. True)\<rparr>) 0
     (map as_read (events_since sample_events_manager
       (chaos_abort ''0123456789abcdef'' (stop_lock ''0123456789ab''
         (chaos_begin ''0123456789abcdef'' ''0123456789ab'' ''s1'' 5 True sample_events_manager))))) newHub) ''s1'' = Some True"
  using interrupted_fault_keeps_its_mark [of sample_events_manager, OF _ refl] by (simp add: sample_events_manager_def)

text \<open>An interrupted fault costs nothing. The telemetry service scores resilience from a fault only
  once it has ended: when the sandbox was stopped during its first fault, the recovery time stays
  0 and the degradation ratio 1, and the resilience score is the 85 of a session without faults,
  more than any fault that ended can score.\<close>

theorem interrupted_fault_costs_nothing:
  assumes "mg_eventsWriter m" "m1 = chaos_begin cid sid ses t1 True m"
    and "en_sessions e ses = Some s" "ss_chaosEndNS s = 0"
    and "e' = foldl (\<lambda>e ev. HandleChaosEvent L now (as_chaos_event ev) e) e (events_since m (chaos_abort cid (stop_lock sid m1)))"
  shows "cs_RecoveryTimeMS (Compute L log10 ses clk e') = f0 \<and>
    cs_DegradationRatio (Compute L log10 ses clk e') = Num False 1 \<and>
    cs_ResilienceScore (Compute L log10 ses clk e') = Num False 85"
proof -
  have "e' = HandleChaosEvent L now (as_chaos_event (chaos_event ''chaos_start'' sid ses t1)) e"
    using assms(5) unfolding fault_events(1) [OF assms(1,2)] by simp
  moreover obtain p50 p90 p99 p999 where "KernelPercentiles L (ss_hdr s) = (p50, p90, p99, p999)" by (metis prod_cases4)
  ultimately have "\<exists>s'. en_sessions e' ses = Some s' \<and> ss_chaosEndNS s' = 0"
    using assms(3,4) by (simp add: HandleChaosEvent_def as_chaos_event_def chaos_event_def getOrCreateSession_def Let_def)
  then show ?thesis
    by (auto simp: Compute_def score_of_def Let_def normalizeResilience_def f0_def split: prod.split)
qed

theorem interrupted_fault_costs_nothing_witness:
  "cs_ResilienceScore (Compute list_hdr step_log10 ''s1'' (0, 0)
     (foldl (\<lambda>e ev. HandleChaosEvent list_hdr 0 (as_chaos_event ev) e)
       ((NewEngine None)\<lparr>en_sessions := [''s1'' \<mapsto> new_session list_hdr 0]\<rparr>)
       (events_since sample_events_manager (chaos_abort ''0123456789abcdef'' (stop_lock ''0123456789ab''
         (chaos_begin ''0123456789abcdef'' ''0123456789ab'' ''s1'' 5 True sample_events_manager)))))) = Num False 85"
  by (rule conjunct2 [OF conjunct2 [OF interrupted_fault_costs_nothing
      [where s = "new_session list_hdr 0", OF _ refl _ _ refl]]])
    (simp_all add: sample_events_manager_def new_session_def)

section \<open>Kernel latencies\<close>

text \<open>Every session claims every flow. Two sandboxes that the manager starts on one network get
  probers on the same bridge interface, and a record that one prober decodes the other decodes
  too, with the same addresses and latency but its own session: each session is credited with
  the latencies of both sandboxes.\<close>

theorem every_session_claims_every_flow:
  assumes "Run v1 cfg1 m = (Inr i1, m1)" "Run v2 cfg2 m1 = (Inr i2, m2)" "rv_nets v1 = rv_nets v2"
    and "parseEvent \<lparr>pb_sessionID = in_SessionID i1, pb_sandboxID = in_ID i1\<rparr> raw = Inr ev"
  shows "in_EBPFIface i1 = in_EBPFIface i2 \<and>
    parseEvent \<lparr>pb_sessionID = in_SessionID i2, pb_sandboxID = in_ID i2\<rparr> raw =
      Inr (ev\<lparr>lv_SessionID := in_SessionID i2, lv_SandboxID := in_ID i2\<rparr>)"
proof -
  have net: "mg_sandboxNetwork m1 = mg_sandboxNetwork m"
    using assms(1) by (auto simp: Run_def run_register_def Let_def start_tasks_def register_def split: option.splits if_splits)
  have iface: "in_EBPFIface i = (case resolveBridgeIface (rv_nets v) m of Iface x \<Rightarrow> x | _ \<Rightarrow> [])"
    if "Run v cfg m = (Inr i, m')" for v cfg m i m'
    using that by (auto simp: Run_def run_register_def Let_def sandbox_info_def resolveBridgeIface_def split: option.splits if_splits)
  have "in_EBPFIface i1 = in_EBPFIface i2"
    unfolding iface [OF assms(1)] iface [OF assms(2)] resolveBridgeIface_def net assms(3) ..
  with assms(4) show ?thesis by (auto simp: parseEvent_def split: if_splits option.splits)
qed

theorem every_session_claims_every_flow_witness:
  "\<exists>i1 (i2 :: Info) (ev :: LatencyEvent). fst (Run sample_env sample_config sample_manager) = Inr i1 \<and>
     parseEvent \<lparr>pb_sessionID = in_SessionID i2, pb_sandboxID = in_ID i2\<rparr> \<lparr>gs_len = 40, gs_mem = replicate 40 0\<rparr> =
       Inr (ev\<lparr>lv_SessionID := in_SessionID i2, lv_SandboxID := in_ID i2\<rparr>) \<and> in_EBPFIface i1 = in_EBPFIface i2"
proof -
  obtain i1 m1 where r1: "Run sample_env sample_config sample_manager = (Inr i1, m1)" using sample_Run by blast
  have "\<exists>i2 m2. Run (sample_env\<lparr>rv_create := Some ''fedcba9876543210''\<rparr>) sample_config m1 = (Inr i2, m2)"
    by (simp add: Run_def run_register_def sample_env_def resolveBridgeIface_def Let_def)
  then obtain i2 m2 where r2: "Run (sample_env\<lparr>rv_create := Some ''fedcba9876543210''\<rparr>) sample_config m1 = (Inr i2, m2)"
    by blast
  have "\<exists>ev. parseEvent \<lparr>pb_sessionID = in_SessionID i1, pb_sandboxID = in_ID i1\<rparr> \<lparr>gs_len = 40, gs_mem = replicate 40 0\<rparr> = Inr ev"
    by (simp add: parseEvent_def decode_raw_def sub_slice_def at_index_def)
  then obtain ev where ev: "parseEvent \<lparr>pb_sessionID = in_SessionID i1, pb_sandboxID = in_ID i1\<rparr> \<lparr>gs_len = 40, gs_mem = replicate 40 0\<rparr> = Inr ev"
    by blast
  from every_session_claims_every_flow [OF r1 r2 _ ev] r1 show ?thesis
    by (intro exI [of _ i1] exI [of _ i2] exI [of _ ev]) simp
qed

end
